(* ===== verification/Prelude.thy ===== *)
theory Prelude
  imports
    Main
    "HOL-Library.Sublist"
    "HOL-Library.AList"
    "HOL-Library.List_Lexorder"
    "HOL-Library.Char_ord"
begin

text \<open>
  Shared vocabulary of the development.

  A Go string is a sequence of bytes, so it is modelled by \<^typ>\<open>string\<close> (a list of
  bytes), and the order on strings is the bytewise lexicographic one of Go's \<open><\<close>, which
  \<open>List_Lexorder\<close> and \<open>Char_ord\<close> provide.  The functions of Go's \<open>strings\<close>,
  \<open>strconv\<close>, \<open>unicode/utf8\<close> and \<open>time\<close> packages that the program uses are
  written out here, as far as the program can observe them; a Go map is an association list
  with distinct keys (\<open>AList.update\<close> stores, \<^const>\<open>map_of\<close> reads).
\<close>

named_theorems go_defs \<open>definitional equations of the small helpers, for evaluation\<close>

section \<open>Characters and strings\<close>

definition lower_char :: "char \<Rightarrow> char" where
  "lower_char c = (if CHR ''A'' \<le> c \<and> c \<le> CHR ''Z'' then char_of (of_char c + 32 :: nat) else c)"

text \<open>
  \<open>strings.ToLower\<close> on the bytes of ASCII letters.  Go also maps non-ASCII runes; the only
  two that become ASCII letters are U+0130 (to \<open>i\<close>) and U+212A (to \<open>k\<close>).  None of the
  program's uses can see the difference: the lowered text is either stripped of everything
  but \<open>0-9a-f\<close> or searched for words without \<open>i\<close> and \<open>k\<close>.
\<close>

definition to_lower :: "string \<Rightarrow> string" where
  "to_lower s = map lower_char s"

definition is_digit :: "char \<Rightarrow> bool" where
  "is_digit c \<longleftrightarrow> CHR ''0'' \<le> c \<and> c \<le> CHR ''9''"

definition is_hex :: "char \<Rightarrow> bool" where
  "is_hex c \<longleftrightarrow> is_digit c \<or> CHR ''a'' \<le> c \<and> c \<le> CHR ''f''"

text \<open>
  \<open>strings.TrimSpace\<close> removes the runes of \<open>unicode.IsSpace\<close> at both ends.  A rune is
  removed exactly when its UTF-8 encoding is a prefix (suffix) of the bytes, so the model
  strips encodings.
\<close>

definition space_runes :: "string list" where
  "space_runes =
     [[CHR 0x09], [CHR 0x0A], [CHR 0x0B], [CHR 0x0C], [CHR 0x0D], [CHR 0x20],
      [CHR 0xC2, CHR 0x85], [CHR 0xC2, CHR 0xA0], [CHR 0xE1, CHR 0x9A, CHR 0x80],
      [CHR 0xE2, CHR 0x80, CHR 0x80], [CHR 0xE2, CHR 0x80, CHR 0x81],
      [CHR 0xE2, CHR 0x80, CHR 0x82], [CHR 0xE2, CHR 0x80, CHR 0x83],
      [CHR 0xE2, CHR 0x80, CHR 0x84], [CHR 0xE2, CHR 0x80, CHR 0x85],
      [CHR 0xE2, CHR 0x80, CHR 0x86], [CHR 0xE2, CHR 0x80, CHR 0x87],
      [CHR 0xE2, CHR 0x80, CHR 0x88], [CHR 0xE2, CHR 0x80, CHR 0x89],
      [CHR 0xE2, CHR 0x80, CHR 0x8A], [CHR 0xE2, CHR 0x80, CHR 0xA8],
      [CHR 0xE2, CHR 0x80, CHR 0xA9], [CHR 0xE2, CHR 0x80, CHR 0xAF],
      [CHR 0xE2, CHR 0x81, CHR 0x9F], [CHR 0xE3, CHR 0x80, CHR 0x80]]"

function strip_any :: "string list \<Rightarrow> string \<Rightarrow> string" where
  "strip_any ps s =
     (case find (\<lambda>p. p \<noteq> [] \<and> prefix p s) ps of
        None \<Rightarrow> s
      | Some p \<Rightarrow> strip_any ps (drop (length p) s))"
  by pat_completeness auto
termination
  by (relation "measure (\<lambda>(ps, s). length s)")
    (auto simp: find_Some_iff prefix_def)

declare strip_any.simps [simp del]

definition trim_space :: "string \<Rightarrow> string" where
  "trim_space s = rev (strip_any (map rev space_runes) (rev (strip_any space_runes s)))"

definition contains :: "string \<Rightarrow> string \<Rightarrow> bool" where
  "contains s sub \<longleftrightarrow> sublist sub s"

fun join :: "string \<Rightarrow> string list \<Rightarrow> string" where
  "join sep [] = []"
| "join sep [x] = x"
| "join sep (x # y # xs) = x @ sep @ join sep (y # xs)"

section \<open>Decimal numbers\<close>

definition digit_char :: "nat \<Rightarrow> char" where
  "digit_char d = char_of (48 + d)"

definition digit_val :: "char \<Rightarrow> nat" where
  "digit_val c = of_char c - 48"

fun string_of_nat :: "nat \<Rightarrow> string" where
  "string_of_nat n =
     (if n < 10 then [digit_char n] else string_of_nat (n div 10) @ [digit_char (n mod 10)])"

declare string_of_nat.simps [simp del]

text \<open>\<open>strconv.Itoa\<close> and the verb \<open>%d\<close> of \<open>fmt\<close>.\<close>

definition itoa :: "int \<Rightarrow> string" where
  "itoa i = (if i < 0 then ''-'' @ string_of_nat (nat (- i)) else string_of_nat (nat i))"

definition nat_of_digits :: "string \<Rightarrow> nat" where
  "nat_of_digits s = foldl (\<lambda>acc c. 10 * acc + digit_val c) 0 s"

text \<open>
  \<open>strconv.ParseInt(s, 10, 64)\<close> (and \<open>strconv.Atoi\<close> on the 64-bit targets of the add-on):
  an optional sign, at least one digit, and a value that fits.
\<close>

definition split_sign :: "string \<Rightarrow> bool \<times> string" where
  "split_sign s =
     (case s of
        [] \<Rightarrow> (False, s)
      | c # cs \<Rightarrow> if c = CHR ''+'' then (False, cs) else if c = CHR ''-'' then (True, cs) else (False, s))"

definition parse_int64 :: "string \<Rightarrow> int option" where
  "parse_int64 s =
     (case split_sign s of (neg, ds) \<Rightarrow>
        if ds = [] \<or> \<not> list_all is_digit ds then None
        else let v = (if neg then - int (nat_of_digits ds) else int (nat_of_digits ds))
             in if - (2 ^ 63) \<le> v \<and> v < 2 ^ 63 then Some v else None)"

section \<open>UTF-8\<close>

text \<open>
  \<open>rune_size s\<close> is the number of bytes that \<open>utf8.DecodeRune\<close> consumes at the head of a
  non-empty \<open>s\<close>, paired with whether they encode a rune; an invalid byte consumes one byte
  and stands for U+FFFD.  The accepted second-byte ranges are those of the UTF-8 standard
  (no overlong forms, no surrogates, nothing above U+10FFFF).
\<close>

definition in_range :: "char \<Rightarrow> nat \<Rightarrow> nat \<Rightarrow> bool" where
  "in_range c lo hi \<longleftrightarrow> lo \<le> of_char c \<and> of_char c \<le> hi"

definition cont_bytes :: "nat \<Rightarrow> nat \<Rightarrow> nat \<Rightarrow> string \<Rightarrow> bool" where
  "cont_bytes n lo hi s \<longleftrightarrow>
     (case s of
        [] \<Rightarrow> False
      | c # cs \<Rightarrow> in_range c lo hi \<and> length cs \<ge> n - 1
                    \<and> list_all (\<lambda>d. in_range d 0x80 0xBF) (take (n - 1) cs))"

definition rune_size :: "string \<Rightarrow> nat \<times> bool" where
  "rune_size s =
     (case s of
        [] \<Rightarrow> (0, False)
      | c # cs \<Rightarrow>
          let b = (of_char c :: nat) in
          if b < 0x80 then (1, True)
          else if 0xC2 \<le> b \<and> b \<le> 0xDF \<and> cont_bytes 1 0x80 0xBF cs then (2, True)
          else if b = 0xE0 \<and> cont_bytes 2 0xA0 0xBF cs then (3, True)
          else if (0xE1 \<le> b \<and> b \<le> 0xEC \<or> b = 0xEE \<or> b = 0xEF) \<and> cont_bytes 2 0x80 0xBF cs then (3, True)
          else if b = 0xED \<and> cont_bytes 2 0x80 0x9F cs then (3, True)
          else if b = 0xF0 \<and> cont_bytes 3 0x90 0xBF cs then (4, True)
          else if 0xF1 \<le> b \<and> b \<le> 0xF3 \<and> cont_bytes 3 0x80 0xBF cs then (4, True)
          else if b = 0xF4 \<and> cont_bytes 3 0x80 0x8F cs then (4, True)
          else (1, False))"

lemma rune_size_pos: "s \<noteq> [] \<Longrightarrow> 0 < fst (rune_size s)"
  by (cases s) (simp_all add: rune_size_def Let_def)

text \<open>\<open>len([]rune(s))\<close>: the number of runes, each invalid byte counting as one.\<close>

function rune_count :: "string \<Rightarrow> nat" where
  "rune_count s = (if s = [] then 0 else Suc (rune_count (drop (fst (rune_size s)) s)))"
  by pat_completeness auto
termination
  using rune_size_pos by (relation "measure length") auto

declare rune_count.simps [simp del]

section \<open>Time\<close>

text \<open>
  A \<open>time.Time\<close> is its instant, in nanoseconds since the Unix epoch; the zero value of the
  type is 1 January of year 1, which \<open>IsZero\<close> recognises.
\<close>

type_synonym gotime = int

definition zero_time :: gotime where
  "zero_time = - 62135596800 * 1000000000"

definition unix_milli :: "gotime \<Rightarrow> int" where
  "unix_milli t = t div 1000000"

definition of_unix_milli :: "int \<Rightarrow> gotime" where
  "of_unix_milli m = m * 1000000"

section \<open>Lemmas on strings\<close>

lemma strip_any_suffix: "suffix (strip_any ps s) s"
proof (induction ps s rule: strip_any.induct)
  case (1 ps s)
  then show ?case
    by (subst strip_any.simps) (auto split: option.splits intro: suffix_order.trans suffix_drop)
qed

lemma strip_any_no_prefix: "p \<in> set ps \<Longrightarrow> p \<noteq> [] \<Longrightarrow> \<not> prefix p (strip_any ps s)"
proof (induction ps s rule: strip_any.induct)
  case (1 ps s)
  then show ?case
    by (subst strip_any.simps) (auto split: option.splits simp: find_None_iff)
qed

lemma strip_any_id: "(\<And>p. p \<in> set ps \<Longrightarrow> p \<noteq> [] \<Longrightarrow> \<not> prefix p s) \<Longrightarrow> strip_any ps s = s"
  by (subst strip_any.simps) (auto split: option.splits simp: find_Some_iff dest: nth_mem)

lemma strip_any_Nil [simp]: "strip_any ps [] = []"
  by (rule strip_any_id) auto

lemma strip_any_idem: "strip_any ps (strip_any ps s) = strip_any ps s"
  by (rule strip_any_id) (rule strip_any_no_prefix)

lemma set_trim_space: "set (trim_space s) \<subseteq> set s"
proof -
  have "set (strip_any (map rev space_runes) (rev t)) \<subseteq> set t" for t
    using set_mono_suffix [OF strip_any_suffix, of "map rev space_runes" "rev t"] by simp
  moreover have "set (strip_any space_runes s) \<subseteq> set s"
    by (rule set_mono_suffix [OF strip_any_suffix])
  ultimately show ?thesis unfolding trim_space_def by fastforce
qed

lemma trim_space_no_prefix:
  assumes "p \<in> set space_runes"
  shows "\<not> prefix p (trim_space s)"
proof
  assume p: "prefix p (trim_space s)"
  have ne: "p \<noteq> []" using assms by (auto simp: space_runes_def)
  have "prefix (trim_space s) (strip_any space_runes s)"
    unfolding trim_space_def by (metis rev_rev_ident strip_any_suffix suffix_to_prefix)
  with p have "prefix p (strip_any space_runes s)" by (rule prefix_order.trans)
  with strip_any_no_prefix [OF assms ne] show False by blast
qed

lemma trim_space_no_suffix: "p \<in> set space_runes \<Longrightarrow> \<not> suffix p (trim_space s)"
  using strip_any_no_prefix [of "rev p" "map rev space_runes"]
  by (auto simp: trim_space_def suffix_to_prefix space_runes_def)

lemma trim_space_id:
  assumes "\<And>p. p \<in> set space_runes \<Longrightarrow> \<not> prefix p s \<and> \<not> suffix p s"
  shows "trim_space s = s"
proof -
  have "strip_any space_runes s = s" by (rule strip_any_id) (use assms in auto)
  moreover have "strip_any (map rev space_runes) (rev s) = rev s"
    by (rule strip_any_id) (use assms in \<open>auto simp: suffix_to_prefix\<close>)
  ultimately show ?thesis by (simp add: trim_space_def)
qed

lemma trim_space_idem [simp]: "trim_space (trim_space s) = trim_space s"
  by (rule trim_space_id) (simp add: trim_space_no_prefix trim_space_no_suffix)

lemma is_hex_lower [simp]: "is_hex c \<Longrightarrow> lower_char c = c"
  by (auto simp: is_hex_def is_digit_def lower_char_def less_eq_char_def)

lemma to_lower_hex: "list_all is_hex s \<Longrightarrow> to_lower s = s"
  by (induction s) (simp_all add: to_lower_def)

section \<open>Lemmas on association lists\<close>

lemma update_fst_set: "fst ` set (AList.update k v xs) = insert k (fst ` set xs)"
  by (induction xs) auto

lemma distinct_map_update:
  "distinct (map fst xs) \<Longrightarrow> distinct (map fst (AList.update k v xs))"
  by (rule distinct_update)

lemma set_updateD:
  assumes "distinct (map fst xs)" "(k', a) \<in> set (AList.update k v xs)"
  shows "k' = k \<and> a = v \<or> k' \<noteq> k \<and> (k', a) \<in> set xs"
  using assms by (induction xs) (auto split: if_splits simp: rev_image_eqI)

end
