(* ===== verification/Mac.thy ===== *)
theory Mac
  imports Prelude
begin

text \<open>
  Package \<open>internal/mac\<close>: normalisation of MAC addresses, the only identity the add-on
  uses.  The lemmas show that \<open>Normalize\<close> returns either the empty string or the canonical
  colon form, that it is the identity on canonical addresses, and that the compact form used
  in topics loses nothing.
\<close>

section \<open>Definitions\<close>

text \<open>The loop \<open>for i := 0; i < 12; i += 2\<close> that cuts the twelve digits into pairs.\<close>

function mac_parts :: "nat \<Rightarrow> string \<Rightarrow> string list" where
  "mac_parts i compact =
     (if i < 12 then take 2 (drop i compact) # mac_parts (i + 2) compact else [])"
  by pat_completeness auto
termination
  by (relation "measure (\<lambda>(i, compact). 12 - i)") auto

declare mac_parts.simps [simp del]

definition hex12 :: "string \<Rightarrow> bool" where
  "hex12 s \<longleftrightarrow> length s = 12 \<and> list_all is_hex s"

definition Normalize :: "string \<Rightarrow> string" where
  "Normalize raw =
     (let compact = filter is_hex (to_lower (trim_space raw)) in
      if \<not> hex12 compact then [] else join '':'' (mac_parts 0 compact))"

definition Compact :: "string \<Rightarrow> string" where
  "Compact normalized = filter (\<lambda>c. c \<noteq> CHR '':'') normalized"

definition AdapterID :: "string \<Rightarrow> string" where
  "AdapterID normalized = ''dt241m_'' @ Compact normalized"

text \<open>
  The canonical form, stated on positions: six pairs of lower-case hexadecimal digits, with a
  colon in every third place.
\<close>

definition canonical_mac :: "string \<Rightarrow> bool" where
  "canonical_mac m \<longleftrightarrow>
     length m = 17 \<and> (\<forall>i<17. if i mod 3 = 2 then m ! i = CHR '':'' else is_hex (m ! i))"

section \<open>Lemmas\<close>

lemma hex12E:
  assumes "hex12 s"
  obtains a b c d e f g h i j k l where
    "s = [a, b, c, d, e, f, g, h, i, j, k, l]"
    "list_all is_hex [a, b, c, d, e, f, g, h, i, j, k, l]"
proof -
  from assms have "length s = Suc (Suc (Suc (Suc (Suc (Suc (Suc (Suc (Suc (Suc (Suc (Suc 0)))))))))))"
    and hex: "list_all is_hex s"
    by (simp_all add: hex12_def)
  then show thesis by (auto simp: length_Suc_conv intro: that)
qed

lemma colonise:
  "join '':'' (mac_parts 0 [a, b, c, d, e, f, g, h, i, j, k, l]) =
     [a, b, CHR '':'', c, d, CHR '':'', e, f, CHR '':'', g, h, CHR '':'', i, j, CHR '':'', k, l]"
  by (simp add: mac_parts.simps)

lemma all_less_17:
  "(\<forall>i<17. P i) \<longleftrightarrow>
     P 16 \<and> P 15 \<and> P 14 \<and> P 13 \<and> P 12 \<and> P 11 \<and> P 10 \<and> P 9 \<and> P 8 \<and> P 7 \<and> P 6
     \<and> P 5 \<and> P 4 \<and> P 3 \<and> P 2 \<and> P 1 \<and> P (0::nat)"
  by (simp add: numeral_eq_Suc All_less_Suc)

lemma canonical_mac_shape:
  "canonical_mac
     [a, b, CHR '':'', c, d, CHR '':'', e, f, CHR '':'', g, h, CHR '':'', i, j, CHR '':'', k, l]
   \<longleftrightarrow> list_all is_hex [a, b, c, d, e, f, g, h, i, j, k, l]"
  by (auto simp: canonical_mac_def all_less_17)

lemma canonical_macE:
  assumes "canonical_mac m"
  obtains a b c d e f g h i j k l where
    "m = [a, b, CHR '':'', c, d, CHR '':'', e, f, CHR '':'', g, h, CHR '':'', i, j, CHR '':'', k, l]"
    "list_all is_hex [a, b, c, d, e, f, g, h, i, j, k, l]"
proof -
  from assms have "length m = Suc (Suc (Suc (Suc (Suc (Suc (Suc (Suc (Suc (Suc (Suc (Suc
      (Suc (Suc (Suc (Suc (Suc 0))))))))))))))))"
    by (simp add: canonical_mac_def)
  then obtain x0 x1 x2 x3 x4 x5 x6 x7 x8 x9 x10 x11 x12 x13 x14 x15 x16 where
    m: "m = [x0, x1, x2, x3, x4, x5, x6, x7, x8, x9, x10, x11, x12, x13, x14, x15, x16]"
    by (auto simp: length_Suc_conv)
  with assms show thesis
    by (intro that [of x0 x1 x3 x4 x6 x7 x9 x10 x12 x13 x15 x16])
      (simp_all add: canonical_mac_def all_less_17)
qed

lemma colon_not_hex [simp]: "\<not> is_hex CHR '':''"
  by code_simp

lemma hex_not_colon [simp]: "is_hex c \<Longrightarrow> c \<noteq> CHR '':''"
  by auto

lemma hex_not_space:
  assumes "p \<in> set space_runes"
  shows "\<exists>c. c \<in> set p \<and> \<not> is_hex c \<and> c \<noteq> CHR '':''"
proof -
  have "list_all (\<lambda>p. list_ex (\<lambda>c. \<not> is_hex c \<and> c \<noteq> CHR '':'') p) space_runes"
    by code_simp
  with assms show ?thesis by (auto simp: list_all_iff list_ex_iff)
qed

lemma trim_space_hex_text:
  assumes "\<And>c. c \<in> set s \<Longrightarrow> is_hex c \<or> c = CHR '':''"
  shows "trim_space s = s"
proof (rule trim_space_id)
  fix p assume "p \<in> set space_runes"
  then obtain c where "c \<in> set p" "\<not> is_hex c" "c \<noteq> CHR '':''"
    using hex_not_space by blast
  with assms show "\<not> prefix p s \<and> \<not> suffix p s"
    by (auto dest: set_mono_prefix set_mono_suffix)
qed

lemma Normalize_hex12: "hex12 s \<Longrightarrow> Normalize s = join '':'' (mac_parts 0 s)"
proof -
  assume s: "hex12 s"
  then have all: "list_all is_hex s" by (simp add: hex12_def)
  then have "trim_space s = s" by (intro trim_space_hex_text) (auto simp: list_all_iff)
  moreover from all have "filter is_hex s = s" by (simp add: filter_id_conv list_all_iff)
  ultimately show ?thesis using s all by (simp add: Normalize_def to_lower_hex)
qed

lemma lower_colon: "lower_char CHR '':'' = CHR '':''"
  by code_simp

lemma Normalize_canonical_id: "canonical_mac m \<Longrightarrow> Normalize m = m"
proof -
  assume "canonical_mac m"
  then obtain a b c d e f g h i j k l where
    m: "m = [a, b, CHR '':'', c, d, CHR '':'', e, f, CHR '':'', g, h, CHR '':'', i, j, CHR '':'', k, l]"
    and hex: "list_all is_hex [a, b, c, d, e, f, g, h, i, j, k, l]"
    by (rule canonical_macE)
  have "trim_space m = m" by (rule trim_space_hex_text) (use m hex in auto)
  then show ?thesis using m hex
    by (simp add: Normalize_def to_lower_def lower_colon hex12_def colonise)
qed

lemma Compact_hex12: "canonical_mac m \<Longrightarrow> hex12 (Compact m)"
  by (erule canonical_macE) (simp add: Compact_def hex12_def)

lemma Normalize_Compact: "canonical_mac m \<Longrightarrow> Normalize (Compact m) = m"
  by (frule Compact_hex12, drule Normalize_hex12, erule canonical_macE)
    (simp add: Compact_def colonise)

lemma Normalize_cases: "Normalize raw = [] \<or> canonical_mac (Normalize raw)"
proof (cases "hex12 (filter is_hex (to_lower (trim_space raw)))")
  case True
  then show ?thesis
    by (auto simp: Normalize_def colonise canonical_mac_shape elim: hex12E)
next
  case False
  then show ?thesis by (simp add: Normalize_def)
qed

lemma canonical_mac_not_Nil [simp]: "\<not> canonical_mac []"
  by (simp add: canonical_mac_def)

lemma Normalize_canonical: "Normalize raw \<noteq> [] \<Longrightarrow> canonical_mac (Normalize raw)"
  using Normalize_cases by blast

lemma Compact_inj: "canonical_mac m \<Longrightarrow> canonical_mac n \<Longrightarrow> Compact m = Compact n \<Longrightarrow> m = n"
  by (metis Normalize_Compact)

lemma AdapterID_inj: "canonical_mac m \<Longrightarrow> canonical_mac n \<Longrightarrow> AdapterID m = AdapterID n \<Longrightarrow> m = n"
  by (simp add: AdapterID_def Compact_inj)

lemma Compact_Normalize: "Normalize raw \<noteq> [] \<Longrightarrow> Compact (Normalize raw) = filter is_hex (to_lower (trim_space raw))"
  by (auto simp: Normalize_def Let_def colonise Compact_def elim: hex12E split: if_splits)

section \<open>Properties\<close>

text \<open>C38: \<open>Normalize\<close> returns the empty string exactly when the input does not hold twelve
  hexadecimal digits.  Otherwise it returns the canonical MAC address with just these digits, in lower
  case and in their order; so two texts get the same identity exactly when they have the same digits.
  And it is idempotent.\<close>

theorem Normalize_correct:
  "(Normalize raw = [] \<or> canonical_mac (Normalize raw) \<and> Compact (Normalize raw) = filter is_hex (to_lower (trim_space raw)))
   \<and> (Normalize raw = [] \<longleftrightarrow> length (filter is_hex (to_lower (trim_space raw))) \<noteq> 12)
   \<and> (Normalize raw \<noteq> [] \<longrightarrow> (Normalize raw = Normalize other \<longleftrightarrow>
        filter is_hex (to_lower (trim_space raw)) = filter is_hex (to_lower (trim_space other))))
   \<and> Normalize (Normalize raw) = Normalize raw"
proof -
  let ?digits = "\<lambda>raw. filter is_hex (to_lower (trim_space raw))"
  have empty: "Normalize raw = [] \<longleftrightarrow> length (?digits raw) \<noteq> 12" for raw
  proof (cases "hex12 (?digits raw)")
    case True
    then show ?thesis by (auto simp: Normalize_def colonise elim: hex12E)
  next
    case False
    then show ?thesis by (auto simp: Normalize_def hex12_def list_all_iff)
  qed
  have same: "Normalize raw = Normalize other \<longleftrightarrow> ?digits raw = ?digits other" if "Normalize raw \<noteq> []"
    using that Compact_Normalize [of raw] Compact_Normalize [of other] by (metis Normalize_def)
  have "Normalize [] = []" by (simp add: Normalize_def trim_space_def to_lower_def hex12_def)
  then have "Normalize (Normalize raw) = Normalize raw"
    using Normalize_cases [of raw] Normalize_canonical_id by metis
  with empty same Normalize_cases Compact_Normalize show ?thesis by blast
qed

text \<open>Capitals, dashes and blanks do not matter, and another digit does.\<close>

theorem Normalize_correct_witness:
  "Normalize '' FC-19-28-6C-D6-D8 '' = ''fc:19:28:6c:d6:d8'' \<and> Normalize ''fc19286cd6d8'' = ''fc:19:28:6c:d6:d8''
   \<and> Normalize ''fc19286cd6d9'' \<noteq> ''fc:19:28:6c:d6:d8''"
proof -
  have n: "Normalize '' FC-19-28-6C-D6-D8 '' = ''fc:19:28:6c:d6:d8''" by code_simp
  let ?digits = "\<lambda>raw. filter is_hex (to_lower (trim_space raw))"
  have "?digits '' FC-19-28-6C-D6-D8 '' = ?digits ''fc19286cd6d8''" "?digits '' FC-19-28-6C-D6-D8 '' \<noteq> ?digits ''fc19286cd6d9''"
    by code_simp+
  then have "Normalize ''fc19286cd6d8'' = Normalize '' FC-19-28-6C-D6-D8 ''" "Normalize ''fc19286cd6d9'' \<noteq> Normalize '' FC-19-28-6C-D6-D8 ''"
    using Normalize_correct [of "'' FC-19-28-6C-D6-D8 ''" "''fc19286cd6d8''"]
      Normalize_correct [of "'' FC-19-28-6C-D6-D8 ''" "''fc19286cd6d9''"] n by (metis list.distinct(1))+
  then show ?thesis using n by simp
qed

end
