(* ===== verification/Json.thy ===== *)
theory Json
  imports Prelude
begin

text \<open>
  The part of Go's \<open>encoding/json\<close> that the program relies on: the value tree, how object
  members are matched with struct fields and map keys when a value is decoded, and the
  rendering of values by \<open>json.Marshal\<close>.
\<close>

section \<open>Values\<close>

text \<open>A number keeps its literal text, as \<open>json.Number\<close> and \<open>json.RawMessage\<close> do.\<close>

datatype json =
    JNull
  | JBool bool
  | JNum string
  | JStr string
  | JArr "json list"
  | JObj "(string \<times> json) list"

abbreviation jint :: "int \<Rightarrow> json" where
  "jint i \<equiv> JNum (itoa i)"

text \<open>
  Decoding an object into \<open>map[string]T\<close> stores the members in order, so the last member
  with a key wins.
\<close>

definition decode_map :: "(string \<times> json) list \<Rightarrow> (string \<times> json) list" where
  "decode_map ms = fold (\<lambda>(k, v). AList.update k v) ms []"

text \<open>
  Decoding an object into a struct matches a member with a field by its exact name, or else
  by its folded name: ASCII letters without case, and the two runes that fold to an ASCII
  letter (U+017F to \<open>S\<close>, U+212A to \<open>K\<close>).
\<close>

definition upper_char :: "char \<Rightarrow> char" where
  "upper_char c = (if CHR ''a'' \<le> c \<and> c \<le> CHR ''z'' then char_of (of_char c - 32 :: nat) else c)"

function fold_name :: "string \<Rightarrow> string" where
  "fold_name s =
     (if s = [] then []
      else if prefix [CHR 0xC5, CHR 0xBF] s then CHR ''S'' # fold_name (drop 2 s)
      else if prefix [CHR 0xE2, CHR 0x84, CHR 0xAA] s then CHR ''K'' # fold_name (drop 3 s)
      else upper_char (hd s) # fold_name (tl s))"
  by pat_completeness auto
termination
  by (relation "measure length") auto

declare fold_name.simps [simp del]

definition match_field :: "string list \<Rightarrow> string \<Rightarrow> string option" where
  "match_field fields key =
     (if key \<in> set fields then Some key else find (\<lambda>f. fold_name f = fold_name key) fields)"

text \<open>The grammar of JSON number literals, which a string must match to become a \<open>json.Number\<close>.\<close>

definition drop_digits :: "string \<Rightarrow> string" where
  "drop_digits s = dropWhile is_digit s"

definition valid_exponent :: "string \<Rightarrow> bool" where
  "valid_exponent s \<longleftrightarrow>
     (case s of
        [] \<Rightarrow> True
      | c # cs \<Rightarrow> c \<in> {CHR ''e'', CHR ''E''} \<and>
           (let ds = snd (split_sign cs) in ds \<noteq> [] \<and> list_all is_digit ds))"

definition valid_fraction :: "string \<Rightarrow> bool" where
  "valid_fraction s \<longleftrightarrow>
     (case s of
        [] \<Rightarrow> True
      | c # cs \<Rightarrow>
          if c = CHR ''.'' then cs \<noteq> [] \<and> is_digit (hd cs) \<and> valid_exponent (drop_digits cs)
          else valid_exponent s)"

definition valid_number :: "string \<Rightarrow> bool" where
  "valid_number s \<longleftrightarrow>
     (let t = (if s \<noteq> [] \<and> hd s = CHR ''-'' then tl s else s) in
      case t of
        [] \<Rightarrow> False
      | c # cs \<Rightarrow>
          if c = CHR ''0'' then valid_fraction cs
          else is_digit c \<and> valid_fraction (drop_digits cs))"

section \<open>Rendering\<close>

definition hex_digit :: "nat \<Rightarrow> char" where
  "hex_digit n = (if n < 10 then char_of (48 + n) else char_of (87 + n))"

text \<open>One rune of a quoted string: the rune's bytes are \<open>r\<close>, \<open>ok\<close> says they are valid UTF-8.\<close>

definition escape_rune :: "string \<Rightarrow> bool \<Rightarrow> string" where
  "escape_rune r ok =
     (if \<not> ok then CHR 0x5C # ''ufffd''
      else if r = [CHR 0x22] then [CHR 0x5C, CHR 0x22]
      else if r = [CHR 0x5C] then [CHR 0x5C, CHR 0x5C]
      else if r = [CHR 0x08] then CHR 0x5C # ''b''
      else if r = [CHR 0x0C] then CHR 0x5C # ''f''
      else if r = [CHR 0x0A] then CHR 0x5C # ''n''
      else if r = [CHR 0x0D] then CHR 0x5C # ''r''
      else if r = [CHR 0x09] then CHR 0x5C # ''t''
      else if r = [CHR 0xE2, CHR 0x80, CHR 0xA8] then CHR 0x5C # ''u2028''
      else if r = [CHR 0xE2, CHR 0x80, CHR 0xA9] then CHR 0x5C # ''u2029''
      else case r of
          [c] \<Rightarrow> if c < CHR 0x20 \<or> c \<in> {CHR ''<'', CHR ''>'', CHR ''&''}
                 then CHR 0x5C # ''u00'' @ [hex_digit (of_char c div 16), hex_digit (of_char c mod 16)]
                 else r
        | _ \<Rightarrow> r)"

function escape_string :: "string \<Rightarrow> string" where
  "escape_string s =
     (if s = [] then []
      else let (n, ok) = rune_size s in escape_rune (take n s) ok @ escape_string (drop n s))"
  by pat_completeness auto
termination
proof (relation "measure length")
  fix s x n ok
  assume "s \<noteq> []" "x = rune_size s" "(n, ok) = x"
  then have "0 < n" using rune_size_pos [of s] by (metis fst_conv)
  with \<open>s \<noteq> []\<close> show "(drop n s, s) \<in> measure length" by simp
qed simp

declare escape_string.simps [simp del]

definition quote :: "string \<Rightarrow> string" where
  "quote s = CHR 0x22 # escape_string s @ [CHR 0x22]"

text \<open>
  \<open>json.Marshal\<close>: members are rendered in the order of the list, which for a struct is the
  order of its fields; \<open>map[string]any\<close> values are rendered with their keys sorted
  (\<open>go_map\<close>).
\<close>

fun marshal :: "json \<Rightarrow> string" where
  "marshal JNull = ''null''"
| "marshal (JBool b) = (if b then ''true'' else ''false'')"
| "marshal (JNum t) = t"
| "marshal (JStr s) = quote s"
| "marshal (JArr xs) = ''['' @ join '','' (map marshal xs) @ '']''"
| "marshal (JObj ms) =
     ''{'' @ join '','' (map (\<lambda>m. quote (fst m) @ '':'' @ marshal (snd m)) ms) @ ''}''"

definition go_map :: "(string \<times> json) list \<Rightarrow> json" where
  "go_map ms = JObj (sort_key fst ms)"

section \<open>Lemmas\<close>

lemma decode_map_snoc: "decode_map (ms @ [(k, v)]) = AList.update k v (decode_map ms)"
  by (simp add: decode_map_def)

lemma map_of_decode_map: "map_of (decode_map ms) = map_of (rev ms)"
  by (induction ms rule: rev_induct) (auto simp: decode_map_snoc update_conv', simp add: decode_map_def)

lemma distinct_decode_map: "distinct (map fst (decode_map ms))"
  by (induction ms rule: rev_induct)
    (auto simp: decode_map_snoc intro: distinct_update, simp add: decode_map_def)

end
