(* ===== verification/Device.thy ===== *)
theory Device
  imports Json
begin

text \<open>
  Package \<open>internal/dt241m\<close>, file \<open>dt241m.go\<close>: error codes, the channel range, the
  decoding of \<open>get_device_info_proav\<close> results and the classification of units.
\<close>

section \<open>Errors\<close>

datatype code =
    CodeInput
  | CodeHTTPStatus
  | CodeInvalidJSON
  | CodeEnvelope
  | CodeRPCError
  | CodeResultShape
  | CodeTimeout
  | CodeCanceled
  | CodeTransport
  | CodeNotAccepted

fun code_string :: "code \<Rightarrow> string" where
  "code_string CodeInput = ''INPUT''"
| "code_string CodeHTTPStatus = ''HTTP_STATUS''"
| "code_string CodeInvalidJSON = ''INVALID_JSON''"
| "code_string CodeEnvelope = ''ENVELOPE''"
| "code_string CodeRPCError = ''RPC_ERROR''"
| "code_string CodeResultShape = ''RESULT_SHAPE''"
| "code_string CodeTimeout = ''TIMEOUT''"
| "code_string CodeCanceled = ''CANCELED''"
| "code_string CodeTransport = ''TRANSPORT''"
| "code_string CodeNotAccepted = ''NOT_ACCEPTED''"

text \<open>
  The error values the program tells apart: its own \<open>*dt241m.Error\<close>, the two sentinels of
  package \<open>context\<close>, and any other error with its text and the error it wraps.
\<close>

datatype go_error =
    DeviceError code string "go_error option"
  | DeadlineExceeded
  | Canceled
  | OtherError string "go_error option"

text \<open>Method \<open>Error\<close>.\<close>

fun error_text :: "go_error \<Rightarrow> string" where
  "error_text (DeviceError c msg (Some e)) = code_string c @ '': '' @ msg @ '': '' @ error_text e"
| "error_text (DeviceError c msg None) = code_string c @ '': '' @ msg"
| "error_text DeadlineExceeded = ''context deadline exceeded''"
| "error_text Canceled = ''context canceled''"
| "error_text (OtherError t _) = t"

text \<open>Method \<open>Unwrap\<close>, and the chain that \<open>errors.Is\<close> and \<open>errors.As\<close> walk.\<close>

fun unwrap :: "go_error \<Rightarrow> go_error option" where
  "unwrap (DeviceError c msg e) = e"
| "unwrap (OtherError t e) = e"
| "unwrap _ = None"

fun error_chain :: "go_error \<Rightarrow> go_error list" where
  "error_chain (DeviceError c msg (Some e)) = DeviceError c msg (Some e) # error_chain e"
| "error_chain (OtherError t (Some e)) = OtherError t (Some e) # error_chain e"
| "error_chain e = [e]"

definition errors_is :: "go_error \<Rightarrow> go_error \<Rightarrow> bool" where
  "errors_is err target \<longleftrightarrow> target \<in> set (error_chain err)"

fun device_error_code :: "go_error \<Rightarrow> code option" where
  "device_error_code (DeviceError c msg e) = Some c"
| "device_error_code _ = None"

definition newError :: "code \<Rightarrow> string \<Rightarrow> go_error option \<Rightarrow> go_error" where
  "newError c msg cause = DeviceError c msg cause"

definition IsCode :: "go_error \<Rightarrow> code \<Rightarrow> bool" where
  "IsCode err c \<longleftrightarrow>
     (case List.find (\<lambda>e. device_error_code e \<noteq> None) (error_chain err) of
        None \<Rightarrow> False
      | Some e \<Rightarrow> device_error_code e = Some c)"

section \<open>Channels and roles\<close>

definition MinChannel :: int where "MinChannel = 0"

definition MaxChannel :: int where "MaxChannel = 255"

definition ValidChannel :: "int \<Rightarrow> bool" where
  "ValidChannel channel \<longleftrightarrow> channel \<ge> MinChannel \<and> channel \<le> MaxChannel"

text \<open>\<open>Role\<close> is a string type in the source; values read back from the database are not checked.\<close>

type_synonym role = string

definition RoleTransmitter :: role where "RoleTransmitter = ''transmitter''"

definition RoleReceiver :: role where "RoleReceiver = ''receiver''"

definition RoleUnknown :: role where "RoleUnknown = ''unknown''"

section \<open>Device information\<close>

record capability =
  cap_Enable :: "bool option"
  cap_Range :: string

record device_info =
  di_DevName :: string
  di_ProductName :: string
  di_Model :: string
  di_Version :: string
  di_LanMAC :: string
  di_ChannelID :: int
  di_Capability :: "(string \<times> capability) list"
  di_Raw :: "(string \<times> json) list"

definition optionalString :: "(string \<times> json) list \<Rightarrow> string \<Rightarrow> string" where
  "optionalString raw key = (case map_of raw key of Some (JStr s) \<Rightarrow> s | _ \<Rightarrow> [])"

text \<open>
  Decoding one capability.  A field of the wrong type is skipped: the decoder goes on and
  the error it returns in the end is ignored by the caller; the pointer of \<open>Enable\<close> is
  allocated before the mismatch is noticed.
\<close>

definition decode_capability_field :: "string \<times> json \<Rightarrow> capability \<Rightarrow> capability" where
  "decode_capability_field m c =
     (case match_field [''enable'', ''range''] (fst m) of
        None \<Rightarrow> c
      | Some f \<Rightarrow>
          if f = ''enable'' then
            (case snd m of
               JBool b \<Rightarrow> c\<lparr>cap_Enable := Some b\<rparr>
             | JNull \<Rightarrow> c\<lparr>cap_Enable := None\<rparr>
             | _ \<Rightarrow> c\<lparr>cap_Enable := Some (cap_Enable c = Some True)\<rparr>)
          else
            (case snd m of
               JStr s \<Rightarrow> c\<lparr>cap_Range := s\<rparr>
             | _ \<Rightarrow> c))"

definition decode_capability :: "json \<Rightarrow> capability" where
  "decode_capability j =
     (let zero = \<lparr>cap_Enable = None, cap_Range = []\<rparr> in
      case j of JObj ms \<Rightarrow> fold decode_capability_field ms zero | _ \<Rightarrow> zero)"

definition decode_capabilities :: "json option \<Rightarrow> (string \<times> capability) list" where
  "decode_capabilities j =
     (case j of
        Some (JObj ms) \<Rightarrow> fold (\<lambda>(k, v). AList.update k (decode_capability v)) ms []
      | _ \<Rightarrow> [])"

text \<open>\<open>DeviceInfo.UnmarshalJSON\<close>; the error branches in the order of the source.\<close>

datatype info_error =
    NotAnObject
  | MacMissing
  | ChannelMissing
  | ChannelNotANumber
  | ChannelOutOfRange

definition decode_channel :: "json \<Rightarrow> info_error + int" where
  "decode_channel j =
     (let literal = (case j of JNum t \<Rightarrow> Some t | JNull \<Rightarrow> Some [] | _ \<Rightarrow> None) in
      case literal of
        None \<Rightarrow> Inl ChannelNotANumber
      | Some t \<Rightarrow>
          (case parse_int64 t of
             None \<Rightarrow> Inl ChannelOutOfRange
           | Some c \<Rightarrow> if ValidChannel c then Inr c else Inl ChannelOutOfRange))"

definition UnmarshalJSON :: "json \<Rightarrow> info_error + device_info" where
  "UnmarshalJSON data =
     (case (case data of JObj ms \<Rightarrow> Some (decode_map ms) | JNull \<Rightarrow> Some [] | _ \<Rightarrow> None) of
        None \<Rightarrow> Inl NotAnObject
      | Some raw \<Rightarrow>
          let mac = optionalString raw ''lan_mac_addr'' in
          if mac = [] then Inl MacMissing
          else case map_of raw ''channel_id'' of
            None \<Rightarrow> Inl ChannelMissing
          | Some channelRaw \<Rightarrow>
              (case decode_channel channelRaw of
                 Inl e \<Rightarrow> Inl e
               | Inr channel \<Rightarrow> Inr
                   \<lparr>di_DevName = optionalString raw ''dev_name'',
                    di_ProductName = optionalString raw ''product_name'',
                    di_Model = optionalString raw ''model'',
                    di_Version = optionalString raw ''version'',
                    di_LanMAC = mac,
                    di_ChannelID = channel,
                    di_Capability = decode_capabilities (map_of raw ''capability''),
                    di_Raw = raw\<rparr>))"

definition Classify :: "device_info \<Rightarrow> role" where
  "Classify info =
     (let names = [to_lower (di_ProductName info), to_lower (di_Model info)];
          looksTx = list_ex (\<lambda>s. contains s ''proavtx'') names;
          looksRx = list_ex (\<lambda>s. contains s ''proavrx'') names
      in if looksTx \<and> \<not> looksRx then RoleTransmitter
         else if looksRx \<and> \<not> looksTx then RoleReceiver
         else RoleUnknown)"

section \<open>Lemmas\<close>

lemmas role_defs = RoleTransmitter_def RoleReceiver_def RoleUnknown_def

lemma roles_distinct [simp]:
  "RoleTransmitter \<noteq> RoleReceiver" "RoleReceiver \<noteq> RoleTransmitter"
  "RoleUnknown \<noteq> RoleReceiver" "RoleUnknown \<noteq> RoleTransmitter"
  "RoleReceiver \<noteq> RoleUnknown" "RoleTransmitter \<noteq> RoleUnknown"
  by (simp_all add: role_defs)

lemma ValidChannel_iff: "ValidChannel c \<longleftrightarrow> 0 \<le> c \<and> c \<le> 255"
  by (simp add: ValidChannel_def MinChannel_def MaxChannel_def)

lemma IsCode_DeviceError [simp]: "IsCode (DeviceError c msg e) c' \<longleftrightarrow> c = c'"
  by (cases e) (auto simp: IsCode_def)

lemma optionalString_nonempty:
  "optionalString raw key \<noteq> [] \<Longrightarrow> map_of raw key = Some (JStr (optionalString raw key))"
  by (auto simp: optionalString_def split: option.splits json.splits)

lemma parse_int64_Nil [simp]: "parse_int64 [] = None"
  by (simp add: parse_int64_def split_sign_def)

lemma decode_channel_Inr:
  "decode_channel j = Inr c \<Longrightarrow> \<exists>t. j = JNum t \<and> parse_int64 t = Some c \<and> ValidChannel c"
  by (cases j) (auto simp: decode_channel_def split: option.splits if_splits)

lemma UnmarshalJSON_Inr:
  assumes "UnmarshalJSON (JObj ms) = Inr info"
  shows "di_LanMAC info = optionalString (decode_map ms) ''lan_mac_addr'' \<and> di_LanMAC info \<noteq> []
    \<and> (\<exists>j. map_of (decode_map ms) ''channel_id'' = Some j \<and> decode_channel j = Inr (di_ChannelID info))"
  using assms by (auto simp: UnmarshalJSON_def Let_def split: option.splits sum.splits if_splits)

section \<open>Captured responses\<close>

text \<open>
  The result objects of the captured responses in \<open>fixtures/\<close>, cut to the members the
  program reads, and what they decode to.
\<close>

definition rx_fixture :: json where
  "rx_fixture = JObj
     [(''dev_name'', JStr ''ER02_286CD6D8''), (''product_name'', JStr ''ProAVRx ER01''),
      (''model'', JStr ''am_8270_proavrx-eth_er01-pway-dt241''), (''version'', JStr ''1.13471.133''),
      (''wifi_mac_addr'', JNull), (''lan_mac_addr'', JStr ''FC:19:28:6C:D6:D8''),
      (''channel_id'', JNum ''2''),
      (''capability'', JObj [(''set_channel_id'', JObj [(''enable'', JBool True), (''range'', JStr ''[0,255]'')])])]"

definition rx_info :: device_info where
  "rx_info =
     \<lparr>di_DevName = ''ER02_286CD6D8'', di_ProductName = ''ProAVRx ER01'',
      di_Model = ''am_8270_proavrx-eth_er01-pway-dt241'', di_Version = ''1.13471.133'',
      di_LanMAC = ''FC:19:28:6C:D6:D8'', di_ChannelID = 2,
      di_Capability = [(''set_channel_id'', \<lparr>cap_Enable = Some True, cap_Range = ''[0,255]''\<rparr>)],
      di_Raw =
       [(''dev_name'', JStr ''ER02_286CD6D8''), (''product_name'', JStr ''ProAVRx ER01''),
        (''model'', JStr ''am_8270_proavrx-eth_er01-pway-dt241''), (''version'', JStr ''1.13471.133''),
        (''wifi_mac_addr'', JNull), (''lan_mac_addr'', JStr ''FC:19:28:6C:D6:D8''),
        (''channel_id'', JNum ''2''),
        (''capability'', JObj [(''set_channel_id'', JObj [(''enable'', JBool True), (''range'', JStr ''[0,255]'')])])]\<rparr>"

lemma rx_fixture_decodes: "UnmarshalJSON rx_fixture = Inr rx_info"
  by code_simp

section \<open>Properties\<close>

text \<open>C33: decoded device information always carries a non-empty MAC text and a channel in
  the advertised range, both taken from the last \<open>lan_mac_addr\<close> and \<open>channel_id\<close> members
  of the object, the channel from an integer literal.\<close>

theorem UnmarshalJSON_sound:
  assumes "UnmarshalJSON (JObj ms) = Inr info"
  shows "map_of (rev ms) ''lan_mac_addr'' = Some (JStr (di_LanMAC info))
    \<and> di_LanMAC info \<noteq> []
    \<and> (\<exists>t. map_of (rev ms) ''channel_id'' = Some (JNum t) \<and> parse_int64 t = Some (di_ChannelID info))
    \<and> 0 \<le> di_ChannelID info \<and> di_ChannelID info \<le> 255"
proof -
  from UnmarshalJSON_Inr [OF assms] obtain j where
    mac: "di_LanMAC info = optionalString (decode_map ms) ''lan_mac_addr''" "di_LanMAC info \<noteq> []"
    and j: "map_of (decode_map ms) ''channel_id'' = Some j" "decode_channel j = Inr (di_ChannelID info)"
    by blast
  from decode_channel_Inr [OF j(2)] j(1)
  have "(\<exists>t. map_of (rev ms) ''channel_id'' = Some (JNum t) \<and> parse_int64 t = Some (di_ChannelID info))
      \<and> 0 \<le> di_ChannelID info \<and> di_ChannelID info \<le> 255"
    by (auto simp: ValidChannel_iff map_of_decode_map)
  with mac optionalString_nonempty [of "decode_map ms" "''lan_mac_addr''"] show ?thesis
    by (simp add: map_of_decode_map)
qed

theorem UnmarshalJSON_sound_witness:
  "UnmarshalJSON rx_fixture = Inr rx_info \<and> di_LanMAC rx_info \<noteq> [] \<and> di_ChannelID rx_info \<le> 255"
  using UnmarshalJSON_sound [OF rx_fixture_decodes [unfolded rx_fixture_def]] rx_fixture_decodes
  by blast

end
