(* ===== verification/Registry.thy ===== *)
theory Registry
  imports Mac Device
begin

text \<open>
  Package \<open>internal/registry\<close>, files \<open>adapter.go\<close> and \<open>registry.go\<close>: the adapter
  record, the validation of names, and the in-memory inventory keyed by MAC.  The Go map is an
  association list with distinct keys.  Each exported method runs under the registry's mutex,
  so a concurrent execution is a sequence of these operations (\<open>reg_op\<close>, \<open>run_ops\<close>).

  Ranging over a Go map visits the keys in an unspecified order.  The only place where the
  order could matter is the search for a displaced adapter in \<open>RecordObservation\<close>, so that
  operation takes the visiting order as an argument.  The lemmas show that the inventory is
  well formed after every sequence of operations, that at most one adapter is online at an
  address, and that therefore the visiting order makes no difference.
\<close>

section \<open>Adapters and names (\<open>adapter.go\<close>)\<close>

definition MaxNameLength :: nat where "MaxNameLength = 64"

record adapter =
  ad_MAC :: string
  ad_ID :: string
  ad_Role :: role
  ad_IP :: string
  ad_Name :: "string option"
  ad_ReportedName :: string
  ad_ProductName :: string
  ad_Model :: string
  ad_Firmware :: string
  ad_Channel :: "int option"
  ad_Online :: bool
  ad_FirstSeenAt :: gotime
  ad_LastSeenAt :: gotime

definition DisplayName :: "adapter \<Rightarrow> string" where
  "DisplayName a =
     (case ad_Name a of
        Some n \<Rightarrow> n
      | None \<Rightarrow>
          if ad_ReportedName a \<noteq> [] then ad_ReportedName a
          else if ad_ProductName a \<noteq> [] then ad_ProductName a
          else ad_ID a)"

definition control_char :: "char \<Rightarrow> bool" where
  "control_char c \<longleftrightarrow> c \<le> CHR 0x1F \<or> c = CHR 0x7F"

datatype name_error = NameTooLong | NameControlChars

definition ValidateName :: "string \<Rightarrow> name_error + string option" where
  "ValidateName raw =
     (let trimmed = trim_space raw in
      if trimmed = [] then Inr None
      else if rune_count trimmed > MaxNameLength then Inl NameTooLong
      else if list_ex control_char trimmed then Inl NameControlChars
      else Inr (Some trimmed))"

section \<open>The inventory (\<open>registry.go\<close>)\<close>

record observation =
  ob_Adapter :: adapter
  ob_Created :: bool
  ob_CameOnline :: bool
  ob_StateChanged :: bool
  ob_MetadataChanged :: bool
  ob_RoleChanged :: bool
  ob_PreviousIP :: string
  ob_Displaced :: "adapter option"

definition Changed :: "observation \<Rightarrow> bool" where
  "Changed obs \<longleftrightarrow> ob_Created obs \<or> ob_CameOnline obs \<or> ob_StateChanged obs \<or> ob_MetadataChanged obs"

record counts =
  ct_Known :: nat
  ct_Online :: nat

type_synonym registry = "(string \<times> adapter) list"

definition New :: registry where "New = []"

definition Hydrate :: "adapter list \<Rightarrow> registry \<Rightarrow> registry" where
  "Hydrate adapters r = fold (\<lambda>a. AList.update (ad_MAC a) (a\<lparr>ad_Online := False\<rparr>)) adapters r"

definition Lookup :: "registry \<Rightarrow> string \<Rightarrow> adapter option" where
  "Lookup r macAddr = map_of r macAddr"

definition All :: "registry \<Rightarrow> adapter list" where
  "All r = sort_key ad_MAC (map snd r)"

definition Counts :: "registry \<Rightarrow> counts" where
  "Counts r = \<lparr>ct_Known = length r, ct_Online = length (filter ad_Online (map snd r))\<rparr>"

definition SetName :: "registry \<Rightarrow> string \<Rightarrow> string option \<Rightarrow> registry \<times> adapter option" where
  "SetName r macAddr name =
     (case map_of r macAddr of
        None \<Rightarrow> (r, None)
      | Some a \<Rightarrow> let a' = a\<lparr>ad_Name := name\<rparr> in (AList.update macAddr a' r, Some a'))"

definition MarkOffline :: "registry \<Rightarrow> string \<Rightarrow> registry \<times> adapter option" where
  "MarkOffline r macAddr =
     (case map_of r macAddr of
        None \<Rightarrow> (r, None)
      | Some a \<Rightarrow>
          if \<not> ad_Online a then (r, None)
          else let a' = a\<lparr>ad_Online := False\<rparr> in (AList.update macAddr a' r, Some a'))"

text \<open>The loop over the other adapters, visiting the keys in the given order.\<close>

definition occupies :: "registry \<Rightarrow> string \<Rightarrow> string \<Rightarrow> string \<Rightarrow> bool" where
  "occupies r macAddr ip k \<longleftrightarrow>
     (case map_of r k of
        None \<Rightarrow> False
      | Some other \<Rightarrow> ad_MAC other \<noteq> macAddr \<and> ad_IP other = ip \<and> ad_Online other)"

definition displace :: "string list \<Rightarrow> registry \<Rightarrow> string \<Rightarrow> string \<Rightarrow> registry \<times> adapter option" where
  "displace order r macAddr ip =
     (case List.find (occupies r macAddr ip) order of
        None \<Rightarrow> (r, None)
      | Some k \<Rightarrow>
          (case map_of r k of
             None \<Rightarrow> (r, None)
           | Some other \<Rightarrow> let d = other\<lparr>ad_Online := False\<rparr> in (AList.update k d r, Some d)))"

definition new_adapter :: "string \<Rightarrow> string \<Rightarrow> device_info \<Rightarrow> gotime \<Rightarrow> adapter" where
  "new_adapter macAddr ip info now =
     \<lparr>ad_MAC = macAddr, ad_ID = AdapterID macAddr, ad_Role = Classify info, ad_IP = ip,
      ad_Name = None, ad_ReportedName = di_DevName info, ad_ProductName = di_ProductName info,
      ad_Model = di_Model info, ad_Firmware = di_Version info, ad_Channel = Some (di_ChannelID info),
      ad_Online = True, ad_FirstSeenAt = now, ad_LastSeenAt = now\<rparr>"

definition refreshed_adapter :: "adapter \<Rightarrow> string \<Rightarrow> device_info \<Rightarrow> gotime \<Rightarrow> adapter" where
  "refreshed_adapter existing ip info now =
     existing\<lparr>ad_IP := ip, ad_Role := Classify info, ad_ReportedName := di_DevName info,
       ad_ProductName := di_ProductName info, ad_Model := di_Model info,
       ad_Firmware := di_Version info, ad_Channel := Some (di_ChannelID info),
       ad_Online := True, ad_LastSeenAt := now\<rparr>"

definition RecordObservation ::
  "string list \<Rightarrow> registry \<Rightarrow> string \<Rightarrow> device_info \<Rightarrow> gotime \<Rightarrow> registry \<times> observation option" where
  "RecordObservation order r ip info now =
     (let macAddr = Normalize (di_LanMAC info) in
      if macAddr = [] then (r, None)
      else case displace order r macAddr ip of (r1, displaced) \<Rightarrow>
        (case map_of r1 macAddr of
           None \<Rightarrow>
             let a = new_adapter macAddr ip info now in
             (AList.update macAddr a r1,
              Some \<lparr>ob_Adapter = a, ob_Created = True, ob_CameOnline = True, ob_StateChanged = True,
                    ob_MetadataChanged = True, ob_RoleChanged = False, ob_PreviousIP = [],
                    ob_Displaced = displaced\<rparr>)
         | Some existing \<Rightarrow>
             let roleChanged = (ad_Role existing \<noteq> Classify info);
                 a = refreshed_adapter existing ip info now in
             (AList.update macAddr a r1,
              Some \<lparr>ob_Adapter = a, ob_Created = False,
                    ob_CameOnline = (\<not> ad_Online existing),
                    ob_StateChanged = (ad_IP existing \<noteq> ip \<or> ad_Channel existing \<noteq> Some (di_ChannelID info)),
                    ob_MetadataChanged =
                      (roleChanged \<or> ad_ReportedName existing \<noteq> di_DevName info
                       \<or> ad_ProductName existing \<noteq> di_ProductName info
                       \<or> ad_Model existing \<noteq> di_Model info
                       \<or> ad_Firmware existing \<noteq> di_Version info),
                    ob_RoleChanged = roleChanged,
                    ob_PreviousIP = (if ad_IP existing \<noteq> ip then ad_IP existing else []),
                    ob_Displaced = displaced\<rparr>)))"

text \<open>Sequences of operations, as the mutex orders them.\<close>

datatype reg_op =
    OpHydrate "adapter list"
  | OpSetName string "string option"
  | OpMarkOffline string
  | OpObserve "string list" string device_info gotime

fun apply_op :: "reg_op \<Rightarrow> registry \<Rightarrow> registry" where
  "apply_op (OpHydrate adapters) r = Hydrate adapters r"
| "apply_op (OpSetName macAddr name) r = fst (SetName r macAddr name)"
| "apply_op (OpMarkOffline macAddr) r = fst (MarkOffline r macAddr)"
| "apply_op (OpObserve order ip info now) r = fst (RecordObservation order r ip info now)"

definition run_ops :: "reg_op list \<Rightarrow> registry \<Rightarrow> registry" where
  "run_ops ops r = fold apply_op ops r"

section \<open>Well-formed inventories\<close>

definition adapter_wf :: "adapter \<Rightarrow> bool" where
  "adapter_wf a \<longleftrightarrow> canonical_mac (ad_MAC a) \<and> ad_ID a = AdapterID (ad_MAC a)
     \<and> (case ad_Channel a of None \<Rightarrow> True | Some c \<Rightarrow> ValidChannel c)
     \<and> (ad_Online a \<longrightarrow> ad_Channel a \<noteq> None)"

definition reg_wf :: "registry \<Rightarrow> bool" where
  "reg_wf r \<longleftrightarrow> distinct (map fst r) \<and> (\<forall>(k, a) \<in> set r. ad_MAC a = k \<and> adapter_wf a)"

definition one_online_per_ip :: "registry \<Rightarrow> bool" where
  "one_online_per_ip r \<longleftrightarrow>
     (\<forall>(m, a) \<in> set r. \<forall>(n, b) \<in> set r. ad_Online a \<and> ad_Online b \<and> ad_IP a = ad_IP b \<longrightarrow> m = n)"

text \<open>
  What the callers guarantee for each operation: hydrated adapters were written by the program
  itself, observed channels were range-checked when they were decoded, and the visiting order
  contains every key that the map holds at that moment.
\<close>

fun op_ok :: "registry \<Rightarrow> reg_op \<Rightarrow> bool" where
  "op_ok r (OpHydrate adapters) \<longleftrightarrow> list_all adapter_wf (map (ad_Online_update (\<lambda>_. False)) adapters)"
| "op_ok r (OpObserve order ip info now) \<longleftrightarrow> ValidChannel (di_ChannelID info) \<and> fst ` set r \<subseteq> set order"
| "op_ok r _ \<longleftrightarrow> True"

fun ops_ok :: "registry \<Rightarrow> reg_op list \<Rightarrow> bool" where
  "ops_ok r [] \<longleftrightarrow> True"
| "ops_ok r (op # ops) \<longleftrightarrow> op_ok r op \<and> ops_ok (apply_op op r) ops"

section \<open>Lemmas\<close>

lemma reg_wfD: "reg_wf r \<Longrightarrow> map_of r k = Some a \<Longrightarrow> ad_MAC a = k \<and> adapter_wf a"
  by (auto simp: reg_wf_def dest: map_of_SomeD)

lemma reg_wf_distinct: "reg_wf r \<Longrightarrow> distinct (map fst r)"
  by (simp add: reg_wf_def)

lemma reg_wf_update:
  "reg_wf r \<Longrightarrow> ad_MAC a = k \<Longrightarrow> adapter_wf a \<Longrightarrow> reg_wf (AList.update k a r)"
  by (auto simp: reg_wf_def distinct_update dest: set_updateD)

lemma one_online_map:
  assumes "distinct (map fst r)"
  shows "one_online_per_ip r \<longleftrightarrow>
    (\<forall>m a n b. map_of r m = Some a \<and> map_of r n = Some b \<and> ad_Online a \<and> ad_Online b
       \<and> ad_IP a = ad_IP b \<longrightarrow> m = n)"
  using assms by (fastforce simp: one_online_per_ip_def)

lemma one_online_mono:
  assumes "distinct (map fst r)" "one_online_per_ip r" "distinct (map fst r')"
    and "\<And>m a. map_of r' m = Some a \<Longrightarrow> ad_Online a \<Longrightarrow>
       \<exists>b. map_of r m = Some b \<and> ad_Online b \<and> ad_IP b = ad_IP a"
  shows "one_online_per_ip r'"
  using assms(2) unfolding one_online_map [OF assms(1)] one_online_map [OF assms(3)]
  by (metis assms(4))

lemma adapter_wf_offline: "adapter_wf a \<Longrightarrow> adapter_wf (a\<lparr>ad_Online := False\<rparr>)"
  by (simp add: adapter_wf_def)

lemma adapter_wf_name: "adapter_wf a \<Longrightarrow> adapter_wf (a\<lparr>ad_Name := n\<rparr>)"
  by (simp add: adapter_wf_def)

lemma adapter_wf_new:
  "canonical_mac m \<Longrightarrow> ValidChannel (di_ChannelID info) \<Longrightarrow> adapter_wf (new_adapter m ip info now)"
  by (simp add: adapter_wf_def new_adapter_def)

lemma adapter_wf_refreshed:
  "adapter_wf a \<Longrightarrow> ValidChannel (di_ChannelID info) \<Longrightarrow> adapter_wf (refreshed_adapter a ip info now)"
  by (simp add: adapter_wf_def refreshed_adapter_def)

lemma new_adapter_simps [simp]:
  "ad_MAC (new_adapter m ip info now) = m"
  "ad_IP (new_adapter m ip info now) = ip"
  "ad_Online (new_adapter m ip info now)"
  "ad_Channel (new_adapter m ip info now) = Some (di_ChannelID info)"
  "ad_Role (new_adapter m ip info now) = Classify info"
  "ad_Name (new_adapter m ip info now) = None"
  by (simp_all add: new_adapter_def)

lemma refreshed_adapter_simps [simp]:
  "ad_MAC (refreshed_adapter a ip info now) = ad_MAC a"
  "ad_ID (refreshed_adapter a ip info now) = ad_ID a"
  "ad_IP (refreshed_adapter a ip info now) = ip"
  "ad_Online (refreshed_adapter a ip info now)"
  "ad_Channel (refreshed_adapter a ip info now) = Some (di_ChannelID info)"
  "ad_Role (refreshed_adapter a ip info now) = Classify info"
  "ad_Name (refreshed_adapter a ip info now) = ad_Name a"
  "ad_FirstSeenAt (refreshed_adapter a ip info now) = ad_FirstSeenAt a"
  by (simp_all add: refreshed_adapter_def)

subsection \<open>The displacement loop\<close>

lemma displace_cases:
  assumes "displace order r m ip = (r', d)"
  obtains
    (none) "r' = r" "d = None" "\<And>k. k \<in> set order \<Longrightarrow> \<not> occupies r m ip k"
  | (some) k other where "k \<in> set order" "occupies r m ip k" "map_of r k = Some other"
      "ad_MAC other \<noteq> m" "ad_IP other = ip" "ad_Online other"
      "d = Some (other\<lparr>ad_Online := False\<rparr>)" "r' = AList.update k (other\<lparr>ad_Online := False\<rparr>) r"
proof (cases "List.find (occupies r m ip) order")
  case None
  with assms show thesis by (intro none) (auto simp: displace_def find_None_iff)
next
  case (Some k)
  then have k: "k \<in> set order" "occupies r m ip k"
    by (auto simp: find_Some_iff)
  then obtain other where "map_of r k = Some other" "ad_MAC other \<noteq> m" "ad_IP other = ip" "ad_Online other"
    by (auto simp: occupies_def split: option.splits)
  with assms Some k show thesis by (intro some) (auto simp: displace_def Let_def)
qed

lemma displace_wf: "reg_wf r \<Longrightarrow> displace order r m ip = (r', d) \<Longrightarrow> reg_wf r'"
  by (erule displace_cases) (auto dest: reg_wfD intro!: reg_wf_update adapter_wf_offline)

text \<open>After the loop nobody else is online at the address, because at most one adapter was.\<close>

lemma displace_frees_address:
  assumes wf: "reg_wf r" and one: "one_online_per_ip r" and keys: "fst ` set r \<subseteq> set order"
    and d: "displace order r m ip = (r', d)"
    and a: "map_of r' n = Some a" "ad_Online a" "ad_IP a = ip"
  shows "n = m"
proof (rule ccontr)
  assume n: "n \<noteq> m"
  from d show False
  proof (cases rule: displace_cases)
    case none
    from a none have "map_of r n = Some a" by simp
    moreover from this have "n \<in> set order" using keys by (force dest: map_of_SomeD)
    ultimately show False using none(3) n a reg_wfD [OF wf] by (force simp: occupies_def)
  next
    case (some k other)
    have "n \<noteq> k" using a(1,2) unfolding some(8) by (auto simp: update_conv')
    moreover from this have "map_of r n = Some a" using a(1) unfolding some(8) by (simp add: update_conv')
    ultimately show False
      using one [unfolded one_online_map [OF reg_wf_distinct [OF wf]]] some(3,5,6) a(2,3) by blast
  qed
qed

lemma displace_online_subset:
  assumes "displace order r m ip = (r', d)" "map_of r' n = Some a" "ad_Online a"
  shows "map_of r n = Some a"
  using assms(1) by (cases rule: displace_cases) (use assms(2,3) in \<open>auto simp: update_conv' split: if_splits\<close>)

lemma displace_lookup_self:
  assumes "reg_wf r" "displace order r m ip = (r', d)"
  shows "map_of r' m = map_of r m"
  using assms(2) by (cases rule: displace_cases) (use assms(1) in \<open>auto simp: update_conv' dest: reg_wfD\<close>)

subsection \<open>\<open>RecordObservation\<close>\<close>

lemma RecordObservation_invalid:
  "Normalize (di_LanMAC info) = [] \<Longrightarrow> RecordObservation order r ip info now = (r, None)"
  by (simp add: RecordObservation_def)

text \<open>
  The effect on the inventory of a successful observation: the displaced adapter, if any, goes
  offline, and the observed adapter is stored.
\<close>

lemma RecordObservation_cases:
  assumes "Normalize (di_LanMAC info) = m" "m \<noteq> []" "reg_wf r"
  obtains r1 d a obs where
    "displace order r m ip = (r1, d)"
    "RecordObservation order r ip info now = (AList.update m a r1, Some obs)"
    "ob_Adapter obs = a" "ob_Displaced obs = d"
    "a = (case map_of r m of None \<Rightarrow> new_adapter m ip info now
                            | Some e \<Rightarrow> refreshed_adapter e ip info now)"
proof -
  obtain r1 d where d: "displace order r m ip = (r1, d)" by (cases "displace order r m ip")
  have look: "map_of r1 m = map_of r m" by (rule displace_lookup_self [OF assms(3) d])
  show thesis
  proof (cases "map_of r m")
    case None
    then show thesis
      using assms d look by (intro that [OF d]) (auto simp: RecordObservation_def Let_def)
  next
    case (Some e)
    then show thesis
      using assms d look by (intro that [OF d]) (auto simp: RecordObservation_def Let_def)
  qed
qed

lemma observed_adapter_wf:
  assumes "reg_wf r" "canonical_mac m" "ValidChannel (di_ChannelID info)"
    and "a = (case map_of r m of None \<Rightarrow> new_adapter m ip info now
                               | Some e \<Rightarrow> refreshed_adapter e ip info now)"
  shows "ad_MAC a = m \<and> adapter_wf a \<and> ad_Online a \<and> ad_IP a = ip"
  using assms by (auto split: option.splits intro: adapter_wf_new adapter_wf_refreshed dest: reg_wfD)

lemma RecordObservation_wf:
  assumes "reg_wf r" "ValidChannel (di_ChannelID info)"
  shows "reg_wf (fst (RecordObservation order r ip info now))"
proof (cases "Normalize (di_LanMAC info) = []")
  case True
  with assms show ?thesis by (simp add: RecordObservation_invalid)
next
  case False
  then obtain r1 d a obs where
    "displace order r (Normalize (di_LanMAC info)) ip = (r1, d)"
    "RecordObservation order r ip info now = (AList.update (Normalize (di_LanMAC info)) a r1, Some obs)"
    "ad_MAC a = Normalize (di_LanMAC info)" "adapter_wf a"
    using RecordObservation_cases [OF refl False assms(1)]
      observed_adapter_wf [OF assms(1) Normalize_canonical [OF False] assms(2)] by metis
  with assms(1) show ?thesis by (simp add: displace_wf reg_wf_update)
qed

lemma RecordObservation_one_online:
  assumes wf: "reg_wf r" and one: "one_online_per_ip r" and keys: "fst ` set r \<subseteq> set order"
    and valid: "ValidChannel (di_ChannelID info)"
  shows "one_online_per_ip (fst (RecordObservation order r ip info now))"
proof (cases "Normalize (di_LanMAC info) = []")
  case True
  with assms show ?thesis by (simp add: RecordObservation_invalid)
next
  case False
  let ?m = "Normalize (di_LanMAC info)"
  obtain r1 d a obs where d: "displace order r ?m ip = (r1, d)"
    and rec: "RecordObservation order r ip info now = (AList.update ?m a r1, Some obs)"
    and a: "ad_Online a" "ad_IP a = ip"
    using RecordObservation_cases [OF refl False wf]
      observed_adapter_wf [OF wf Normalize_canonical [OF False] valid] by metis
  have wf1: "reg_wf r1" by (rule displace_wf [OF wf d])
  have one1: "one_online_per_ip r1"
    by (rule one_online_mono [OF reg_wf_distinct [OF wf] one reg_wf_distinct [OF wf1]])
      (auto dest: displace_online_subset [OF d])
  have "distinct (map fst (AList.update ?m a r1))"
    by (simp add: distinct_update reg_wf_distinct wf1)
  moreover note one1 [unfolded one_online_map [OF reg_wf_distinct [OF wf1]]]
  ultimately have "one_online_per_ip (AList.update ?m a r1)"
    using displace_frees_address [OF wf one keys d] a
    by (auto simp: one_online_map update_conv' split: if_splits)
  with rec show ?thesis by simp
qed

subsection \<open>The other operations\<close>

lemma SetName_wf: "reg_wf r \<Longrightarrow> reg_wf (fst (SetName r m n))"
  by (auto simp: SetName_def Let_def split: option.splits dest: reg_wfD intro!: reg_wf_update adapter_wf_name)

lemma MarkOffline_wf: "reg_wf r \<Longrightarrow> reg_wf (fst (MarkOffline r m))"
  by (auto simp: MarkOffline_def Let_def split: option.splits dest: reg_wfD
      intro!: reg_wf_update adapter_wf_offline)

lemma Hydrate_wf:
  "reg_wf r \<Longrightarrow> list_all adapter_wf (map (ad_Online_update (\<lambda>_. False)) adapters) \<Longrightarrow> reg_wf (Hydrate adapters r)"
  unfolding Hydrate_def
proof (induction adapters arbitrary: r)
  case (Cons a adapters)
  then have "reg_wf (AList.update (ad_MAC a) (a\<lparr>ad_Online := False\<rparr>) r)"
    by (intro reg_wf_update) simp_all
  with Cons show ?case by simp
qed simp

lemma SetName_one_online:
  assumes "reg_wf r" "one_online_per_ip r"
  shows "one_online_per_ip (fst (SetName r m n))"
  by (rule one_online_mono [OF reg_wf_distinct [OF assms(1)] assms(2) reg_wf_distinct [OF SetName_wf [OF assms(1)]]])
    (auto simp: SetName_def Let_def update_conv' split: option.splits if_splits)

lemma MarkOffline_one_online:
  assumes "reg_wf r" "one_online_per_ip r"
  shows "one_online_per_ip (fst (MarkOffline r m))"
  by (rule one_online_mono [OF reg_wf_distinct [OF assms(1)] assms(2) reg_wf_distinct [OF MarkOffline_wf [OF assms(1)]]])
    (auto simp: MarkOffline_def Let_def update_conv' split: option.splits if_splits)

lemma Hydrate_one_online:
  "reg_wf r \<Longrightarrow> one_online_per_ip r \<Longrightarrow>
   list_all adapter_wf (map (ad_Online_update (\<lambda>_. False)) adapters) \<Longrightarrow>
   one_online_per_ip (Hydrate adapters r)"
proof (induction adapters arbitrary: r)
  case Nil
  then show ?case by (simp add: Hydrate_def)
next
  case (Cons a adapters)
  let ?r = "AList.update (ad_MAC a) (a\<lparr>ad_Online := False\<rparr>) r"
  have wf: "reg_wf ?r" using Cons.prems by (auto intro!: reg_wf_update)
  have "one_online_per_ip ?r"
    by (rule one_online_mono [OF reg_wf_distinct [OF Cons.prems(1)] Cons.prems(2) reg_wf_distinct [OF wf]])
      (auto simp: update_conv' split: if_splits)
  with Cons.IH [OF wf] Cons.prems(3) show ?case by (simp add: Hydrate_def)
qed

lemma apply_op_invariant:
  "reg_wf r \<and> one_online_per_ip r \<Longrightarrow> op_ok r op \<Longrightarrow>
   reg_wf (apply_op op r) \<and> one_online_per_ip (apply_op op r)"
  by (cases op) (simp_all add: Hydrate_wf Hydrate_one_online SetName_wf SetName_one_online
      MarkOffline_wf MarkOffline_one_online RecordObservation_wf RecordObservation_one_online)

lemma run_ops_invariant:
  "reg_wf r \<and> one_online_per_ip r \<Longrightarrow> ops_ok r ops \<Longrightarrow>
   reg_wf (run_ops ops r) \<and> one_online_per_ip (run_ops ops r)"
proof (induction ops arbitrary: r)
  case Nil
  then show ?case by (simp add: run_ops_def)
next
  case (Cons op ops)
  from Cons.prems have "reg_wf (apply_op op r) \<and> one_online_per_ip (apply_op op r)"
    by (intro apply_op_invariant) simp_all
  then have "reg_wf (run_ops ops (apply_op op r)) \<and> one_online_per_ip (run_ops ops (apply_op op r))"
    using Cons.prems(2) by (intro Cons.IH) simp_all
  then show ?case by (simp add: run_ops_def)
qed

lemma New_wf: "reg_wf New \<and> one_online_per_ip New"
  by (simp add: New_def reg_wf_def one_online_per_ip_def)

lemma occupiesE:
  assumes "occupies r m ip k"
  obtains other where "map_of r k = Some other" "ad_MAC other \<noteq> m" "ad_IP other = ip" "ad_Online other"
  using assms by (auto simp: occupies_def split: option.splits)

lemma occupant_unique:
  assumes "reg_wf r" "one_online_per_ip r" "occupies r m ip k" "occupies r m ip k'"
  shows "k = k'"
proof -
  obtain a b where "map_of r k = Some a" "ad_IP a = ip" "ad_Online a"
    "map_of r k' = Some b" "ad_IP b = ip" "ad_Online b"
    using assms(3,4) by (elim occupiesE)
  with assms(2) show ?thesis
    unfolding one_online_map [OF reg_wf_distinct [OF assms(1)]] by metis
qed

lemma find_unique:
  assumes "P k" "k \<in> set xs" and uniq: "\<And>y. P y \<Longrightarrow> y = k"
  shows "List.find P xs = Some k"
proof (cases "List.find P xs")
  case None
  with assms(1,2) show ?thesis by (simp add: find_None_iff)
next
  case (Some y)
  then have "P y" by (auto simp: find_Some_iff)
  with uniq Some show ?thesis by blast
qed

lemma occupies_key: "occupies r m ip k \<Longrightarrow> k \<in> fst ` set r"
  by (erule occupiesE) (metis fst_conv image_eqI map_of_SomeD)

lemma displace_order_irrelevant:
  assumes inv: "reg_wf r" "one_online_per_ip r"
    and keys: "fst ` set r \<subseteq> set order" "fst ` set r \<subseteq> set order'"
  shows "displace order r m ip = displace order' r m ip"
proof (cases "\<exists>k. occupies r m ip k")
  case True
  then obtain k where k: "occupies r m ip k" ..
  have "k \<in> set order" "k \<in> set order'" using keys occupies_key [OF k] by blast+
  then have "List.find (occupies r m ip) order = Some k" "List.find (occupies r m ip) order' = Some k"
    using k occupant_unique [OF inv] by (blast intro: find_unique)+
  then show ?thesis by (simp add: displace_def)
next
  case False
  then have "List.find (occupies r m ip) order = None" "List.find (occupies r m ip) order' = None"
    by (simp_all add: find_None_iff)
  then show ?thesis by (simp add: displace_def)
qed

lemma displace_lookup:
  assumes inv: "reg_wf r" "one_online_per_ip r" and keys: "fst ` set r \<subseteq> set order"
    and d: "displace order r m ip = (r', d)"
  shows "map_of r' n = map_option (\<lambda>b. if occupies r m ip n then b\<lparr>ad_Online := False\<rparr> else b) (map_of r n)"
  using d
proof (cases rule: displace_cases)
  case none
  then have "\<not> occupies r m ip n" using keys occupies_key [of r m ip n] by blast
  with none show ?thesis by (cases "map_of r n") simp_all
next
  case (some k other)
  show ?thesis
  proof (cases "n = k")
    case True
    with some show ?thesis by (simp add: update_conv')
  next
    case False
    then have "\<not> occupies r m ip n" using some(2) occupant_unique [OF inv] by blast
    with False some(8) show ?thesis by (cases "map_of r n") (simp_all add: update_conv')
  qed
qed

lemma displace_result:
  assumes inv: "reg_wf r" "one_online_per_ip r" and keys: "fst ` set r \<subseteq> set order"
    and d: "displace order r m ip = (r', d)"
  shows "(case d of
            None \<Rightarrow> (\<forall>n. \<not> occupies r m ip n)
          | Some b \<Rightarrow> occupies r m ip (ad_MAC b) \<and> map_of r' (ad_MAC b) = Some b)"
  using d
proof (cases rule: displace_cases)
  case none
  moreover have "\<not> occupies r m ip n" for n using none(3) keys occupies_key [of r m ip n] by blast
  ultimately show ?thesis by simp
next
  case (some k other)
  then show ?thesis using reg_wfD [OF inv(1) some(3)] by (simp add: update_conv')
qed

lemma occupies_iff:
  assumes "reg_wf r"
  shows "occupies r m ip n \<longleftrightarrow>
    n \<noteq> m \<and> (\<exists>b. Lookup r n = Some b \<and> ad_IP b = ip \<and> ad_Online b)"
  using reg_wfD [OF assms] by (auto simp: occupies_def Lookup_def split: option.splits)

text \<open>The observed adapter, before and after.\<close>

definition observed :: "registry \<Rightarrow> string \<Rightarrow> string \<Rightarrow> device_info \<Rightarrow> gotime \<Rightarrow> adapter" where
  "observed r m ip info now =
     (case Lookup r m of None \<Rightarrow> new_adapter m ip info now | Some e \<Rightarrow> refreshed_adapter e ip info now)"

lemma RecordObservation_effect:
  assumes inv: "reg_wf r" "one_online_per_ip r" and keys: "fst ` set r \<subseteq> set order"
    and m: "Normalize (di_LanMAC info) = m" "m \<noteq> []"
  obtains r' obs where "RecordObservation order r ip info now = (r', Some obs)"
    "ob_Adapter obs = observed r m ip info now"
    "Lookup r' m = Some (observed r m ip info now)"
    "\<And>n. n \<noteq> m \<Longrightarrow> Lookup r' n =
       map_option (\<lambda>b. if occupies r m ip n then b\<lparr>ad_Online := False\<rparr> else b) (Lookup r n)"
    "(case ob_Displaced obs of
            None \<Rightarrow> (\<forall>n. \<not> occupies r m ip n)
          | Some b \<Rightarrow> occupies r m ip (ad_MAC b) \<and> Lookup r' (ad_MAC b) = Some b)"
proof -
  obtain r1 d a obs where d: "displace order r m ip = (r1, d)"
    and rec: "RecordObservation order r ip info now = (AList.update m a r1, Some obs)"
    and obs: "ob_Adapter obs = a" "ob_Displaced obs = d" "a = observed r m ip info now"
    using RecordObservation_cases [OF m inv(1)] unfolding observed_def Lookup_def by metis
  show thesis
    by (rule that [OF rec])
      (use obs displace_lookup [OF inv keys d] displace_result [OF inv keys d]
        in \<open>auto simp: Lookup_def update_conv' occupies_iff [OF inv(1)] split: option.splits\<close>)
qed

section \<open>Properties\<close>

text \<open>C18: whatever sequence of operations the goroutines perform on the registry, the keys are
  distinct canonical MAC addresses that agree with the adapters they hold, every known channel
  is in range, and no two adapters are online at the same address.\<close>

theorem registry_invariant:
  assumes "ops_ok New ops"
  shows "reg_wf (run_ops ops New) \<and> one_online_per_ip (run_ops ops New)"
  using run_ops_invariant [OF New_wf assms] .

definition tx_info :: device_info where
  "tx_info =
     \<lparr>di_DevName = ''ET01_286CD291'', di_ProductName = ''ProAVTx ET01'',
      di_Model = ''proavtx-eth'', di_Version = ''1.13471.133'',
      di_LanMAC = ''FC:19:28:6C:D2:91'', di_ChannelID = 3, di_Capability = [], di_Raw = []\<rparr>"

theorem registry_invariant_witness:
  "let ops = [OpObserve [] ''192.168.1.20'' rx_info 1000,
              OpObserve [''fc:19:28:6c:d6:d8''] ''192.168.1.20'' tx_info 2000,
              OpMarkOffline ''fc:19:28:6c:d2:91'', OpSetName ''fc:19:28:6c:d6:d8'' (Some ''Lobby'')]
   in length (run_ops ops New) = 2 \<and> reg_wf (run_ops ops New) \<and> one_online_per_ip (run_ops ops New)"
proof -
  let ?ops = "[OpObserve [] ''192.168.1.20'' rx_info 1000,
              OpObserve [''fc:19:28:6c:d6:d8''] ''192.168.1.20'' tx_info 2000,
              OpMarkOffline ''fc:19:28:6c:d2:91'', OpSetName ''fc:19:28:6c:d6:d8'' (Some ''Lobby'')]"
  have "ops_ok New ?ops" by code_simp
  moreover have "length (run_ops ?ops New) = 2" by code_simp
  ultimately show ?thesis using registry_invariant [of ?ops] unfolding Let_def by blast
qed

text \<open>C20: an accepted observation makes the observed unit online at the observed address with the
  channel and role the device reported, keeps its user name, id and first-seen time, takes
  exactly the adapter that was online at that address offline and reports it as displaced, and
  changes nothing else in the inventory.\<close>

theorem RecordObservation_correct:
  assumes "reg_wf r" "one_online_per_ip r" "fst ` set r \<subseteq> set order"
    and "Normalize (di_LanMAC info) = m" "m \<noteq> []"
    and "RecordObservation order r ip info now = (r', res)"
  shows "\<exists>obs a. res = Some obs \<and> ob_Adapter obs = a \<and> Lookup r' m = Some a
    \<and> ad_MAC a = m \<and> ad_Online a \<and> ad_IP a = ip \<and> ad_Channel a = Some (di_ChannelID info)
    \<and> ad_Role a = Classify info
    \<and> (case Lookup r m of
         None \<Rightarrow> ad_Name a = None \<and> ad_FirstSeenAt a = now
       | Some e \<Rightarrow> ad_Name a = ad_Name e \<and> ad_FirstSeenAt a = ad_FirstSeenAt e \<and> ad_ID a = ad_ID e)
    \<and> (\<forall>n. n \<noteq> m \<longrightarrow> Lookup r' n =
         map_option (\<lambda>b. if ad_IP b = ip then b\<lparr>ad_Online := False\<rparr> else b) (Lookup r n))
    \<and> (case ob_Displaced obs of
         None \<Rightarrow> (\<forall>n b. n \<noteq> m \<and> Lookup r n = Some b \<and> ad_IP b = ip \<longrightarrow> \<not> ad_Online b)
       | Some d \<Rightarrow> ad_MAC d \<noteq> m \<and> Lookup r' (ad_MAC d) = Some d
            \<and> map_option ad_Online (Lookup r (ad_MAC d)) = Some True)"
proof -
  obtain r'' obs where rec: "RecordObservation order r ip info now = (r'', Some obs)"
    and obs: "ob_Adapter obs = observed r m ip info now" "Lookup r'' m = Some (observed r m ip info now)"
    and others: "\<And>n. n \<noteq> m \<Longrightarrow> Lookup r'' n =
       map_option (\<lambda>b. if occupies r m ip n then b\<lparr>ad_Online := False\<rparr> else b) (Lookup r n)"
    and disp: "(case ob_Displaced obs of
            None \<Rightarrow> (\<forall>n. \<not> occupies r m ip n)
          | Some b \<Rightarrow> occupies r m ip (ad_MAC b) \<and> Lookup r'' (ad_MAC b) = Some b)"
    by (rule RecordObservation_effect [OF assms(1-5), where ip = ip and now = now]) (rule that)
  have eq: "r' = r''" "res = Some obs" using rec assms(6) by simp_all
  have self: "ad_MAC (observed r m ip info now) = m \<and> ad_Online (observed r m ip info now)
      \<and> ad_IP (observed r m ip info now) = ip
      \<and> ad_Channel (observed r m ip info now) = Some (di_ChannelID info)
      \<and> ad_Role (observed r m ip info now) = Classify info
      \<and> (case Lookup r m of
         None \<Rightarrow> ad_Name (observed r m ip info now) = None \<and> ad_FirstSeenAt (observed r m ip info now) = now
       | Some e \<Rightarrow> ad_Name (observed r m ip info now) = ad_Name e
           \<and> ad_FirstSeenAt (observed r m ip info now) = ad_FirstSeenAt e
           \<and> ad_ID (observed r m ip info now) = ad_ID e)"
    using reg_wfD [OF assms(1), of m]
    by (cases "Lookup r m") (simp_all add: observed_def Lookup_def new_adapter_def)
  have "Lookup r'' n = map_option (\<lambda>b. if ad_IP b = ip then b\<lparr>ad_Online := False\<rparr> else b) (Lookup r n)"
    if "n \<noteq> m" for n
    using others [OF that] that by (cases "Lookup r n") (auto simp: occupies_iff [OF assms(1)])
  moreover have "(case ob_Displaced obs of
         None \<Rightarrow> (\<forall>n b. n \<noteq> m \<and> Lookup r n = Some b \<and> ad_IP b = ip \<longrightarrow> \<not> ad_Online b)
       | Some d \<Rightarrow> ad_MAC d \<noteq> m \<and> Lookup r'' (ad_MAC d) = Some d
            \<and> map_option ad_Online (Lookup r (ad_MAC d)) = Some True)"
    using disp by (auto simp: occupies_iff [OF assms(1)] split: option.splits)
  ultimately show ?thesis using self obs unfolding eq by blast
qed

theorem RecordObservation_correct_witness:
  "let r = fst (RecordObservation [] New ''192.168.1.20'' rx_info 1000);
       (r', res) = RecordObservation [''fc:19:28:6c:d6:d8''] r ''192.168.1.20'' tx_info 2000
   in \<exists>obs. res = Some obs \<and> map_option ad_Online (Lookup r' ''fc:19:28:6c:d2:91'') = Some True
      \<and> Lookup r' ''fc:19:28:6c:d6:d8'' =
         map_option (\<lambda>b. if ad_IP b = ''192.168.1.20'' then b\<lparr>ad_Online := False\<rparr> else b)
           (Lookup r ''fc:19:28:6c:d6:d8'')"
proof -
  let ?r = "fst (RecordObservation [] New ''192.168.1.20'' rx_info 1000)"
  obtain r' res where rec: "RecordObservation [''fc:19:28:6c:d6:d8''] ?r ''192.168.1.20'' tx_info 2000 = (r', res)"
    by (cases "RecordObservation [''fc:19:28:6c:d6:d8''] ?r ''192.168.1.20'' tx_info 2000")
  have "reg_wf ?r" "one_online_per_ip ?r"
    using RecordObservation_wf [of New rx_info] RecordObservation_one_online [of New "[]" rx_info] New_wf
    by (simp_all add: New_def ValidChannel_iff rx_info_def)
  moreover have "fst ` set ?r \<subseteq> set [''fc:19:28:6c:d6:d8'']" by code_simp
  moreover have "Normalize (di_LanMAC tx_info) = ''fc:19:28:6c:d2:91''" by code_simp
  ultimately show ?thesis
    using RecordObservation_correct [OF _ _ _ _ _ rec, of "''fc:19:28:6c:d2:91''"]
    unfolding rec Let_def by fastforce
qed

text \<open>The unspecified order in which Go ranges over the map has no influence on an
  observation, in any state the registry can be in.\<close>

theorem RecordObservation_order_irrelevant:
  assumes "ops_ok New ops" "r = run_ops ops New"
    and "fst ` set r \<subseteq> set order" "fst ` set r \<subseteq> set order'"
  shows "RecordObservation order r ip info now = RecordObservation order' r ip info now"
proof -
  have "reg_wf r" "one_online_per_ip r" using run_ops_invariant [OF New_wf assms(1)] assms(2) by simp_all
  then have "displace order r m ip = displace order' r m ip" for m
    using assms(3,4) by (rule displace_order_irrelevant)
  then show ?thesis by (simp add: RecordObservation_def Let_def)
qed

theorem RecordObservation_order_irrelevant_witness:
  "let ops = [OpObserve [] ''10.0.0.1'' rx_info 1000, OpObserve [''fc:19:28:6c:d6:d8''] ''10.0.0.2'' tx_info 2000]
   in RecordObservation [''fc:19:28:6c:d6:d8'', ''fc:19:28:6c:d2:91''] (run_ops ops New) ''10.0.0.1'' tx_info 3000
    = RecordObservation [''fc:19:28:6c:d2:91'', ''fc:19:28:6c:d6:d8''] (run_ops ops New) ''10.0.0.1'' tx_info 3000"
proof -
  let ?ops = "[OpObserve [] ''10.0.0.1'' rx_info 1000, OpObserve [''fc:19:28:6c:d6:d8''] ''10.0.0.2'' tx_info 2000]"
  have ok: "ops_ok New ?ops" by code_simp
  have keys: "fst ` set (run_ops ?ops New) \<subseteq> set [''fc:19:28:6c:d6:d8'', ''fc:19:28:6c:d2:91'']"
    "fst ` set (run_ops ?ops New) \<subseteq> set [''fc:19:28:6c:d2:91'', ''fc:19:28:6c:d6:d8'']"
    by code_simp+
  show ?thesis
    unfolding Let_def by (rule RecordObservation_order_irrelevant [OF ok refl keys])
qed

lemma reg_wf_key: "reg_wf r \<Longrightarrow> map_of r m = Some a \<Longrightarrow> canonical_mac m"
  using reg_wfD [of r m a] by (auto simp: adapter_wf_def)

lemma Lookup_update: "Lookup (AList.update k v r) n = (if n = k then Some v else Lookup r n)"
  by (auto simp: Lookup_def update_conv')

lemma displace_keeps:
  assumes "displace order r m ip = (r', d)" "Lookup r n = Some a"
  shows "\<exists>on. Lookup r' n = Some (a\<lparr>ad_Online := on\<rparr>)"
  using assms(1)
proof (cases rule: displace_cases)
  case none
  then show ?thesis using assms(2) by (intro exI [of _ "ad_Online a"]) simp
next
  case (some k other)
  show ?thesis
  proof (cases "n = k")
    case True
    then show ?thesis using some(3,8) assms(2) by (intro exI [of _ False]) (simp add: Lookup_update, simp add: Lookup_def)
  next
    case False
    then show ?thesis using some(8) assms(2) by (intro exI [of _ "ad_Online a"]) (simp add: Lookup_update)
  qed
qed

text \<open>What no operation but \<open>Hydrate\<close> may change of a known adapter.\<close>

definition same_identity :: "adapter \<Rightarrow> adapter \<Rightarrow> bool" where
  "same_identity a b \<longleftrightarrow> ad_MAC b = ad_MAC a \<and> ad_ID b = ad_ID a \<and> ad_FirstSeenAt b = ad_FirstSeenAt a"

lemma RecordObservation_keeps:
  assumes "Lookup r m = Some a"
  shows "\<exists>a'. Lookup (fst (RecordObservation order r ip info now)) m = Some a'
    \<and> same_identity a a' \<and> ad_Name a' = ad_Name a"
proof (cases "Normalize (di_LanMAC info) = []")
  case True
  then show ?thesis using assms by (simp add: RecordObservation_invalid same_identity_def)
next
  case False
  obtain r1 d where d: "displace order r (Normalize (di_LanMAC info)) ip = (r1, d)"
    by (cases "displace order r (Normalize (di_LanMAC info)) ip")
  obtain on where "Lookup r1 m = Some (a\<lparr>ad_Online := on\<rparr>)" using displace_keeps [OF d assms] ..
  with False d show ?thesis
    by (cases "map_of r1 (Normalize (di_LanMAC info))")
      (auto simp: RecordObservation_def Let_def Lookup_update Lookup_def [of r1] same_identity_def)
qed

lemma apply_op_keeps:
  assumes "\<And>as. op \<noteq> OpHydrate as" "Lookup r m = Some a"
  shows "\<exists>a'. Lookup (apply_op op r) m = Some a' \<and> same_identity a a'
    \<and> ((\<forall>n. op \<noteq> OpSetName m n) \<longrightarrow> ad_Name a' = ad_Name a)"
proof (cases op)
  case (OpSetName k n)
  then show ?thesis using assms(2)
    by (cases "map_of r k") (auto simp: SetName_def Let_def Lookup_update same_identity_def Lookup_def [of r])
next
  case (OpMarkOffline k)
  then show ?thesis using assms(2)
    by (cases "map_of r k") (auto simp: MarkOffline_def Let_def Lookup_update same_identity_def Lookup_def [of r])
next
  case (OpObserve order ip info now)
  then show ?thesis using RecordObservation_keeps [OF assms(2)] by auto
qed (use assms(1) in simp)

text \<open>C40: apart from loading the inventory at start-up, no sequence of operations forgets an
  adapter or changes its MAC, its id or its first-seen time, and its user name changes only
  by a rename of that adapter.\<close>

theorem adapters_never_forgotten:
  assumes "\<forall>op \<in> set ops. \<forall>as. op \<noteq> OpHydrate as" "Lookup r m = Some a"
  shows "\<exists>a'. Lookup (run_ops ops r) m = Some a' \<and> same_identity a a'
    \<and> ((\<forall>n. OpSetName m n \<notin> set ops) \<longrightarrow> ad_Name a' = ad_Name a)"
  using assms
proof (induction ops arbitrary: r a)
  case Nil
  then show ?case by (simp add: run_ops_def same_identity_def)
next
  case (Cons op ops)
  from Cons.prems obtain b where b: "Lookup (apply_op op r) m = Some b" "same_identity a b"
    "(\<forall>n. op \<noteq> OpSetName m n) \<longrightarrow> ad_Name b = ad_Name a"
    using apply_op_keeps [of op r m a] by auto
  from Cons.IH [OF _ b(1)] Cons.prems(1) obtain a' where
    "Lookup (run_ops ops (apply_op op r)) m = Some a'" "same_identity b a'"
    "(\<forall>n. OpSetName m n \<notin> set ops) \<longrightarrow> ad_Name a' = ad_Name b"
    by auto
  with b show ?case by (auto simp: run_ops_def same_identity_def)
qed

theorem adapters_never_forgotten_witness:
  "let r = fst (RecordObservation [] New ''10.0.0.1'' rx_info 1000);
       a = observed New ''fc:19:28:6c:d6:d8'' ''10.0.0.1'' rx_info 1000
   in \<exists>a'. Lookup (run_ops [OpObserve [''fc:19:28:6c:d6:d8''] ''10.0.0.1'' tx_info 2000] r)
         ''fc:19:28:6c:d6:d8'' = Some a' \<and> same_identity a a'"
proof -
  let ?r = "fst (RecordObservation [] New ''10.0.0.1'' rx_info 1000)"
  have "Lookup ?r ''fc:19:28:6c:d6:d8'' = Some (observed New ''fc:19:28:6c:d6:d8'' ''10.0.0.1'' rx_info 1000)"
    by code_simp
  from adapters_never_forgotten [OF _ this, of "[OpObserve [''fc:19:28:6c:d6:d8''] ''10.0.0.1'' tx_info 2000]"]
  show ?thesis unfolding Let_def by auto
qed

lemma change_detection_eq:
  assumes "reg_wf r" "Lookup r m = Some e" "Normalize (di_LanMAC info) = m"
    and "RecordObservation order r ip info now = (r', Some obs)"
  shows "\<not> Changed obs \<longleftrightarrow> ob_Adapter obs = e\<lparr>ad_LastSeenAt := now\<rparr>"
proof -
  obtain r1 d where d: "displace order r m ip = (r1, d)" by (cases "displace order r m ip")
  have "map_of r1 m = Some e" using displace_lookup_self [OF assms(1) d] assms(2) by (simp add: Lookup_def)
  moreover have "m \<noteq> []" using reg_wf_key [OF assms(1), of m] assms(2) by (auto simp: Lookup_def)
  ultimately show ?thesis using assms(3,4) d
    by (cases e) (auto simp: RecordObservation_def Let_def Changed_def refreshed_adapter_def)
qed

text \<open>The change flags of an observation are exact: a known adapter's observation reports no
  change precisely when nothing about the adapter but its last-seen time differs from before.\<close>

theorem change_detection_exact:
  assumes "reg_wf r" "Lookup r m = Some e" "Normalize (di_LanMAC info) = m"
    and "RecordObservation order r ip info now = (r', Some obs)"
  shows "\<not> Changed obs \<longleftrightarrow> ob_Adapter obs = e\<lparr>ad_LastSeenAt := now\<rparr>"
  by (rule change_detection_eq [OF assms])

theorem change_detection_exact_witness:
  "let r = fst (RecordObservation [] New ''10.0.0.1'' rx_info 1000);
       a = observed New ''fc:19:28:6c:d6:d8'' ''10.0.0.1'' rx_info 1000;
       obs = the (snd (RecordObservation [''fc:19:28:6c:d6:d8''] r ''10.0.0.1'' rx_info 2000))
   in \<not> Changed obs \<longleftrightarrow> ob_Adapter obs = a\<lparr>ad_LastSeenAt := 2000\<rparr>"
proof -
  let ?r = "fst (RecordObservation [] New ''10.0.0.1'' rx_info 1000)"
  let ?o = "RecordObservation [''fc:19:28:6c:d6:d8''] ?r ''10.0.0.1'' rx_info 2000"
  have wf: "reg_wf ?r"
    using RecordObservation_wf [of New rx_info] New_wf by (simp add: ValidChannel_iff rx_info_def)
  have l: "Lookup ?r ''fc:19:28:6c:d6:d8'' = Some (observed New ''fc:19:28:6c:d6:d8'' ''10.0.0.1'' rx_info 1000)"
    by code_simp
  have n: "Normalize (di_LanMAC rx_info) = ''fc:19:28:6c:d6:d8''" by code_simp
  have "snd ?o \<noteq> None" using n by (auto simp: RecordObservation_def Let_def split: prod.splits option.splits)
  then have "?o = (fst ?o, Some (the (snd ?o)))" by (metis option.collapse prod.collapse)
  from change_detection_exact [OF wf l n this] show ?thesis unfolding Let_def .
qed

text \<open>An accepted name is the trimmed input, is not blank, has at most 64 characters and no
  control characters, and would be accepted unchanged again; a blank input always clears.\<close>

theorem ValidateName_correct:
  "(case ValidateName raw of
      Inl e \<Rightarrow> trim_space raw \<noteq> []
        \<and> (rune_count (trim_space raw) > 64 \<or> (\<exists>c \<in> set (trim_space raw). c \<le> CHR 0x1F \<or> c = CHR 0x7F))
    | Inr None \<Rightarrow> trim_space raw = []
    | Inr (Some n) \<Rightarrow> n = trim_space raw \<and> n \<noteq> [] \<and> rune_count n \<le> 64
        \<and> filter (\<lambda>c. c \<le> CHR 0x1F \<or> c = CHR 0x7F) n = [] \<and> ValidateName n = Inr (Some n))"
  by (auto simp: ValidateName_def Let_def MaxNameLength_def control_char_def list_ex_iff
      filter_empty_conv split: sum.splits option.splits if_splits)

end
