(* ===== verification/Ipv4.thy ===== *)
theory Ipv4
  imports Prelude "HOL-Library.Word"
begin

text \<open>
  IPv4 addresses as \<open>net/netip\<close> handles them: the text form (\<open>ParseAddr\<close> restricted to
  addresses for which \<open>Is4\<close> holds, and \<open>String\<close>) and the 32-bit value.
\<close>

type_synonym ipv4 = "32 word"

fun split_on :: "char \<Rightarrow> string \<Rightarrow> string list" where
  "split_on d [] = [[]]"
| "split_on d (c # cs) =
     (if c = d then [] # split_on d cs
      else case split_on d cs of [] \<Rightarrow> [[c]] | f # fs \<Rightarrow> (c # f) # fs)"

definition parse_octet :: "string \<Rightarrow> nat option" where
  "parse_octet ds =
     (if ds = [] \<or> \<not> list_all is_digit ds \<or> (length ds > 1 \<and> hd ds = CHR ''0'')
         \<or> nat_of_digits ds > 255
      then None else Some (nat_of_digits ds))"

definition of_octets :: "nat \<Rightarrow> nat \<Rightarrow> nat \<Rightarrow> nat \<Rightarrow> ipv4" where
  "of_octets a b c d = word_of_nat (((a * 256 + b) * 256 + c) * 256 + d)"

definition parse_ipv4 :: "string \<Rightarrow> ipv4 option" where
  "parse_ipv4 s =
     (case map parse_octet (split_on CHR ''.'' s) of
        [Some a, Some b, Some c, Some d] \<Rightarrow> Some (of_octets a b c d)
      | _ \<Rightarrow> None)"

definition ipv4_string :: "ipv4 \<Rightarrow> string" where
  "ipv4_string w =
     (let n = unat w in
      join ''.'' (map string_of_nat
        [n div 16777216, n div 65536 mod 256, n div 256 mod 256, n mod 256]))"

section \<open>Lemmas\<close>

lemma digit_val_char: "d < 10 \<Longrightarrow> digit_val (digit_char d) = d"
  by (simp add: digit_val_def digit_char_def of_char_of)

lemma is_digit_char: "d < 10 \<Longrightarrow> is_digit (digit_char d)"
  by (simp add: is_digit_def digit_char_def less_eq_char_def of_char_of)

lemma string_of_nat_digits: "list_all is_digit (string_of_nat n) \<and> string_of_nat n \<noteq> []"
proof (induction n rule: string_of_nat.induct)
  case (1 n)
  then show ?case by (subst (1 2) string_of_nat.simps) (simp add: is_digit_char)
qed

lemma nat_of_string_of_nat [simp]: "nat_of_digits (string_of_nat n) = n"
proof (induction n rule: string_of_nat.induct)
  case (1 n)
  then show ?case
    by (subst string_of_nat.simps) (simp add: nat_of_digits_def digit_val_char)
qed

lemma string_of_nat_inj [simp]: "string_of_nat m = string_of_nat n \<longleftrightarrow> m = n"
  by (metis nat_of_string_of_nat)

lemma hd_string_of_nat: "10 \<le> n \<Longrightarrow> hd (string_of_nat n) \<noteq> CHR ''0''"
proof (induction n rule: string_of_nat.induct)
  case (1 n)
  show ?case
  proof (cases "n div 10 < 10")
    case True
    with "1.prems" have "hd (string_of_nat n) = digit_char (n div 10)" "0 < n div 10"
      by (simp_all add: string_of_nat.simps [of n] string_of_nat.simps [of "n div 10"])
    moreover have "digit_char d \<noteq> CHR ''0''" if "0 < d" "d < 10" for d
      using that digit_val_char [of d] by (auto simp: digit_val_def)
    ultimately show ?thesis using True by auto
  next
    case False
    with "1" show ?thesis
      by (simp add: string_of_nat.simps [of n] string_of_nat_digits)
  qed
qed

lemma parse_octet_string: "n < 256 \<Longrightarrow> parse_octet (string_of_nat n) = Some n"
proof -
  assume n: "n < 256"
  have "\<not> (length (string_of_nat n) > 1 \<and> hd (string_of_nat n) = CHR ''0'')"
    by (cases "n < 10") (simp add: string_of_nat.simps [of n], simp add: hd_string_of_nat)
  with n string_of_nat_digits [of n] show ?thesis by (simp add: parse_octet_def)
qed

lemma split_on_no: "d \<notin> set s \<Longrightarrow> split_on d s = [s]"
  by (induction s) auto

lemma split_on_not_Nil [simp]: "split_on d s \<noteq> []"
  by (induction s) (auto split: list.splits)

lemma split_on_append: "d \<notin> set s \<Longrightarrow> split_on d (s @ d # t) = s # split_on d t"
  by (induction s) auto

lemma dot_not_in_digits: "CHR ''.'' \<notin> set (string_of_nat n)"
proof
  assume "CHR ''.'' \<in> set (string_of_nat n)"
  then have "is_digit CHR ''.''" using string_of_nat_digits [of n] by (auto simp: list_all_iff)
  then show False by (simp add: is_digit_def less_eq_char_def)
qed

lemma parse_ipv4_string [simp]: "parse_ipv4 (ipv4_string w) = Some w"
proof -
  define n where "n = unat w"
  have n: "n < 4294967296" using unsigned_less [of w, where ?'a = nat] by (simp add: n_def)
  have "n div 65536 = n div 256 div 256" "n div 16777216 = n div 256 div 256 div 256"
    by (simp_all flip: div_mult2_eq)
  then have "((n div 16777216 * 256 + n div 65536 mod 256) * 256 + n div 256 mod 256) * 256 + n mod 256 = n"
    by simp
  moreover have "n div 16777216 < 256" using n by simp
  ultimately show ?thesis
    by (simp add: parse_ipv4_def ipv4_string_def Let_def split_on_append split_on_no
        dot_not_in_digits parse_octet_string of_octets_def flip: n_def)
      (simp add: n_def)
qed

lemma ipv4_string_inj [simp]: "ipv4_string v = ipv4_string w \<longleftrightarrow> v = w"
  by (metis option.inject parse_ipv4_string)

end
