(* ===== verification/Sources.thy ===== *)
theory Sources
  imports Registry Ipv4 "HOL-Library.Multiset"
begin

text \<open>
  Package \<open>internal/registry\<close>, file \<open>sources.go\<close>: the catalogue of transmitters that
  receivers choose from.  \<open>sort.Slice\<close> promises a permutation that is sorted by label, and
  nothing about the order of equal labels, so the table is built with a sorting function as a
  parameter and the contract of \<open>sort.Slice\<close> is the locale \<open>label_sort\<close>.  The other
  components use the stable sort, which is what \<open>sort.Slice\<close> does on at most twelve
  elements; with distinct labels every sort gives the same table
  (\<open>label_sort.srt_unique\<close>).
\<close>

section \<open>Definitions\<close>

definition SourceNone :: string where "SourceNone = ''none''"

record source =
  src_Label :: string
  src_MAC :: string
  src_Channel :: int

type_synonym source_table = "source list"

text \<open>The transmitters with a reported channel, ordered by MAC, paired with that channel.\<close>

definition transmitters :: "registry \<Rightarrow> (adapter \<times> int) list" where
  "transmitters r =
     List.map_filter
       (\<lambda>a. if ad_Role a = RoleTransmitter then map_option (Pair a) (ad_Channel a) else None) (All r)"

definition channel_suffix :: "int \<Rightarrow> string" where
  "channel_suffix c = '' (ch '' @ itoa c @ '')''"

definition source_label :: "(adapter \<times> int) list \<Rightarrow> adapter \<times> int \<Rightarrow> string" where
  "source_label txs tx =
     (let label = DisplayName (fst tx) in
      if count_list (map (\<lambda>t. DisplayName (fst t)) txs) label > 1
      then label @ channel_suffix (snd tx) else label)"

definition source_of :: "(adapter \<times> int) list \<Rightarrow> adapter \<times> int \<Rightarrow> source" where
  "source_of txs tx =
     \<lparr>src_Label = source_label txs tx, src_MAC = ad_MAC (fst tx), src_Channel = snd tx\<rparr>"

definition Sources_with :: "(source list \<Rightarrow> source list) \<Rightarrow> registry \<Rightarrow> source_table" where
  "Sources_with sort_slice r =
     (let txs = transmitters r in sort_slice (map (source_of txs) txs))"

definition Sources :: "registry \<Rightarrow> source_table" where
  "Sources r = Sources_with (sort_key src_Label) r"

definition Options :: "source_table \<Rightarrow> string list" where
  "Options t = map src_Label t"

definition ByLabel :: "source_table \<Rightarrow> string \<Rightarrow> source option" where
  "ByLabel t label = List.find (\<lambda>s. src_Label s = label) t"

definition ForChannel :: "source_table \<Rightarrow> int option \<Rightarrow> string" where
  "ForChannel t channel =
     (case channel of
        None \<Rightarrow> SourceNone
      | Some c \<Rightarrow>
          (case List.find (\<lambda>s. src_Channel s = c) t of
             None \<Rightarrow> SourceNone
           | Some s \<Rightarrow> src_Label s))"

definition add_claim :: "source \<Rightarrow> (int \<times> string list) list \<Rightarrow> (int \<times> string list) list" where
  "add_claim s m =
     AList.update (src_Channel s)
       ((case map_of m (src_Channel s) of None \<Rightarrow> [] | Some macs \<Rightarrow> macs) @ [src_MAC s]) m"

definition Collisions :: "source_table \<Rightarrow> (int \<times> string list) list" where
  "Collisions t = filter (\<lambda>(ch, macs). \<not> length macs < 2) (fold add_claim t [])"

definition Equal :: "source_table \<Rightarrow> source_table \<Rightarrow> bool" where
  "Equal t u \<longleftrightarrow> length t = length u \<and> list_all (\<lambda>i. t ! i = u ! i) [0..<length t]"

section \<open>The contract of \<open>sort.Slice\<close>\<close>

locale label_sort =
  fixes srt :: "source list \<Rightarrow> source list"
  assumes mset_srt: "mset (srt xs) = mset xs"
    and sorted_srt: "sorted (map src_Label (srt xs))"
begin

lemma set_srt: "set (srt xs) = set xs"
  by (metis mset_srt set_mset_mset)

lemma srt_unique:
  assumes "distinct (map src_Label xs)"
  shows "srt xs = sort_key src_Label xs"
proof (rule map_sorted_distinct_set_unique [where f = src_Label])
  show "inj_on src_Label (set (srt xs) \<union> set (sort_key src_Label xs))"
    using assms by (simp add: set_srt distinct_map)
  show "distinct (map src_Label (srt xs))" "distinct (map src_Label (sort_key src_Label xs))"
    using assms by (metis mset_map mset_srt mset_eq_imp_distinct_iff mset_sort)+
qed (simp_all add: sorted_srt set_srt)

lemma mset_table: "mset (Sources_with srt r) = mset (map (source_of (transmitters r)) (transmitters r))"
  by (simp add: Sources_with_def Let_def mset_srt)

lemma set_table: "set (Sources_with srt r) = source_of (transmitters r) ` set (transmitters r)"
  by (simp add: Sources_with_def Let_def set_srt)

text \<open>The first entry for a channel has the least label of all entries with that channel.\<close>

lemma find_least_label:
  assumes "List.find P (srt xs) = Some s" "s' \<in> set xs" "P s'"
  shows "src_Label s \<le> src_Label s'"
proof -
  obtain i where i: "i < length (srt xs)" "s = srt xs ! i" "\<And>j. j < i \<Longrightarrow> \<not> P (srt xs ! j)"
    using assms(1) by (auto simp: find_Some_iff)
  obtain k where k: "k < length (srt xs)" "srt xs ! k = s'"
    using assms(2) by (metis in_set_conv_nth set_srt)
  with i(3) assms(3) have "i \<le> k" by (metis not_le)
  then have "map src_Label (srt xs) ! i \<le> map src_Label (srt xs) ! k"
    using k(1) by (intro sorted_nth_mono sorted_srt) simp_all
  with i k show ?thesis by simp
qed

end

interpretation stable: label_sort "sort_key src_Label"
  by unfold_locales simp_all

section \<open>Lemmas\<close>

lemma mset_All: "mset (All r) = mset (map snd r)"
  by (simp add: All_def)

lemma set_All: "set (All r) = snd ` set r"
  by (simp add: All_def)

lemma All_sorted: "sorted (map ad_MAC (All r))"
  by (simp add: All_def)

lemma in_All: "reg_wf r \<Longrightarrow> a \<in> set (All r) \<longleftrightarrow> Lookup r (ad_MAC a) = Some a"
  by (force simp: set_All Lookup_def reg_wf_def)

lemma distinct_macs_All:
  assumes "reg_wf r"
  shows "distinct (map ad_MAC (All r))"
proof -
  have "map ad_MAC (map snd r) = map fst r" using assms by (auto simp: reg_wf_def)
  then have "distinct (map ad_MAC (map snd r))" using reg_wf_distinct [OF assms] by presburger
  moreover have "mset (map ad_MAC (All r)) = mset (map ad_MAC (map snd r))"
    by (metis mset_All mset_map)
  ultimately show ?thesis by (metis mset_eq_imp_distinct_iff)
qed

lemma map_filter_Cons:
  "List.map_filter f (x # xs) = (case f x of None \<Rightarrow> List.map_filter f xs | Some y \<Rightarrow> y # List.map_filter f xs)"
  by (cases "f x") (simp_all add: List.map_filter_def)

lemma transmitters_iff:
  assumes "reg_wf r"
  shows "(a, c) \<in> set (transmitters r) \<longleftrightarrow>
    Lookup r (ad_MAC a) = Some a \<and> ad_Role a = RoleTransmitter \<and> ad_Channel a = Some c"
  using in_All [OF assms, of a]
  by (auto simp: transmitters_def List.map_filter_def split: if_splits intro!: image_eqI [of _ _ a])

lemma distinct_tx_macs:
  assumes "reg_wf r"
  shows "distinct (map (ad_MAC \<circ> fst) (transmitters r))"
proof -
  have "distinct (map ad_MAC xs) \<Longrightarrow> distinct (map (ad_MAC \<circ> fst) (List.map_filter
       (\<lambda>a. if ad_Role a = RoleTransmitter then map_option (Pair a) (ad_Channel a) else None) xs))" for xs
  proof (induction xs)
    case Nil
    then show ?case by (simp add: List.map_filter_def)
  next
    case (Cons x xs)
    then show ?case
      by (auto simp: map_filter_Cons List.map_filter_def split: option.splits)
  qed
  from this [OF distinct_macs_All [OF assms]] show ?thesis
    unfolding transmitters_def .
qed

lemma distinct_transmitters: "reg_wf r \<Longrightarrow> distinct (transmitters r)"
  using distinct_tx_macs [of r] by (simp add: distinct_map)

subsection \<open>Labels\<close>

lemma itoa_nonneg_digits: "0 \<le> c \<Longrightarrow> list_all is_digit (itoa c)"
  using string_of_nat_digits [of "nat c"] by (simp add: itoa_def)

lemma itoa_inj_nonneg: "0 \<le> c \<Longrightarrow> 0 \<le> d \<Longrightarrow> itoa c = itoa d \<Longrightarrow> c = d"
  by (simp add: itoa_def)

lemma digits_after_separator:
  assumes "x @ s # ds = y @ s # es" "list_all is_digit ds" "list_all is_digit es" "\<not> is_digit s"
  shows "x = y \<and> ds = es"
proof -
  have split: "takeWhile is_digit (rev (z @ s # fs)) = rev fs" if "list_all is_digit fs" for z fs
    using that assms(4) takeWhile_append2 [of "rev fs" is_digit "s # rev z"] by (simp add: list_all_iff)
  have "rev ds = rev es" using assms(1) split [OF assms(2)] split [OF assms(3)] by metis
  then have "ds = es" by simp
  with assms(1) show ?thesis by simp
qed

lemma channel_suffix_inj:
  assumes "x @ channel_suffix c = y @ channel_suffix d" "0 \<le> c" "0 \<le> d"
  shows "x = y \<and> c = d"
proof -
  have "(x @ '' (ch'') @ CHR '' '' # itoa c = (y @ '' (ch'') @ CHR '' '' # itoa d"
    using assms(1) by (simp add: channel_suffix_def)
  then have "x @ '' (ch'' = y @ '' (ch'' \<and> itoa c = itoa d"
    by (rule digits_after_separator)
      (simp_all add: itoa_nonneg_digits assms is_digit_def less_eq_char_def)
  then show ?thesis using itoa_inj_nonneg assms(2,3) by simp
qed

text \<open>
  When labels are unambiguous: no two transmitters have the same display name on the same
  channel, and no display name looks like the decorated label of a duplicated name.
\<close>

definition unambiguous_names :: "registry \<Rightarrow> bool" where
  "unambiguous_names r \<longleftrightarrow>
     (\<forall>(a, c) \<in> set (transmitters r). \<forall>(b, d) \<in> set (transmitters r).
        (DisplayName a = DisplayName b \<and> c = d \<longrightarrow> a = b)
        \<and> DisplayName a \<noteq> DisplayName b @ channel_suffix d)"

lemma count_list_two: "x \<in> set xs \<Longrightarrow> y \<in> set xs \<Longrightarrow> x \<noteq> y \<Longrightarrow> f x = f y \<Longrightarrow> count_list (map f xs) (f x) > 1"
proof (induction xs)
  case (Cons z xs)
  have "count_list (map f xs) (f w) > 0" if "w \<in> set xs" for w
    using that by (metis count_list_0_iff image_eqI list.set_map neq0_conv)
  with Cons show ?case by (cases "x = z"; cases "y = z") force+
qed simp

lemma source_label_inj:
  assumes "reg_wf r" "unambiguous_names r"
  shows "inj_on (source_label (transmitters r)) (set (transmitters r))"
proof (rule inj_onI)
  fix t u
  assume t: "t \<in> set (transmitters r)" and u: "u \<in> set (transmitters r)"
    and eq: "source_label (transmitters r) t = source_label (transmitters r) u"
  obtain a c b d where tu: "t = (a, c)" "u = (b, d)" by (cases t, cases u)
  have chan: "0 \<le> snd t" "0 \<le> snd u"
    using t u reg_wfD [OF assms(1), of "ad_MAC a" a] reg_wfD [OF assms(1), of "ad_MAC b" b]
    by (auto simp: tu transmitters_iff [OF assms(1)] Lookup_def adapter_wf_def ValidChannel_iff)
  have amb: "DisplayName a = DisplayName b \<and> c = d \<longrightarrow> a = b" "DisplayName a \<noteq> DisplayName b @ channel_suffix d"
    "DisplayName b \<noteq> DisplayName a @ channel_suffix c"
    using assms(2) t u unfolding unambiguous_names_def tu by blast+
  show "t = u"
  proof (rule ccontr)
    assume ne: "t \<noteq> u"
    show False
    proof (cases "DisplayName a = DisplayName b")
      case True
      then have "1 < count_list (map (\<lambda>t. DisplayName (fst t)) (transmitters r)) (DisplayName a)"
        using count_list_two [OF t u ne, of "\<lambda>t. DisplayName (fst t)"] by (simp add: tu)
      with eq True have "DisplayName a @ channel_suffix c = DisplayName b @ channel_suffix d"
        by (simp add: source_label_def tu)
      then have "c = d" using channel_suffix_inj chan by (metis tu snd_conv)
      with amb(1) True ne show False by (simp add: tu)
    next
      case False
      then show False using eq amb(2,3) chan channel_suffix_inj [of "DisplayName a" c "DisplayName b" d]
        by (auto simp: source_label_def tu Let_def split: if_splits)
    qed
  qed
qed

lemma find_key_distinct:
  assumes "distinct (map f xs)" "s \<in> set xs"
  shows "List.find (\<lambda>x. f x = f s) xs = Some s"
  using assms by (induction xs) (auto simp: rev_image_eqI)

subsection \<open>Collisions\<close>

lemma two_in_filter:
  assumes "x \<in> set xs" "y \<in> set xs" "x \<noteq> y" "P x" "P y"
  shows "2 \<le> length (filter P xs)"
proof -
  have "card {x, y} \<le> card (set (filter P xs))" using assms by (intro card_mono) auto
  also have "\<dots> \<le> length (filter P xs)" by (rule card_length)
  finally show ?thesis using assms(3) by simp
qed

lemma map_of_fold_add_claim:
  "map_of (fold add_claim t m) c =
     (let macs = map src_MAC (filter (\<lambda>s. src_Channel s = c) t) in
      case map_of m c of
        None \<Rightarrow> if macs = [] then None else Some macs
      | Some ms \<Rightarrow> Some (ms @ macs))"
  by (induction t arbitrary: m) (auto simp: add_claim_def update_conv' Let_def split: option.splits)

lemma distinct_fold_add_claim: "distinct (map fst m) \<Longrightarrow> distinct (map fst (fold add_claim t m))"
  by (induction t arbitrary: m) (auto simp: add_claim_def distinct_update)

lemma map_of_filter_val:
  "distinct (map fst m) \<Longrightarrow> map_of (filter (\<lambda>(k, v). P v) m) k = (case map_of m k of None \<Rightarrow> None | Some v \<Rightarrow> if P v then Some v else None)"
proof (induction m)
  case (Cons x m)
  then show ?case
    by (cases x) (auto simp: map_of_eq_None_iff split: option.splits dest: map_of_SomeD)
qed simp

lemma Equal_iff: "Equal t u \<longleftrightarrow> t = u"
  by (auto simp: Equal_def list_all_iff intro: nth_equalityI)

lemma Sources_set: "set (Sources r) = source_of (transmitters r) ` set (transmitters r)"
  unfolding Sources_def by (rule stable.set_table)

lemma Sources_channel_valid:
  assumes "reg_wf r" "s \<in> set (Sources r)"
  shows "ValidChannel (src_Channel s)"
proof -
  from assms obtain a c where "(a, c) \<in> set (transmitters r)" "src_Channel s = c"
    by (auto simp: Sources_set source_of_def)
  then show ?thesis
    using reg_wfD [OF assms(1), of "ad_MAC a" a]
    by (auto simp: transmitters_iff [OF assms(1)] Lookup_def adapter_wf_def)
qed

lemma distinct_labels:
  assumes "reg_wf r" "unambiguous_names r"
  shows "distinct (map src_Label (Sources r))"
proof -
  have "mset (map src_Label (Sources r)) = mset (map (source_label (transmitters r)) (transmitters r))"
    unfolding Sources_def by (simp add: stable.mset_table source_of_def image_mset.compositionality comp_def)
  moreover have "distinct (map (source_label (transmitters r)) (transmitters r))"
    by (simp add: distinct_map distinct_transmitters source_label_inj assms)
  ultimately show ?thesis by (metis mset_eq_imp_distinct_iff)
qed

section \<open>Properties\<close>

text \<open>C39: the source table lists exactly the known transmitters with a reported channel, online or
  not, each exactly once with the channel it currently reports.\<close>

theorem Sources_exact:
  assumes "reg_wf r"
  shows "distinct (map src_MAC (Sources r)) \<and> sorted (Options (Sources r))
    \<and> (\<forall>m c. (\<exists>s \<in> set (Sources r). src_MAC s = m \<and> src_Channel s = c) \<longleftrightarrow>
         (\<exists>a. Lookup r m = Some a \<and> ad_Role a = RoleTransmitter \<and> ad_Channel a = Some c))"
proof (intro conjI allI)
  have "mset (map src_MAC (Sources r)) = mset (map (ad_MAC \<circ> fst) (transmitters r))"
    unfolding Sources_def by (simp add: stable.mset_table source_of_def image_mset.compositionality comp_def)
  with distinct_tx_macs [OF assms] show "distinct (map src_MAC (Sources r))"
    by (metis mset_eq_imp_distinct_iff)
  show "sorted (Options (Sources r))"
    by (simp add: Options_def Sources_def Sources_with_def Let_def)
next
  fix m c
  let ?tx = "\<lambda>a. Lookup r m = Some a \<and> ad_Role a = RoleTransmitter \<and> ad_Channel a = Some c"
  have "?tx a \<longleftrightarrow> (a, c) \<in> set (transmitters r) \<and> ad_MAC a = m" for a
    using transmitters_iff [OF assms, of a c] reg_wfD [OF assms, of m a] by (auto simp: Lookup_def)
  then have "(\<exists>a. ?tx a) \<longleftrightarrow> (\<exists>(a, d) \<in> set (transmitters r). ad_MAC a = m \<and> d = c)" by auto
  then show "(\<exists>s \<in> set (Sources r). src_MAC s = m \<and> src_Channel s = c) \<longleftrightarrow> (\<exists>a. ?tx a)"
    by (simp add: Sources_set source_of_def case_prod_beta)
qed

theorem Sources_exact_witness:
  "let r = fst (RecordObservation [] New ''10.0.0.1'' tx_info 1000)
   in reg_wf r \<and> (\<exists>s \<in> set (Sources r). src_MAC s = ''fc:19:28:6c:d2:91'' \<and> src_Channel s = 3)"
proof -
  let ?r = "fst (RecordObservation [] New ''10.0.0.1'' tx_info 1000)"
  have wf: "reg_wf ?r"
    using RecordObservation_wf [of New tx_info] New_wf by (simp add: ValidChannel_iff tx_info_def)
  have "Lookup ?r ''fc:19:28:6c:d2:91'' = Some (observed New ''fc:19:28:6c:d2:91'' ''10.0.0.1'' tx_info 1000)
    \<and> ad_Role (observed New ''fc:19:28:6c:d2:91'' ''10.0.0.1'' tx_info 1000) = RoleTransmitter
    \<and> ad_Channel (observed New ''fc:19:28:6c:d2:91'' ''10.0.0.1'' tx_info 1000) = Some 3"
    by code_simp
  then show ?thesis using Sources_exact [OF wf] wf unfolding Let_def by blast
qed

text \<open>When no two transmitters share both name and channel and no name imitates a decorated
  label, all labels are different and selecting the label of any transmitter resolves to
  exactly that transmitter.\<close>

theorem labels_selectable:
  assumes "reg_wf r" "unambiguous_names r" "s \<in> set (Sources r)"
  shows "distinct (Options (Sources r)) \<and> ByLabel (Sources r) (src_Label s) = Some s"
proof -
  have "distinct (map src_Label (Sources r))" by (rule distinct_labels [OF assms(1,2)])
  then show ?thesis using find_key_distinct [OF _ assms(3), of src_Label]
    by (simp add: Options_def ByLabel_def)
qed

definition camera :: "string \<Rightarrow> string \<Rightarrow> int \<Rightarrow> device_info" where
  "camera mac name channel =
     \<lparr>di_DevName = name, di_ProductName = ''ProAVTx ET01'', di_Model = [], di_Version = [],
      di_LanMAC = mac, di_ChannelID = channel, di_Capability = [], di_Raw = []\<rparr>"

definition two_lecterns :: registry where
  "two_lecterns = run_ops
     [OpObserve [] ''10.0.0.2'' (camera ''aa:aa:aa:aa:aa:02'' ''Lectern'' 2) 0,
      OpObserve [''aa:aa:aa:aa:aa:02''] ''10.0.0.3'' (camera ''aa:aa:aa:aa:aa:03'' ''Lectern'' 3) 0] New"

lemma two_lecterns_wf: "reg_wf two_lecterns"
proof -
  have "ops_ok New [OpObserve [] ''10.0.0.2'' (camera ''aa:aa:aa:aa:aa:02'' ''Lectern'' 2) 0,
      OpObserve [''aa:aa:aa:aa:aa:02''] ''10.0.0.3'' (camera ''aa:aa:aa:aa:aa:03'' ''Lectern'' 3) 0]"
    by code_simp
  then show ?thesis using run_ops_invariant [OF New_wf] unfolding two_lecterns_def by blast
qed

theorem labels_selectable_witness:
  "Options (Sources two_lecterns) = [''Lectern (ch 2)'', ''Lectern (ch 3)'']
   \<and> (\<exists>s \<in> set (Sources two_lecterns). src_Channel s = 3
        \<and> ByLabel (Sources two_lecterns) (src_Label s) = Some s)"
proof -
  let ?s = "\<lparr>src_Label = ''Lectern (ch 3)'', src_MAC = ''aa:aa:aa:aa:aa:03'', src_Channel = 3\<rparr>"
  have "unambiguous_names two_lecterns" "?s \<in> set (Sources two_lecterns)"
    "Options (Sources two_lecterns) = [''Lectern (ch 2)'', ''Lectern (ch 3)'']"
    by code_simp+
  then show ?thesis using labels_selectable [OF two_lecterns_wf, of ?s] by force
qed

text \<open>The source shown for a channel is the least label among the transmitters on that channel,
  and \<open>none\<close> exactly stands for a channel without transmitter.\<close>

theorem ForChannel_correct:
  "ForChannel (Sources r) (Some c) =
     (if \<exists>s. s \<in> set (Sources r) \<and> src_Channel s = c
      then Min (src_Label ` {s. s \<in> set (Sources r) \<and> src_Channel s = c}) else SourceNone)"
proof (cases "List.find (\<lambda>s. src_Channel s = c) (Sources r)")
  case None
  then have "\<not> (\<exists>s. s \<in> set (Sources r) \<and> src_Channel s = c)" by (auto simp: find_None_iff)
  with None show ?thesis by (auto simp: ForChannel_def)
next
  case (Some s)
  then have s: "s \<in> set (Sources r)" "src_Channel s = c" by (auto simp: find_Some_iff)
  have "src_Label s \<le> src_Label s'" if "s' \<in> set (Sources r)" "src_Channel s' = c" for s'
    using stable.find_least_label [of _ "map (source_of (transmitters r)) (transmitters r)" s s'] Some that
    by (simp add: Sources_def Sources_with_def Let_def)
  then have "Min (src_Label ` {s. s \<in> set (Sources r) \<and> src_Channel s = c}) = src_Label s"
    using s by (intro Min_eqI) auto
  with Some s show ?thesis by (auto simp: ForChannel_def)
qed

text \<open>\<open>Collisions\<close> maps a channel to the transmitters on it, in table order, exactly when
  there are at least two of them.\<close>

theorem Collisions_correct:
  "map_of (Collisions t) c =
     (let macs = map src_MAC (filter (\<lambda>s. src_Channel s = c) t) in if length macs \<ge> 2 then Some macs else None)"
  by (auto simp: Collisions_def map_of_filter_val distinct_fold_add_claim map_of_fold_add_claim Let_def)

text \<open>With one transmitter per channel, the shown label is the chosen one.\<close>

lemma shown_choice:
  assumes "Collisions (Sources r) = []" "ByLabel (Sources r) label = Some s"
  shows "ForChannel (Sources r) (Some (src_Channel s)) = label"
proof -
  have s: "s \<in> set (Sources r)" "src_Label s = label"
    using assms(2) by (auto simp: ByLabel_def find_Some_iff)
  obtain s' where f: "List.find (\<lambda>x. src_Channel x = src_Channel s) (Sources r) = Some s'"
    using s(1) by (cases "List.find (\<lambda>x. src_Channel x = src_Channel s) (Sources r)") (auto simp: find_None_iff)
  then have s': "s' \<in> set (Sources r)" "src_Channel s' = src_Channel s" by (auto simp: find_Some_iff)
  have "s' = s"
  proof (rule ccontr)
    assume "s' \<noteq> s"
    with s(1) s' have "length (filter (\<lambda>x. src_Channel x = src_Channel s) (Sources r)) \<ge> 2"
      by (intro two_in_filter [of s _ s']) auto
    then have "map_of (Collisions (Sources r)) (src_Channel s) \<noteq> None"
      by (auto simp: Collisions_def map_of_filter_val distinct_fold_add_claim map_of_fold_add_claim Let_def)
    with assms(1) show False by simp
  qed
  with f s show ?thesis by (simp add: ForChannel_def)
qed

text \<open>C25: the label shown for the channel of a known transmitter, sent back as a choice, leads to
  that channel, and every offered label chooses the entry it was offered for, when no two
  transmitters share both name and channel and no name imitates a decorated label (two transmitters may
  well share a name, or a channel).  If no channel is claimed twice, the choice is that very
  transmitter, and choosing any offered label and then looking at the channel shows that label.\<close>

theorem source_round_trip:
  assumes "reg_wf r" "unambiguous_names r"
    and "Lookup r (ad_MAC a) = Some a" "ad_Role a = RoleTransmitter" "ad_Channel a = Some c"
  shows "\<exists>s. ByLabel (Sources r) (ForChannel (Sources r) (Some c)) = Some s \<and> src_Channel s = c
    \<and> (\<forall>t \<in> set (Sources r). ByLabel (Sources r) (src_Label t) = Some t)
    \<and> (Collisions (Sources r) = [] \<longrightarrow> src_MAC s = ad_MAC a \<and>
        (\<forall>label t. ByLabel (Sources r) label = Some t \<longrightarrow> ForChannel (Sources r) (Some (src_Channel t)) = label))"
proof -
  have own: "ByLabel (Sources r) (src_Label t) = Some t" if "t \<in> set (Sources r)" for t
    using find_key_distinct [OF distinct_labels [OF assms(1,2)] that] by (simp add: ByLabel_def)
  have "(a, c) \<in> set (transmitters r)" using assms by (simp add: transmitters_iff)
  then have a: "source_of (transmitters r) (a, c) \<in> set (Sources r)" by (simp add: Sources_set)
  then obtain s where s: "List.find (\<lambda>s. src_Channel s = c) (Sources r) = Some s"
    by (cases "List.find (\<lambda>s. src_Channel s = c) (Sources r)") (auto simp: find_None_iff source_of_def)
  then have "s \<in> set (Sources r)" "src_Channel s = c" by (auto simp: find_Some_iff)
  then have ret: "ByLabel (Sources r) (ForChannel (Sources r) (Some c)) = Some s" "src_Channel s = c"
    using own s by (simp_all add: ForChannel_def)
  moreover have "src_MAC s = ad_MAC a" if "Collisions (Sources r) = []"
  proof -
    have "ForChannel (Sources r) (Some c) = src_Label (source_of (transmitters r) (a, c))"
      using shown_choice [OF that own [OF a]] by (simp add: source_of_def)
    then show ?thesis using ret(1) own [OF a] by (simp add: source_of_def)
  qed
  ultimately show ?thesis using own shown_choice by blast
qed

theorem source_round_trip_witness:
  "\<exists>s. ByLabel (Sources two_lecterns) (ForChannel (Sources two_lecterns) (Some 3)) = Some s \<and> src_Channel s = 3
     \<and> src_MAC s = ''aa:aa:aa:aa:aa:03'' \<and> ForChannel (Sources two_lecterns) (Some 3) = ''Lectern (ch 3)''"
proof -
  let ?a = "the (Lookup two_lecterns ''aa:aa:aa:aa:aa:03'')"
  have u: "unambiguous_names two_lecterns" by code_simp
  have "Lookup two_lecterns (ad_MAC ?a) = Some ?a" "ad_Role ?a = RoleTransmitter" "ad_Channel ?a = Some 3"
    "Collisions (Sources two_lecterns) = []" "ad_MAC ?a = ''aa:aa:aa:aa:aa:03''"
    "ForChannel (Sources two_lecterns) (Some 3) = ''Lectern (ch 3)''"
    by code_simp+
  then show ?thesis using source_round_trip [OF two_lecterns_wf u, of ?a 3] by auto
qed

definition imitating_names :: registry where
  "imitating_names = run_ops
     [OpObserve [] ''10.0.0.1'' (camera ''aa:aa:aa:aa:aa:01'' ''Cam (ch 2)'' 5) 0,
      OpObserve [''aa:aa:aa:aa:aa:01''] ''10.0.0.2'' (camera ''aa:aa:aa:aa:aa:02'' ''Cam'' 1) 0,
      OpObserve [''aa:aa:aa:aa:aa:01'', ''aa:aa:aa:aa:aa:02''] ''10.0.0.3''
        (camera ''aa:aa:aa:aa:aa:03'' ''Cam'' 2) 0] New"

text \<open>The side conditions on names are needed.  There is a reachable inventory in which
  the source shown for channel 2 is \<open>Cam (ch 2)\<close> while choosing \<open>Cam (ch 2)\<close> resolves to
  a transmitter on channel 5, because the name that a transmitter reports imitates the decorated label of
  another one.\<close>

lemma imitated_label_misroutes:
  "reg_wf imitating_names \<and> \<not> distinct (Options (Sources imitating_names))
   \<and> ForChannel (Sources imitating_names) (Some 2) = ''Cam (ch 2)''
   \<and> map_option src_Channel (ByLabel (Sources imitating_names) ''Cam (ch 2)'') = Some 5"
  by code_simp

definition named_none :: registry where
  "named_none = run_ops
     [OpObserve [] ''10.0.0.1'' (camera ''aa:aa:aa:aa:aa:01'' ''Cam'' 5) 0,
      OpSetName ''aa:aa:aa:aa:aa:01'' (Some ''none'')] New"

text \<open>A transmitter that is named \<open>none\<close>, which the name validation accepts, makes
  \<open>none\<close> a selectable option and indistinguishable from the state without transmitter.\<close>

theorem none_can_be_offered:
  "ValidateName ''none'' = Inr (Some ''none'') \<and> reg_wf named_none
   \<and> Options (Sources named_none) = [SourceNone]
   \<and> ForChannel (Sources named_none) (Some 5) = ForChannel (Sources named_none) (Some 6)"
  by code_simp

end
