(* ===== verification/Topics.thy ===== *)
theory Topics
  imports Mac Device Ipv4
begin

text \<open>
  Package \<open>internal/mqtt\<close>, files \<open>topics.go\<close> and \<open>router.go\<close>: the topic layout, the
  recognition of command topics, the parsing of channel payloads and the routing of inbound
  messages to the controller's actions.
\<close>

section \<open>Topics (\<open>topics.go\<close>)\<close>

definition Prefix :: string where "Prefix = ''dt241m''"

definition HADiscoveryPrefix :: string where "HADiscoveryPrefix = ''homeassistant''"

definition HAStatusTopic :: string where "HAStatusTopic = HADiscoveryPrefix @ ''/status''"

definition PayloadOnline :: string where "PayloadOnline = ''online''"

definition PayloadOffline :: string where "PayloadOffline = ''offline''"

definition PayloadPress :: string where "PayloadPress = ''PRESS''"

definition ControllerNodeID :: string where "ControllerNodeID = ''dt241m_controller''"

definition ControllerIdentifier :: string where "ControllerIdentifier = ''dt241m:controller''"

definition ControllerAvailability :: string where
  "ControllerAvailability = Prefix @ ''/controller/availability''"

definition ControllerRescanPress :: string where
  "ControllerRescanPress = Prefix @ ''/controller/rescan/press''"

definition ControllerKnownState :: string where
  "ControllerKnownState = Prefix @ ''/controller/known_devices/state''"

definition ControllerOnlineState :: string where
  "ControllerOnlineState = Prefix @ ''/controller/online_devices/state''"

definition DeviceChannelSetWildcard :: string where
  "DeviceChannelSetWildcard = Prefix @ ''/device/+/channel/set''"

definition DeviceNameSetWildcard :: string where
  "DeviceNameSetWildcard = Prefix @ ''/device/+/name/set''"

definition DeviceSourceSetWildcard :: string where
  "DeviceSourceSetWildcard = Prefix @ ''/device/+/source/set''"

record device_topics =
  tp_Availability :: string
  tp_ChannelState :: string
  tp_ChannelSet :: string
  tp_NameState :: string
  tp_NameSet :: string
  tp_IPState :: string
  tp_RoleState :: string
  tp_SourceState :: string
  tp_SourceSet :: string

definition device_base :: "string \<Rightarrow> string" where
  "device_base macAddr = Prefix @ ''/device/'' @ Compact macAddr"

definition ForDevice :: "string \<Rightarrow> device_topics" where
  "ForDevice macAddr =
     (let base = device_base macAddr in
      \<lparr>tp_Availability = base @ ''/availability'',
       tp_ChannelState = base @ ''/channel/state'',
       tp_ChannelSet = base @ ''/channel/set'',
       tp_NameState = base @ ''/name/state'',
       tp_NameSet = base @ ''/name/set'',
       tp_IPState = base @ ''/ip/state'',
       tp_RoleState = base @ ''/role/state'',
       tp_SourceState = base @ ''/source/state'',
       tp_SourceSet = base @ ''/source/set''\<rparr>)"

definition DeviceNodeID :: "string \<Rightarrow> string" where
  "DeviceNodeID macAddr = ''dt241m_'' @ Compact macAddr"

definition DeviceIdentifier :: "string \<Rightarrow> string" where
  "DeviceIdentifier macAddr = ''dt241m:'' @ Compact macAddr"

definition HADiscoveryTopic :: "string \<Rightarrow> string \<Rightarrow> string \<Rightarrow> string" where
  "HADiscoveryTopic component nodeID objectID =
     HADiscoveryPrefix @ ''/'' @ component @ ''/'' @ nodeID @ ''/'' @ objectID @ ''/config''"

text \<open>
  \<open>ParseDeviceCommand\<close>: the regular expression fixes the prefix, twelve hexadecimal digits
  and one of three tails.
\<close>

definition ParseDeviceCommand :: "string \<Rightarrow> (string \<times> string) option" where
  "ParseDeviceCommand topic =
     (let pre = Prefix @ ''/device/'' in
      if \<not> prefix pre topic then None
      else let rest = drop (length pre) topic; digits = take 12 rest; tail = drop 12 rest in
        if \<not> hex12 digits then None
        else map_option (\<lambda>cmd. (Normalize digits, cmd))
          (List.find (\<lambda>cmd. tail = ''/'' @ cmd @ ''/set'') [''channel'', ''name'', ''source'']))"

section \<open>Channel payloads (\<open>router.go\<close>)\<close>

text \<open>
  The payload goes through \<open>strconv.ParseFloat\<close>, so the model carries the rounding to 53
  significant bits (ties to even), the range error from \<open>2 ^ 1024\<close> on, and the conversion
  \<open>int(value)\<close>, whose result is implementation-specific outside the range of \<open>int64\<close>: that
  part is the parameter \<open>f2i\<close>.  All values are integers, because the pattern only admits
  zeros after the decimal point.
\<close>

fun bit_length :: "nat \<Rightarrow> nat" where
  "bit_length n = (if n = 0 then 0 else Suc (bit_length (n div 2)))"

declare bit_length.simps [simp del]

definition float_of_nat :: "nat \<Rightarrow> nat" where
  "float_of_nat n =
     (let k = bit_length n - 53; q = n div 2 ^ k; r = n mod 2 ^ k
      in (if 2 * r > 2 ^ k \<or> 2 * r = 2 ^ k \<and> odd q then q + 1 else q) * 2 ^ k)"

definition float_of_int :: "int \<Rightarrow> int" where
  "float_of_int i = (if i < 0 then - int (float_of_nat (nat (- i))) else int (float_of_nat (nat i)))"

definition int_of_float :: "(int \<Rightarrow> int) \<Rightarrow> int \<Rightarrow> int" where
  "int_of_float f2i v = (if - (2 ^ 63) \<le> v \<and> v < 2 ^ 63 then v else f2i v)"

text \<open>The pattern \<open>^[+-]?\d+(\.0+)?$\<close>; the result is the sign and the integer digits.\<close>

definition channelPayload :: "string \<Rightarrow> (bool \<times> string) option" where
  "channelPayload s =
     (case split_sign s of (neg, t) \<Rightarrow>
        let ds = takeWhile is_digit t; rest = dropWhile is_digit t in
        if ds \<noteq> [] \<and> (rest = [] \<or> hd rest = CHR ''.'' \<and> tl rest \<noteq> [] \<and> list_all (\<lambda>c. c = CHR ''0'') (tl rest))
        then Some (neg, ds) else None)"

definition ParseChannelPayload :: "(int \<Rightarrow> int) \<Rightarrow> string \<Rightarrow> int option" where
  "ParseChannelPayload f2i payload =
     (case channelPayload (trim_space payload) of
        None \<Rightarrow> None
      | Some (neg, ds) \<Rightarrow>
          let magnitude = float_of_nat (nat_of_digits ds) in
          if magnitude \<ge> 2 ^ 1024 then None
          else
            let value = (if neg then - int magnitude else int magnitude);
                channel = int_of_float f2i value in
            if float_of_int channel \<noteq> value \<or> \<not> ValidChannel channel then None
            else Some channel)"

section \<open>Routing (\<open>router.go\<close>)\<close>

datatype action =
    ChannelCommand string int
  | SourceCommand string string
  | NameCommand string string
  | RescanRequested
  | HomeAssistantOnline

definition Subscriptions :: "string list" where
  "Subscriptions =
     [DeviceChannelSetWildcard, DeviceSourceSetWildcard, DeviceNameSetWildcard, ControllerRescanPress, HAStatusTopic]"

text \<open>The action that a message triggers, if any.\<close>

definition NewRouter :: "(int \<Rightarrow> int) \<Rightarrow> string \<Rightarrow> string \<Rightarrow> action option" where
  "NewRouter f2i topic payload =
     (case ParseDeviceCommand topic of
        Some (mac, cmd) \<Rightarrow>
          if cmd = ''channel'' then map_option (ChannelCommand mac) (ParseChannelPayload f2i payload)
          else if cmd = ''source'' then Some (SourceCommand mac (trim_space payload))
          else if cmd = ''name'' then Some (NameCommand mac payload)
          else None
      | None \<Rightarrow>
          if topic = ControllerRescanPress then Some RescanRequested
          else if topic = HAStatusTopic then
            (if trim_space payload = PayloadOnline then Some HomeAssistantOnline else None)
          else None)"

section \<open>Lemmas\<close>

lemmas topic_defs =
  Prefix_def HADiscoveryPrefix_def HAStatusTopic_def ControllerAvailability_def ControllerRescanPress_def
  ControllerKnownState_def ControllerOnlineState_def device_base_def

lemma ForDevice_simps [simp]:
  "tp_Availability (ForDevice m) = device_base m @ ''/availability''"
  "tp_ChannelState (ForDevice m) = device_base m @ ''/channel/state''"
  "tp_ChannelSet (ForDevice m) = device_base m @ ''/channel/set''"
  "tp_NameState (ForDevice m) = device_base m @ ''/name/state''"
  "tp_NameSet (ForDevice m) = device_base m @ ''/name/set''"
  "tp_IPState (ForDevice m) = device_base m @ ''/ip/state''"
  "tp_RoleState (ForDevice m) = device_base m @ ''/role/state''"
  "tp_SourceState (ForDevice m) = device_base m @ ''/source/state''"
  "tp_SourceSet (ForDevice m) = device_base m @ ''/source/set''"
  by (simp_all add: ForDevice_def Let_def)

lemma length_Compact: "canonical_mac m \<Longrightarrow> length (Compact m) = 12"
  using Compact_hex12 by (simp add: hex12_def)

lemma device_topic_inj:
  assumes "canonical_mac m" "canonical_mac n"
  shows "device_base m @ x = device_base n @ y \<longleftrightarrow> m = n \<and> x = y"
  using assms Compact_inj length_Compact by (auto simp: device_base_def)

lemma take_drop_prefix: "pre @ d @ e = s \<Longrightarrow> length d = n \<Longrightarrow> take n (drop (length pre) s) = d \<and> drop n (drop (length pre) s) = e"
  by auto

lemma ParseDeviceCommand_iff:
  "ParseDeviceCommand topic = Some (m, cmd) \<longleftrightarrow>
     canonical_mac m \<and> cmd \<in> {''channel'', ''name'', ''source''} \<and> topic = device_base m @ ''/'' @ cmd @ ''/set''"
  (is "_ \<longleftrightarrow> ?R")
proof
  assume p: "ParseDeviceCommand topic = Some (m, cmd)"
  let ?pre = "Prefix @ ''/device/''"
  let ?rest = "drop (length ?pre) topic"
  from p have pre: "prefix ?pre topic" and hex: "hex12 (take 12 ?rest)" and m: "m = Normalize (take 12 ?rest)"
    and cmd: "cmd \<in> {''channel'', ''name'', ''source''}" "drop 12 ?rest = ''/'' @ cmd @ ''/set''"
    by (auto simp: ParseDeviceCommand_def Let_def find_Some_iff less_Suc_eq split: if_splits)
  have ne: "Normalize (take 12 ?rest) \<noteq> []"
    using hex by (auto simp: Normalize_hex12 colonise elim: hex12E)
  then have can: "canonical_mac m" unfolding m by (rule Normalize_canonical)
  have "Compact m = take 12 ?rest"
    using hex unfolding m Normalize_hex12 [OF hex] by (auto simp: colonise Compact_def elim: hex12E)
  moreover have "topic = ?pre @ take 12 ?rest @ drop 12 ?rest"
    using pre by (auto simp: prefix_def)
  ultimately show ?R using can cmd by (simp add: device_base_def)
next
  assume R: ?R
  then have len: "length (Compact m) = 12" and hex: "hex12 (Compact m)" and n: "Normalize (Compact m) = m"
    by (simp_all add: length_Compact Compact_hex12 Normalize_Compact)
  from R have "topic = (Prefix @ ''/device/'') @ Compact m @ ''/'' @ cmd @ ''/set''"
    by (simp add: device_base_def)
  with R hex n show "ParseDeviceCommand topic = Some (m, cmd)"
    using take_drop_prefix [of "Prefix @ ''/device/''" "Compact m" "''/'' @ cmd @ ''/set''" topic 12] len
    by (auto simp: ParseDeviceCommand_def Let_def)
qed

text \<open>The controller's own topics are apart from every device's.\<close>

lemma controller_topics_distinct [simp]:
  "device_base m @ x \<noteq> ControllerAvailability" "device_base m @ x \<noteq> ControllerRescanPress"
  "device_base m @ x \<noteq> ControllerKnownState" "device_base m @ x \<noteq> ControllerOnlineState"
  "device_base m @ x \<noteq> HAStatusTopic" "ControllerAvailability \<noteq> device_base m @ x"
  "ControllerRescanPress \<noteq> device_base m @ x"
  "ControllerKnownState \<noteq> device_base m @ x" "ControllerOnlineState \<noteq> device_base m @ x"
  "HAStatusTopic \<noteq> device_base m @ x"
  by (auto simp: topic_defs)

lemma ParseDeviceCommand_device_base:
  assumes "canonical_mac m"
  shows "ParseDeviceCommand (device_base m @ x) =
    map_option (Pair m) (List.find (\<lambda>cmd. x = ''/'' @ cmd @ ''/set'') [''channel'', ''name'', ''source''])"
proof (cases "ParseDeviceCommand (device_base m @ x)")
  case None
  then have "x \<noteq> ''/'' @ cmd @ ''/set''" if "cmd \<in> set [''channel'', ''name'', ''source'']" for cmd
    using that ParseDeviceCommand_iff [of "device_base m @ x" m cmd] assms by auto
  then have "List.find (\<lambda>cmd. x = ''/'' @ cmd @ ''/set'') [''channel'', ''name'', ''source''] = None"
    unfolding find_None_iff by blast
  then show ?thesis unfolding None by simp
next
  case (Some p)
  then obtain n cmd where p: "p = (n, cmd)" "ParseDeviceCommand (device_base m @ x) = Some (n, cmd)"
    by (cases p) auto
  then have "canonical_mac n" "cmd \<in> {''channel'', ''name'', ''source''}"
    "device_base m @ x = device_base n @ ''/'' @ cmd @ ''/set''"
    unfolding ParseDeviceCommand_iff by auto
  then show ?thesis using p assms by (auto simp: device_topic_inj)
qed

lemma ParseDeviceCommand_other [simp]:
  "ParseDeviceCommand ControllerRescanPress = None" "ParseDeviceCommand HAStatusTopic = None"
  "ParseDeviceCommand ControllerAvailability = None" "ParseDeviceCommand ControllerKnownState = None"
  "ParseDeviceCommand ControllerOnlineState = None"
  by (code_simp)+

section \<open>Rounding\<close>

lemma bit_length_bounds: "n \<noteq> 0 \<Longrightarrow> 2 ^ (bit_length n - 1) \<le> n \<and> n < 2 ^ bit_length n"
proof (induction n rule: bit_length.induct)
  case (1 n)
  show ?case
  proof (cases "n = 1")
    case True then show ?thesis by (simp add: bit_length.simps)
  next
    case False
    then have d: "n div 2 \<noteq> 0" using 1 by auto
    then obtain k where k: "bit_length (n div 2) = Suc k" by (cases "bit_length (n div 2)") (auto simp: bit_length.simps)
    then have "2 ^ k \<le> n div 2 \<and> n div 2 < 2 ^ Suc k" using 1 d by auto
    then show ?thesis using k 1 by (auto simp: bit_length.simps [of n])
  qed
qed

lemma bit_length_mono: "n < 2 ^ k \<Longrightarrow> bit_length n \<le> k"
proof (rule ccontr)
  assume n: "n < 2 ^ k" and k: "\<not> bit_length n \<le> k"
  then have "bit_length n \<noteq> 0" by simp
  then have "n \<noteq> 0" by (intro notI) (simp add: bit_length.simps)
  moreover have "k \<le> bit_length n - 1" using k by simp
  ultimately have "2 ^ k \<le> (2::nat) ^ (bit_length n - 1)" "2 ^ (bit_length n - 1) \<le> n"
    using bit_length_bounds by (auto intro: power_increasing)
  with n show False by simp
qed

lemma float_of_nat_small: "n < 2 ^ 53 \<Longrightarrow> float_of_nat n = n"
  using bit_length_mono [of n 53] by (simp add: float_of_nat_def)

lemma float_of_nat_large:
  assumes "2 ^ 53 \<le> n"
  shows "2 ^ 52 \<le> float_of_nat n"
proof -
  let ?k = "bit_length n - 53"
  have n: "n \<noteq> 0" using assms by (intro notI) simp
  have "(2::nat) ^ 53 < 2 ^ bit_length n" using bit_length_bounds [OF n] assms by linarith
  then have "53 < bit_length n" by (rule power_less_imp_less_exp [rotated]) simp
  then have "2 ^ 52 * 2 ^ ?k = (2::nat) ^ (bit_length n - 1)" unfolding power_add [symmetric] by (intro arg_cong [where f = "(^) 2"]) simp
  also have "\<dots> \<le> n" using bit_length_bounds [OF n] by simp
  finally have q: "2 ^ 52 \<le> n div 2 ^ ?k" by (simp add: less_eq_div_iff_mult_less_eq)
  have "n div 2 ^ ?k * 1 \<le> n div 2 ^ ?k * 2 ^ ?k" by (rule mult_le_mono) simp_all
  also have "\<dots> \<le> float_of_nat n" unfolding float_of_nat_def Let_def by (rule mult_le_mono1) simp
  finally show ?thesis using q by simp
qed

lemma ValidChannel_float: "ValidChannel c \<Longrightarrow> float_of_int c = c \<and> 0 \<le> c \<and> c \<le> 255"
  by (auto simp: ValidChannel_def MinChannel_def MaxChannel_def float_of_int_def float_of_nat_small)

lemma ParseChannelPayload_iff:
  "ParseChannelPayload f2i payload = Some c \<longleftrightarrow>
     ValidChannel c \<and>
     (\<exists>neg ds. channelPayload (trim_space payload) = Some (neg, ds) \<and>
        c = (if neg then - int (nat_of_digits ds) else int (nat_of_digits ds)))"
proof (cases "channelPayload (trim_space payload)")
  case None then show ?thesis by (simp add: ParseChannelPayload_def)
next
  case (Some p)
  obtain neg ds where p: "p = (neg, ds)" by (cases p)
  let ?n = "nat_of_digits ds"
  let ?v = "\<lambda>n. if neg then - int n else int n"
  show ?thesis
  proof (cases "?n < 2 ^ 53")
    case True
    then have f: "float_of_nat ?n = ?n" by (rule float_of_nat_small)
    have big: "(2::nat) ^ 53 < 2 ^ 1024" by simp
    have lo: "\<not> 2 ^ 1024 \<le> ?n" using True big by linarith
    have r: "int_of_float f2i (?v ?n) = ?v ?n" using True by (auto simp: int_of_float_def)
    show ?thesis using Some p f lo r ValidChannel_float
      by (auto simp: ParseChannelPayload_def Let_def)
  next
    case False
    then have big: "2 ^ 52 \<le> float_of_nat ?n" by (intro float_of_nat_large) simp
    then have ne: "\<not> ValidChannel (?v (float_of_nat ?n))" "\<not> ValidChannel (?v ?n)"
      using False by (auto simp: ValidChannel_iff)
    have "float_of_int d \<noteq> ?v (float_of_nat ?n)" if "ValidChannel d" for d
      using ValidChannel_float [OF that] that ne(1) by metis
    then show ?thesis unfolding ParseChannelPayload_def Some p Let_def using ne(2)
      by (auto simp del: float_of_int_def)
  qed
qed

section \<open>Properties\<close>

text \<open>
  C27: Recognition of command topics is sound and complete: \<open>ParseDeviceCommand\<close> answers a
  MAC and a command exactly for the channel, name and source command topic that \<open>ForDevice\<close>
  builds for a normalised MAC, and answers that MAC.
\<close>
theorem ParseDeviceCommand_correct:
  "ParseDeviceCommand topic = Some (m, cmd) \<longleftrightarrow>
     canonical_mac m \<and>
     (cmd = ''channel'' \<and> topic = tp_ChannelSet (ForDevice m) \<or>
      cmd = ''name'' \<and> topic = tp_NameSet (ForDevice m) \<or>
      cmd = ''source'' \<and> topic = tp_SourceSet (ForDevice m))"
proof -
  have "cmd \<in> {''channel'', ''name'', ''source''} \<and> topic = device_base m @ ''/'' @ cmd @ ''/set'' \<longleftrightarrow>
      cmd = ''channel'' \<and> topic = device_base m @ ''/channel/set'' \<or> cmd = ''name'' \<and> topic = device_base m @ ''/name/set'' \<or>
      cmd = ''source'' \<and> topic = device_base m @ ''/source/set''"
    by (cases "cmd = ''channel''"; cases "cmd = ''name''"; cases "cmd = ''source''") simp_all
  then show ?thesis unfolding ParseDeviceCommand_iff ForDevice_simps by simp
qed

text \<open>
  C22: A channel payload is accepted exactly when, after trimming, it is an optionally signed
  decimal integer with an optional all-zero fraction whose exact value is a channel, and the
  answer is that value: neither the rounding of \<open>ParseFloat\<close>, nor its range error, nor the
  implementation-specific conversion of huge floats (\<open>f2i\<close>, arbitrary) lets another number
  pass for a channel.
\<close>
theorem ParseChannelPayload_correct:
  "ParseChannelPayload f2i payload = Some c \<longleftrightarrow>
     0 \<le> c \<and> c \<le> 255 \<and>
     (\<exists>neg ds. channelPayload (trim_space payload) = Some (neg, ds) \<and>
        c = (if neg then - int (nat_of_digits ds) else int (nat_of_digits ds)))"
  unfolding ParseChannelPayload_iff ValidChannel_iff by simp

lemma NewRouter_device:
  "canonical_mac m \<Longrightarrow> NewRouter f2i (device_base m @ ''/channel/set'') payload =
     map_option (ChannelCommand m) (ParseChannelPayload f2i payload)"
  "canonical_mac m \<Longrightarrow> NewRouter f2i (device_base m @ ''/source/set'') payload =
     Some (SourceCommand m (trim_space payload))"
  "canonical_mac m \<Longrightarrow> NewRouter f2i (device_base m @ ''/name/set'') payload = Some (NameCommand m payload)"
  by (simp_all add: NewRouter_def ParseDeviceCommand_device_base)

lemma NewRouter_SomeE:
  assumes "NewRouter f2i topic payload = Some a"
  obtains (channel) m c where "canonical_mac m" "topic = device_base m @ ''/channel/set''"
      "ParseChannelPayload f2i payload = Some c" "a = ChannelCommand m c"
  | (source) m where "canonical_mac m" "topic = device_base m @ ''/source/set''"
      "a = SourceCommand m (trim_space payload)"
  | (name) m where "canonical_mac m" "topic = device_base m @ ''/name/set''" "a = NameCommand m payload"
  | (rescan) "topic = ControllerRescanPress" "a = RescanRequested"
  | (online) "topic = HAStatusTopic" "trim_space payload = PayloadOnline" "a = HomeAssistantOnline"
proof (cases "ParseDeviceCommand topic")
  case None
  then show ?thesis using assms rescan online by (auto simp: NewRouter_def split: if_splits)
next
  case (Some p)
  obtain m cmd where p: "p = (m, cmd)" by (cases p)
  with Some have can: "canonical_mac m" and "cmd \<in> {''channel'', ''name'', ''source''}" "topic = device_base m @ ''/'' @ cmd @ ''/set''"
    unfolding p ParseDeviceCommand_iff by simp_all
  then consider "topic = device_base m @ ''/channel/set''" | "topic = device_base m @ ''/name/set''"
    | "topic = device_base m @ ''/source/set''" by auto
  then show ?thesis
    using assms channel [OF can] source [OF can] name [OF can] by cases (simp_all add: NewRouter_device [OF can], blast)
qed

text \<open>
  C23: What the router triggers: a channel command exactly for the channel topic of a
  normalised MAC with a payload that is a channel (so the controller is only ever asked for
  channels 0 to 255), a source or a name command exactly for the topic of that MAC and with
  that payload, a rescan only from the rescan button, and the Home Assistant greeting only for
  its trimmed \<open>online\<close> payload.
\<close>
theorem NewRouter_correct:
  "NewRouter f2i topic payload = Some a \<longleftrightarrow>
     (case a of
        ChannelCommand m c \<Rightarrow> canonical_mac m \<and> topic = tp_ChannelSet (ForDevice m) \<and>
          ParseChannelPayload f2i payload = Some c \<and> ValidChannel c
      | SourceCommand m label \<Rightarrow> canonical_mac m \<and> topic = tp_SourceSet (ForDevice m) \<and> label = trim_space payload
      | NameCommand m raw \<Rightarrow> canonical_mac m \<and> topic = tp_NameSet (ForDevice m) \<and> raw = payload
      | RescanRequested \<Rightarrow> topic = ControllerRescanPress
      | HomeAssistantOnline \<Rightarrow> topic = HAStatusTopic \<and> trim_space payload = PayloadOnline)"
  (is "?L \<longleftrightarrow> ?R")
proof
  assume ?L then show ?R by (cases rule: NewRouter_SomeE) (auto simp: ParseChannelPayload_iff)
next
  have o: "ControllerRescanPress \<noteq> HAStatusTopic" by code_simp
  assume ?R then show ?L using o by (cases a) (auto simp: NewRouter_device, simp_all add: NewRouter_def)
qed

end
