(* ===== verification/Entities.thy ===== *)
theory Entities
  imports Sources Topics Json
begin

text \<open>
  Package \<open>internal/mqtt\<close>, file \<open>discovery.go\<close>: the Home Assistant discovery payloads of the
  adapters and of the controller.  An entity is a record that holds functions, as in the
  source; a \<open>map[string]any\<close> is an association list that assignments update, and its JSON
  text has the keys in sorted order.  The properties state that configuration topics and
  unique identifiers never clash, that the topics cleared for an adapter are exactly those
  that only another role uses, and that every command topic announced to Home Assistant is
  one the router sends back to the same adapter.
\<close>

section \<open>Payloads\<close>

type_synonym payload = "(string \<times> json) list"

record Origin =
  og_Version :: string
  og_SupportURL :: string

record Message =
  ms_Topic :: string
  ms_Payload :: payload

definition JSON :: "Message \<Rightarrow> string" where
  "JSON m = marshal (go_map (ms_Payload m))"

abbreviation jstrs :: "string list \<Rightarrow> json" where
  "jstrs xs \<equiv> JArr (map JStr xs)"

definition manufacturer :: string where "manufacturer = ''PWAY''"

definition controllerName :: string where "controllerName = ''DT241M Controller''"

definition iconController :: string where "iconController = ''mdi:video-switch''"

definition iconRescan :: string where "iconRescan = ''mdi:radar''"

definition iconName :: string where "iconName = ''mdi:rename-box''"

definition iconIP :: string where "iconIP = ''mdi:ip-network''"

definition iconRole :: string where "iconRole = ''mdi:swap-horizontal''"

definition iconSource :: string where "iconSource = ''mdi:video-input-hdmi''"

definition roleIcon :: "role \<Rightarrow> string" where
  "roleIcon role =
     (if role = RoleReceiver then ''mdi:monitor''
      else if role = RoleTransmitter then ''mdi:broadcast''
      else ''mdi:help-network'')"

section \<open>The entity table\<close>

record entity =
  en_component :: string
  en_object :: string
  en_name :: string
  en_category :: string
  en_icon :: "adapter \<Rightarrow> string"
  en_controllerOnly :: bool
  en_fields :: "device_topics \<Rightarrow> string list \<Rightarrow> payload"

definition staticIcon :: "string \<Rightarrow> adapter \<Rightarrow> string" where
  "staticIcon icon a = icon"

definition channelNumber :: "string \<Rightarrow> entity" where
  "channelNumber category =
     \<lparr>en_component = ''number'', en_object = ''channel'', en_name = ''Channel'', en_category = category,
      en_icon = (\<lambda>a. roleIcon (ad_Role a)), en_controllerOnly = False,
      en_fields = (\<lambda>t _.
        [(''state_topic'', JStr (tp_ChannelState t)), (''command_topic'', JStr (tp_ChannelSet t)),
         (''min'', jint MinChannel), (''max'', jint MaxChannel), (''step'', jint 1),
         (''mode'', JStr ''box''), (''optimistic'', JBool False), (''retain'', JBool False), (''qos'', jint 1)])\<rparr>"

definition receiverChannel :: entity where "receiverChannel = channelNumber []"

definition transmitterChannel :: entity where "transmitterChannel = channelNumber ''config''"

definition channelSensor :: entity where
  "channelSensor =
     \<lparr>en_component = ''sensor'', en_object = ''channel'', en_name = ''Channel'', en_category = [],
      en_icon = (\<lambda>a. roleIcon (ad_Role a)), en_controllerOnly = False,
      en_fields = (\<lambda>t _. [(''state_topic'', JStr (tp_ChannelState t))])\<rparr>"

definition sourceSelect :: entity where
  "sourceSelect =
     \<lparr>en_component = ''select'', en_object = ''source'', en_name = ''Source'', en_category = [],
      en_icon = staticIcon iconSource, en_controllerOnly = False,
      en_fields = (\<lambda>t opts.
        [(''state_topic'', JStr (tp_SourceState t)), (''command_topic'', JStr (tp_SourceSet t)),
         (''options'', jstrs opts), (''optimistic'', JBool False), (''retain'', JBool False), (''qos'', jint 1)])\<rparr>"

definition nameText :: entity where
  "nameText =
     \<lparr>en_component = ''text'', en_object = ''name'', en_name = ''Name'', en_category = ''config'',
      en_icon = staticIcon iconName, en_controllerOnly = True,
      en_fields = (\<lambda>t _.
        [(''state_topic'', JStr (tp_NameState t)), (''command_topic'', JStr (tp_NameSet t)),
         (''min'', jint 0), (''max'', jint (int MaxNameLength)), (''mode'', JStr ''text''),
         (''retain'', JBool False), (''qos'', jint 1)])\<rparr>"

definition ipSensor :: entity where
  "ipSensor =
     \<lparr>en_component = ''sensor'', en_object = ''ip_address'', en_name = ''IP address'', en_category = ''diagnostic'',
      en_icon = staticIcon iconIP, en_controllerOnly = False,
      en_fields = (\<lambda>t _. [(''state_topic'', JStr (tp_IPState t))])\<rparr>"

definition roleSensor :: entity where
  "roleSensor =
     \<lparr>en_component = ''sensor'', en_object = ''role'', en_name = ''Role'', en_category = ''diagnostic'',
      en_icon = staticIcon iconRole, en_controllerOnly = False,
      en_fields = (\<lambda>t _. [(''state_topic'', JStr (tp_RoleState t))])\<rparr>"

definition entitiesFor :: "role \<Rightarrow> entity list" where
  "entitiesFor role =
     (let common = [nameText, ipSensor, roleSensor] in
      if role = RoleReceiver then common @ [receiverChannel, sourceSelect]
      else if role = RoleTransmitter then common @ [transmitterChannel]
      else common @ [channelSensor])"

fun containsEntity :: "entity list \<Rightarrow> entity \<Rightarrow> bool" where
  "containsEntity [] e \<longleftrightarrow> False"
| "containsEntity (item # items) e \<longleftrightarrow>
     en_component item = en_component e \<and> en_object item = en_object e \<or> containsEntity items e"

definition config_topic :: "adapter \<Rightarrow> entity \<Rightarrow> string" where
  "config_topic a e = HADiscoveryTopic (en_component e) (DeviceNodeID (ad_MAC a)) (en_object e)"

definition StaleTopics :: "adapter \<Rightarrow> string list" where
  "StaleTopics a =
     map (config_topic a)
       (filter (\<lambda>candidate. \<not> containsEntity (entitiesFor (ad_Role a)) candidate)
         [receiverChannel, channelSensor, sourceSelect])"

section \<open>Messages\<close>

definition origin :: "Origin \<Rightarrow> json" where
  "origin og = go_map
     [(''name'', JStr controllerName), (''sw_version'', JStr (og_Version og)), (''support_url'', JStr (og_SupportURL og))]"

definition controllerAvailability :: json where
  "controllerAvailability = go_map
     [(''topic'', JStr ControllerAvailability), (''payload_available'', JStr PayloadOnline),
      (''payload_not_available'', JStr PayloadOffline)]"

definition controllerDevice :: "Origin \<Rightarrow> json" where
  "controllerDevice og = go_map
     [(''identifiers'', jstrs [ControllerIdentifier]), (''name'', JStr controllerName),
      (''manufacturer'', JStr ''dt241m-controller add-on''), (''model'', JStr ''DT241M MQTT bridge''),
      (''sw_version'', JStr (og_Version og))]"

definition adapterDevice :: "adapter \<Rightarrow> json" where
  "adapterDevice a =
     (let device =
        [(''identifiers'', jstrs [DeviceIdentifier (ad_MAC a)]),
         (''connections'', JArr [jstrs [''mac'', ad_MAC a]]),
         (''name'', JStr (DisplayName a)), (''manufacturer'', JStr manufacturer),
         (''via_device'', JStr ControllerIdentifier)];
        device = AList.update ''model''
          (JStr (if ad_ProductName a \<noteq> [] then ad_ProductName a
                 else if ad_Model a \<noteq> [] then ad_Model a else ''DT241M'')) device;
        device = (if ad_Model a \<noteq> [] then AList.update ''model_id'' (JStr (ad_Model a)) device else device);
        device = (if ad_Firmware a \<noteq> [] then AList.update ''sw_version'' (JStr (ad_Firmware a)) device else device)
      in go_map device)"

definition build :: "adapter \<Rightarrow> entity \<Rightarrow> string list \<Rightarrow> Origin \<Rightarrow> Message" where
  "build a e sourceOptions og =
     (let topics = ForDevice (ad_MAC a);
        payload = en_fields e topics sourceOptions;
        payload = AList.update ''name'' (JStr (en_name e)) payload;
        payload = AList.update ''unique_id'' (JStr (ad_ID a @ ''_'' @ en_object e)) payload;
        payload = AList.update ''object_id'' (JStr (ad_ID a @ ''_'' @ en_object e)) payload;
        payload = AList.update ''icon'' (JStr (en_icon e a)) payload;
        payload = AList.update ''device'' (adapterDevice a) payload;
        payload = AList.update ''origin'' (origin og) payload;
        payload = (if en_category e \<noteq> [] then AList.update ''entity_category'' (JStr (en_category e)) payload else payload);
        payload =
          (if en_controllerOnly e then AList.update ''availability'' (JArr [controllerAvailability]) payload
           else AList.update ''availability_mode'' (JStr ''all'')
             (AList.update ''availability''
               (JArr [controllerAvailability,
                  go_map [(''topic'', JStr (tp_Availability topics)), (''payload_available'', JStr PayloadOnline),
                          (''payload_not_available'', JStr PayloadOffline)]]) payload))
      in \<lparr>ms_Topic = HADiscoveryTopic (en_component e) (DeviceNodeID (ad_MAC a)) (en_object e), ms_Payload = payload\<rparr>)"

definition AdapterMessages :: "adapter \<Rightarrow> string list \<Rightarrow> Origin \<Rightarrow> Message list" where
  "AdapterMessages a sourceOptions og = map (\<lambda>e. build a e sourceOptions og) (entitiesFor (ad_Role a))"

definition ReceiverSource :: "adapter \<Rightarrow> string list \<Rightarrow> Origin \<Rightarrow> Message" where
  "ReceiverSource a opts og = build a sourceSelect opts og"

definition countSensor :: "Origin \<Rightarrow> string \<Rightarrow> string \<Rightarrow> string \<Rightarrow> Message" where
  "countSensor og objectID name stateTopic =
     \<lparr>ms_Topic = HADiscoveryTopic ''sensor'' ControllerNodeID objectID,
      ms_Payload =
        [(''name'', JStr name), (''unique_id'', JStr (ControllerNodeID @ ''_'' @ objectID)),
         (''object_id'', JStr (ControllerNodeID @ ''_'' @ objectID)), (''state_topic'', JStr stateTopic),
         (''state_class'', JStr ''measurement''), (''icon'', JStr iconController),
         (''availability'', JArr [controllerAvailability]), (''device'', controllerDevice og),
         (''origin'', origin og)]\<rparr>"

definition ControllerMessages :: "Origin \<Rightarrow> Message list" where
  "ControllerMessages og =
     [\<lparr>ms_Topic = HADiscoveryTopic ''button'' ControllerNodeID ''rescan'',
       ms_Payload =
         [(''name'', JStr ''Rescan network''), (''unique_id'', JStr (ControllerNodeID @ ''_rescan'')),
          (''object_id'', JStr (ControllerNodeID @ ''_rescan'')), (''command_topic'', JStr ControllerRescanPress),
          (''payload_press'', JStr PayloadPress), (''retain'', JBool False), (''qos'', jint 1),
          (''icon'', JStr iconRescan), (''availability'', JArr [controllerAvailability]),
          (''device'', controllerDevice og), (''origin'', origin og)]\<rparr>,
      countSensor og ''known_devices'' ''Known devices'' ControllerKnownState,
      countSensor og ''online_devices'' ''Online devices'' ControllerOnlineState]"

section \<open>Lemmas\<close>

lemmas entity_defs =
  nameText_def ipSensor_def roleSensor_def channelSensor_def sourceSelect_def
  receiverChannel_def transmitterChannel_def channelNumber_def

abbreviation entity_key :: "entity \<Rightarrow> string \<times> string" where
  "entity_key e \<equiv> (en_component e, en_object e)"

lemma containsEntity_iff: "containsEntity es e \<longleftrightarrow> entity_key e \<in> entity_key ` set es"
  by (induction es) auto

text \<open>The entities by platform and object, for each role.\<close>

definition entity_keys :: "role \<Rightarrow> (string \<times> string) list" where
  "entity_keys role =
     [(''text'', ''name''), (''sensor'', ''ip_address''), (''sensor'', ''role'')] @
     (if role = RoleReceiver then [(''number'', ''channel''), (''select'', ''source'')]
      else if role = RoleTransmitter then [(''number'', ''channel'')] else [(''sensor'', ''channel'')])"

lemma entitiesFor_keys: "map entity_key (entitiesFor role) = entity_keys role"
  by (simp add: entitiesFor_def entity_keys_def entity_defs Let_def)

lemma entity_keys_distinct: "distinct (entity_keys role)" "distinct (map snd (entity_keys role))"
  by (simp_all add: entity_keys_def)

lemma entity_key_mem: "e \<in> set (entitiesFor role) \<Longrightarrow> entity_key e \<in> set (entity_keys role)"
  unfolding entitiesFor_keys [symmetric] by simp

definition known_keys :: "(string \<times> string) set" where
  "known_keys = {(''text'', ''name''), (''sensor'', ''ip_address''), (''sensor'', ''role''),
     (''number'', ''channel''), (''select'', ''source''), (''sensor'', ''channel'')}"

lemma entity_keys_known: "set (entity_keys role) \<subseteq> known_keys"
  by (auto simp: entity_keys_def known_keys_def)

lemma Union_entity_keys: "(\<Union>role. set (entity_keys role)) = known_keys"
proof
  show "(\<Union>role. set (entity_keys role)) \<subseteq> known_keys" using entity_keys_known by blast
  have "known_keys \<subseteq> set (entity_keys RoleReceiver) \<union> set (entity_keys RoleUnknown)"
    by (simp add: known_keys_def entity_keys_def RoleReceiver_def RoleUnknown_def RoleTransmitter_def)
  then show "known_keys \<subseteq> (\<Union>role. set (entity_keys role))" by blast
qed

lemma build_topic [simp]: "ms_Topic (build a e opts og) = config_topic a e"
  by (simp add: build_def Let_def config_topic_def)

text \<open>Topic levels separated by slashes can be read back.\<close>

lemma append_sep_inj:
  "x \<notin> set xs \<Longrightarrow> x \<notin> set ys \<Longrightarrow> xs @ x # us = ys @ x # vs \<longleftrightarrow> xs = ys \<and> us = vs"
proof (induction xs arbitrary: ys)
  case Nil then show ?case by (cases ys) auto
next
  case (Cons a xs) then show ?case by (cases ys) auto
qed

lemma HADiscoveryTopic_inj:
  assumes "CHR ''/'' \<notin> set c \<union> set c' \<union> set n \<union> set n'"
  shows "HADiscoveryTopic c n x = HADiscoveryTopic c' n' y \<longleftrightarrow> c = c' \<and> n = n' \<and> x = y"
  using assms by (simp add: HADiscoveryTopic_def append_sep_inj)

definition key_topic :: "string \<Rightarrow> string \<times> string \<Rightarrow> string" where
  "key_topic m k = HADiscoveryTopic (fst k) (DeviceNodeID m) (snd k)"

lemma config_topic_key: "config_topic a e = key_topic (ad_MAC a) (entity_key e)"
  by (simp add: config_topic_def key_topic_def)

lemma slash_not_hex [simp]: "\<not> is_hex CHR ''/''"
  by code_simp

lemma Compact_no_slash: "CHR ''/'' \<notin> set (Compact m)" if "canonical_mac m"
  using Compact_hex12 [OF that] by (auto simp: hex12_def list_all_iff)

lemma known_no_slash: "k \<in> known_keys \<Longrightarrow> CHR ''/'' \<notin> set (fst k)"
  by (auto simp: known_keys_def)

lemma key_topic_inj:
  assumes "canonical_mac m" "canonical_mac n" "k \<in> known_keys" "k' \<in> known_keys"
  shows "key_topic m k = key_topic n k' \<longleftrightarrow> m = n \<and> k = k'"
proof -
  have "CHR ''/'' \<notin> set (fst k) \<union> set (fst k') \<union> set (DeviceNodeID m) \<union> set (DeviceNodeID n)"
    using known_no_slash [OF assms(3)] known_no_slash [OF assms(4)] Compact_no_slash [OF assms(1)] Compact_no_slash [OF assms(2)]
    by (simp add: DeviceNodeID_def)
  then have "key_topic m k = key_topic n k' \<longleftrightarrow> fst k = fst k' \<and> DeviceNodeID m = DeviceNodeID n \<and> snd k = snd k'"
    unfolding key_topic_def by (rule HADiscoveryTopic_inj)
  moreover have "DeviceNodeID m = DeviceNodeID n \<longleftrightarrow> m = n"
    using Compact_inj assms(1,2) by (auto simp: DeviceNodeID_def)
  ultimately show ?thesis by (metis prod_eqI)
qed

lemma same_mac_topic_inj:
  assumes "k \<in> known_keys" "k' \<in> known_keys"
  shows "key_topic m k = key_topic m k' \<longleftrightarrow> k = k'"
  using known_no_slash [OF assms(1)] known_no_slash [OF assms(2)]
  by (simp add: key_topic_def HADiscoveryTopic_def append_sep_inj prod_eq_iff)


text \<open>What \<open>build\<close> puts under the keys the properties are about.\<close>

lemma build_unique_id:
  "map_of (ms_Payload (build a e opts og)) ''unique_id'' = Some (JStr (ad_ID a @ ''_'' @ en_object e))"
  by (simp add: build_def Let_def update_conv')

lemma build_command_topic:
  "map_of (ms_Payload (build a e opts og)) ''command_topic'' = map_of (en_fields e (ForDevice (ad_MAC a)) opts) ''command_topic''"
  by (simp add: build_def Let_def update_conv')

definition availability_topics :: "json option \<Rightarrow> json option list" where
  "availability_topics j = (case j of Some (JArr xs) \<Rightarrow> map (\<lambda>x. case x of JObj ms \<Rightarrow> map_of ms ''topic'' | _ \<Rightarrow> None) xs | _ \<Rightarrow> [])"

lemma build_availability:
  "availability_topics (map_of (ms_Payload (build a e opts og)) ''availability'') =
     Some (JStr ControllerAvailability) #
     (if en_controllerOnly e then [] else [Some (JStr (tp_Availability (ForDevice (ad_MAC a))))])"
  by (simp add: build_def Let_def update_conv' availability_topics_def controllerAvailability_def go_map_def)

lemma distinct_concat_key:
  assumes "distinct (map key xs)" "\<And>x. x \<in> set xs \<Longrightarrow> distinct (f x)"
    and "\<And>x y z. x \<in> set xs \<Longrightarrow> y \<in> set xs \<Longrightarrow> z \<in> set (f x) \<Longrightarrow> z \<in> set (f y) \<Longrightarrow> key x = key y"
  shows "distinct (concat (map f xs))"
  using assms
proof (induction xs)
  case (Cons x xs)
  have "distinct (concat (map f xs))"
    by (rule Cons.IH) (use Cons.prems(1,2) in simp_all, meson Cons.prems(3) list.set_intros(2))
  moreover have "set (f x) \<inter> set (concat (map f xs)) = {}" 
    using Cons.prems(1) Cons.prems(3) [of x] by (fastforce simp: image_iff)
  ultimately show ?case using Cons.prems(2) by simp
qed simp


section \<open>Properties\<close>

definition unique_id :: "Message \<Rightarrow> json option" where
  "unique_id m = map_of (ms_Payload m) ''unique_id''"

definition all_messages :: "registry \<Rightarrow> string list \<Rightarrow> Origin \<Rightarrow> Message list" where
  "all_messages r opts og = ControllerMessages og @ concat (map (\<lambda>a. AdapterMessages a opts og) (All r))"

lemma AdapterMessages_topics:
  "map ms_Topic (AdapterMessages a opts og) = map (key_topic (ad_MAC a)) (entity_keys (ad_Role a))"
  unfolding AdapterMessages_def entitiesFor_keys [symmetric] by (simp add: config_topic_key)

lemma AdapterMessages_ids:
  "map unique_id (AdapterMessages a opts og) =
     map (\<lambda>k. Some (JStr (ad_ID a @ ''_'' @ snd k))) (entity_keys (ad_Role a))"
  unfolding AdapterMessages_def entitiesFor_keys [symmetric] by (simp add: unique_id_def build_unique_id)

lemma ControllerMessages_topics:
  "map ms_Topic (ControllerMessages og) =
     [HADiscoveryTopic ''button'' ControllerNodeID ''rescan'', HADiscoveryTopic ''sensor'' ControllerNodeID ''known_devices'',
      HADiscoveryTopic ''sensor'' ControllerNodeID ''online_devices'']"
  by (simp add: ControllerMessages_def countSensor_def)

lemma ControllerMessages_ids:
  "map unique_id (ControllerMessages og) =
     map (\<lambda>x. Some (JStr (ControllerNodeID @ ''_'' @ x))) [''rescan'', ''known_devices'', ''online_devices'']"
  by (simp add: ControllerMessages_def countSensor_def unique_id_def)

lemma controller_not_Compact:
  assumes "canonical_mac m"
  shows "''dt241m_'' @ Compact m @ x \<noteq> ControllerNodeID @ y"
proof
  assume eq: "''dt241m_'' @ Compact m @ x = ControllerNodeID @ y"
  have "length (Compact m) = 12" and hex: "list_all is_hex (Compact m)"
    using Compact_hex12 [OF assms] by (simp_all add: hex12_def)
  then have "(''dt241m_'' @ Compact m @ x) ! 8 = Compact m ! 1" "is_hex (Compact m ! 1)"
    by (simp_all add: nth_append list_all_length)
  moreover have "(ControllerNodeID @ y) ! 8 = CHR ''o''" by (simp add: ControllerNodeID_def)
  moreover have "\<not> is_hex CHR ''o''" by code_simp
  ultimately show False using eq by metis
qed

lemma distinct_adapter_topics:
  assumes "canonical_mac m" shows "distinct (map (key_topic m) (entity_keys role))"
  using entity_keys_distinct(1) entity_keys_known [of role] assms
  by (auto simp: distinct_map inj_on_def key_topic_inj subset_iff)

lemma adapter_wf_key: "reg_wf r \<Longrightarrow> a \<in> set (All r) \<Longrightarrow> canonical_mac (ad_MAC a) \<and> ad_ID a = AdapterID (ad_MAC a)"
  by (auto simp: in_All Lookup_def adapter_wf_def dest: reg_wfD)

lemma entity_keys_objects: "k \<in> set (entity_keys role) \<Longrightarrow> k \<in> known_keys"
  using entity_keys_known by blast

lemma adapter_identity:
  assumes "reg_wf r" "a \<in> set (All r)"
  shows "canonical_mac (ad_MAC a)" "ad_ID a = ''dt241m_'' @ Compact (ad_MAC a)"
  using adapter_wf_key [OF assms] by (simp_all add: AdapterID_def)

lemma controller_topic_apart:
  assumes "canonical_mac m" "k \<in> known_keys" "CHR ''/'' \<notin> set c"
  shows "key_topic m k \<noteq> HADiscoveryTopic c ControllerNodeID x"
proof -
  have n: "DeviceNodeID m \<noteq> ControllerNodeID"
    using controller_not_Compact [OF assms(1), of "[]" "[]"] by (simp add: DeviceNodeID_def)
  have "CHR ''/'' \<notin> set (fst k) \<union> set c \<union> set (DeviceNodeID m) \<union> set ControllerNodeID"
    using Compact_no_slash [OF assms(1)] known_no_slash [OF assms(2)] assms(3)
    by (simp add: DeviceNodeID_def ControllerNodeID_def)
  then show ?thesis using n by (simp add: key_topic_def HADiscoveryTopic_inj)
qed

lemma distinct_adapters_topics:
  assumes wf: "reg_wf r"
  shows "distinct (concat (map (\<lambda>a. map (key_topic (ad_MAC a)) (entity_keys (ad_Role a))) (All r)))"
  by (rule distinct_concat_key [where key = ad_MAC])
    (use distinct_macs_All [OF wf] in
      \<open>auto simp: adapter_identity(1) [OF wf] distinct_adapter_topics key_topic_inj entity_keys_objects\<close>)

lemma distinct_adapters_ids:
  assumes wf: "reg_wf r"
  shows "distinct (concat (map (\<lambda>a. map (\<lambda>k. Some (JStr (ad_ID a @ ''_'' @ snd k))) (entity_keys (ad_Role a))) (All r)))"
proof (rule distinct_concat_key [where key = ad_MAC], goal_cases)
  case 1 show ?case by (rule distinct_macs_All [OF wf])
next
  case (2 a)
  have "inj_on snd (set (entity_keys (ad_Role a)))" using entity_keys_distinct(2) by (simp add: distinct_map)
  then show ?case using entity_keys_distinct(1) by (auto simp: distinct_map inj_on_def)
next
  case (3 a b z)
  note can = adapter_identity [OF wf]
  have "Compact (ad_MAC a) = Compact (ad_MAC b)"
    using 3 length_Compact [OF can(1) [OF 3(1)]] length_Compact [OF can(1) [OF 3(2)]] by (auto simp: can(2))
  then show ?case using can(1) 3(1,2) Compact_inj by blast
qed

text \<open>
  C29: Over the whole inventory, no two entities that the add-on announces (those of the
  controller included) share a configuration topic, and no two share a \<open>unique_id\<close>.
\<close>
theorem discovery_identifiers_unique:
  assumes wf: "reg_wf r"
  shows "distinct (map ms_Topic (all_messages r opts og)) \<and> distinct (map unique_id (all_messages r opts og))"
proof
  note can = adapter_identity [OF wf]
  have ne: "z \<noteq> HADiscoveryTopic c ControllerNodeID x"
    if h: "a \<in> set (All r)" "z \<in> key_topic (ad_MAC a) ` set (entity_keys (ad_Role a))" "CHR ''/'' \<notin> set c" for a z c x
  proof -
    obtain k where k: "k \<in> set (entity_keys (ad_Role a))" "z = key_topic (ad_MAC a) k" using h(2) by blast
    show ?thesis unfolding k(2) by (rule controller_topic_apart [OF can(1) [OF h(1)] entity_keys_objects [OF k(1)] h(3)])
  qed
  have "set (map ms_Topic (ControllerMessages og)) \<inter>
      set (concat (map (\<lambda>a. map (key_topic (ad_MAC a)) (entity_keys (ad_Role a))) (All r))) = {}"
    unfolding ControllerMessages_topics
    using ne [of _ _ "''button''" "''rescan''"] ne [of _ _ "''sensor''" "''known_devices''"]
      ne [of _ _ "''sensor''" "''online_devices''"] by (simp add: disjoint_iff) blast
  moreover have "distinct (map ms_Topic (ControllerMessages og))"
    unfolding ControllerMessages_topics by code_simp
  ultimately show "distinct (map ms_Topic (all_messages r opts og))"
    unfolding all_messages_def map_append map_concat list.map_comp comp_def AdapterMessages_topics distinct_append
    using distinct_adapters_topics [OF wf] by blast
  have "ControllerNodeID @ y \<noteq> ad_ID a @ x" if "a \<in> set (All r)" for a x y
    using controller_not_Compact [OF can(1) [OF that], of x y] by (metis append.assoc can(2) [OF that])
  then have "set (map unique_id (ControllerMessages og)) \<inter>
      set (concat (map (\<lambda>a. map (\<lambda>k. Some (JStr (ad_ID a @ ''_'' @ snd k))) (entity_keys (ad_Role a))) (All r))) = {}"
    unfolding ControllerMessages_ids by (simp add: disjoint_iff image_iff)
  moreover have "distinct (map unique_id (ControllerMessages og))"
    unfolding ControllerMessages_ids by simp
  ultimately show "distinct (map unique_id (all_messages r opts og))"
    unfolding all_messages_def map_append map_concat list.map_comp comp_def AdapterMessages_ids distinct_append
    using distinct_adapters_ids [OF wf] by blast
qed

theorem discovery_identifiers_unique_witness:
  "let r = fst (RecordObservation [''fc:19:28:6c:d6:d8''] (fst (RecordObservation [] New ''10.0.0.1'' rx_info 1000)) ''10.0.0.2'' tx_info 2000);
     msgs = all_messages r (Options (Sources r)) \<lparr>og_Version = ''2.1.0'', og_SupportURL = []\<rparr>
   in reg_wf r \<and> length (All r) = 2 \<and> distinct (map unique_id msgs)"
proof -
  define r where "r = fst (RecordObservation [''fc:19:28:6c:d6:d8''] (fst (RecordObservation [] New ''10.0.0.1'' rx_info 1000)) ''10.0.0.2'' tx_info 2000)"
  define og where "og = \<lparr>og_Version = ''2.1.0'', og_SupportURL = []\<rparr>"
  have wf: "reg_wf r" unfolding r_def by code_simp
  moreover have "length (All r) = 2" unfolding r_def by code_simp
  moreover note discovery_identifiers_unique [OF wf, of "Options (Sources r)" og]
  ultimately show ?thesis unfolding Let_def r_def [symmetric] og_def [symmetric] by simp
qed

text \<open>
  C31: The topics cleared for an adapter are exactly the configuration topics that the add-on
  uses for this adapter in some role but not in its present one, so after a change of role no
  entity of the old role stays behind and no current entity is cleared.
\<close>
theorem StaleTopics_exact:
  "set (StaleTopics a) =
     (\<Union>role. config_topic a ` set (entitiesFor role)) - config_topic a ` set (entitiesFor (ad_Role a))"
proof -
  let ?t = "key_topic (ad_MAC a)"
  have cand: "set (map entity_key [receiverChannel, channelSensor, sourceSelect]) =
      {(''number'', ''channel''), (''sensor'', ''channel''), (''select'', ''source'')}"
    by (simp add: entity_defs)
  have im: "config_topic a ` set es = ?t ` set (map entity_key es)" for es
    by (auto simp: config_topic_key)
  have keys: "{(''number'', ''channel''), (''sensor'', ''channel''), (''select'', ''source'')} - set (entity_keys (ad_Role a))
      = known_keys - set (entity_keys (ad_Role a))"
    by (auto simp: known_keys_def entity_keys_def)
  have "set (StaleTopics a) = ?t ` (set (map entity_key [receiverChannel, channelSensor, sourceSelect]) - set (entity_keys (ad_Role a)))"
    unfolding StaleTopics_def set_map im set_filter containsEntity_iff config_topic_key
      entitiesFor_keys [symmetric] by blast
  also have "\<dots> = ?t ` (known_keys - set (entity_keys (ad_Role a)))" unfolding cand keys ..
  also have "\<dots> = ?t ` known_keys - ?t ` set (entity_keys (ad_Role a))"
    using entity_keys_known by (intro inj_on_image_set_diff [where C = known_keys]) (auto simp: inj_on_def same_mac_topic_inj)
  also have "\<dots> = (\<Union>role. config_topic a ` set (entitiesFor role)) - config_topic a ` set (entitiesFor (ad_Role a))"
    unfolding im entitiesFor_keys Union_entity_keys [symmetric] by blast
  finally show ?thesis .
qed

text \<open>
  C32: Every command topic announced to Home Assistant comes back: for each entity announced
  for an adapter of the inventory, a live message on its \<open>command_topic\<close> is recognised as a
  command for that very adapter, and the entity's availability depends on the controller's
  topic and, unless it is the name, on that adapter's own topic.
\<close>
theorem announced_commands_routed:
  assumes "reg_wf r" "Lookup r m = Some a" "e \<in> set (entitiesFor (ad_Role a))"
  shows "(case map_of (ms_Payload (build a e opts og)) ''command_topic'' of
       None \<Rightarrow> en_component e = ''sensor''
     | Some j \<Rightarrow> \<exists>topic. j = JStr topic \<and> ParseDeviceCommand topic = Some (m, en_object e)) \<and>
   availability_topics (map_of (ms_Payload (build a e opts og)) ''availability'') =
     Some (JStr ControllerAvailability) #
     (if en_object e = ''name'' then [] else [Some (JStr (tp_Availability (ForDevice m)))])"
proof -
  have m: "ad_MAC a = m" "canonical_mac m"
    using assms reg_wfD reg_wf_key by (auto simp: Lookup_def)
  have "e \<in> {nameText, ipSensor, roleSensor, receiverChannel, sourceSelect, transmitterChannel, channelSensor}"
    using assms(3) by (auto simp: entitiesFor_def Let_def split: if_splits)
  then show ?thesis unfolding build_command_topic build_availability m(1)
    by (elim insertE emptyE) (simp_all add: entity_defs ParseDeviceCommand_device_base [OF m(2)])
qed

theorem announced_commands_routed_witness:
  "let r = fst (RecordObservation [] New ''10.0.0.1'' rx_info 1000);
     m = ''fc:19:28:6c:d6:d8'';
     a = the (Lookup r m)
   in reg_wf r \<and> Lookup r m = Some a \<and> sourceSelect \<in> set (entitiesFor (ad_Role a)) \<and>
     map_of (ms_Payload (build a sourceSelect [] \<lparr>og_Version = [], og_SupportURL = []\<rparr>)) ''command_topic''
       = Some (JStr ''dt241m/device/fc19286cd6d8/source/set'') \<and>
     ParseDeviceCommand ''dt241m/device/fc19286cd6d8/source/set'' = Some (m, ''source'')"
proof -
  define r where "r = fst (RecordObservation [] New ''10.0.0.1'' rx_info 1000)"
  define m where "m = ''fc:19:28:6c:d6:d8''"
  have wf: "reg_wf r" unfolding r_def by code_simp
  have l: "Lookup r m = Some (the (Lookup r m))" "ad_Role (the (Lookup r m)) = RoleReceiver" "ad_MAC (the (Lookup r m)) = m"
    unfolding r_def m_def by code_simp+
  have e: "sourceSelect \<in> set (entitiesFor (ad_Role (the (Lookup r m))))" unfolding l(2) by (simp add: entitiesFor_def)
  have t: "tp_SourceSet (ForDevice m) = ''dt241m/device/fc19286cd6d8/source/set''" unfolding m_def by code_simp
  have c: "map_of (ms_Payload (build (the (Lookup r m)) sourceSelect [] og)) ''command_topic'' = Some (JStr (tp_SourceSet (ForDevice m)))"
    for og unfolding build_command_topic l(3) by (simp add: sourceSelect_def)
  from announced_commands_routed [OF wf l(1) e, of "[]" "\<lparr>og_Version = [], og_SupportURL = []\<rparr>"]
  have "ParseDeviceCommand (tp_SourceSet (ForDevice m)) = Some (m, ''source'')"
    unfolding c by (simp add: sourceSelect_def)
  then show ?thesis unfolding Let_def r_def [symmetric] m_def [symmetric] using wf l(1) e c unfolding t by simp
qed

end
