(* ===== verification/Publisher.thy ===== *)
theory Publisher
  imports Entities
begin

text \<open>
  Package \<open>internal/controller\<close>, file \<open>publish.go\<close>: the presenter that turns registry state
  into retained MQTT messages.  Every message is published with the retain flag, and a failed
  publish is only logged, so the model records the publishes attempted, in order
  (\<open>pb_sent\<close>), and \<open>broker\<close> replays those that the broker received on its retained
  messages.  The registry that the methods read is an argument.

  The specification is \<open>shown\<close>: what the retained messages must be for a given inventory.  A
  full sweep establishes it whatever the broker held before, which is what reconnecting relies
  on, and each incremental update preserves it, although the incremental updates leave out
  everything they take to be unchanged.
\<close>

section \<open>Definitions\<close>

type_synonym publish_call = "string \<times> string"

record publisher =
  pb_origin :: Origin
  pb_lastCounts :: "counts option"
  pb_lastSources :: source_table
  pb_sent :: "publish_call list"

definition publish :: "string \<Rightarrow> string \<Rightarrow> publisher \<Rightarrow> publisher" where
  "publish topic payload p = p\<lparr>pb_sent := pb_sent p @ [(topic, payload)]\<rparr>"

text \<open>
  The outcome of \<open>conn.Publish\<close>: the \<open>n\<close>-th attempt reaches the broker when \<open>ok n\<close>, and is lost
  otherwise (no session, or the connection breaks before the message is out).  Nothing is tried again.
\<close>

fun received :: "(nat \<Rightarrow> bool) \<Rightarrow> publish_call list \<Rightarrow> publish_call list" where
  "received ok [] = []"
| "received ok (c # cs) = (if ok 0 then [c] else []) @ received (ok \<circ> Suc) cs"

definition p_discoveryWith :: "adapter \<Rightarrow> source_table \<Rightarrow> publisher \<Rightarrow> publisher" where
  "p_discoveryWith a table p =
     (let p = fold (\<lambda>topic. publish topic []) (StaleTopics a) p
      in fold (\<lambda>m. publish (ms_Topic m) (JSON m)) (AdapterMessages a (Options table) (pb_origin p)) p)"

definition p_discovery :: "registry \<Rightarrow> adapter \<Rightarrow> publisher \<Rightarrow> publisher" where
  "p_discovery r a p = p_discoveryWith a (Sources r) p"

definition p_availability :: "adapter \<Rightarrow> publisher \<Rightarrow> publisher" where
  "p_availability a p =
     publish (tp_Availability (ForDevice (ad_MAC a))) (if ad_Online a then PayloadOnline else PayloadOffline) p"

definition p_name :: "adapter \<Rightarrow> publisher \<Rightarrow> publisher" where
  "p_name a p = publish (tp_NameState (ForDevice (ad_MAC a))) (DisplayName a) p"

definition p_stateWith :: "adapter \<Rightarrow> source_table \<Rightarrow> publisher \<Rightarrow> publisher" where
  "p_stateWith a table p =
     (let t = ForDevice (ad_MAC a);
        p = (case ad_Channel a of None \<Rightarrow> p | Some c \<Rightarrow> publish (tp_ChannelState t) (itoa c) p);
        p = (if ad_IP a \<noteq> [] then publish (tp_IPState t) (ad_IP a) p else p);
        p = publish (tp_RoleState t) (ad_Role a) p
      in if ad_Role a = RoleReceiver then publish (tp_SourceState t) (ForChannel table (ad_Channel a)) p else p)"

definition p_state :: "registry \<Rightarrow> adapter \<Rightarrow> publisher \<Rightarrow> publisher" where
  "p_state r a p = p_stateWith a (Sources r) p"

definition publishCounts :: "counts \<Rightarrow> publisher \<Rightarrow> publisher" where
  "publishCounts c p =
     publish ControllerOnlineState (itoa (int (ct_Online c)))
       (publish ControllerKnownState (itoa (int (ct_Known c))) p)"

definition p_counts :: "registry \<Rightarrow> publisher \<Rightarrow> publisher" where
  "p_counts r p =
     (let c = Counts r; unchanged = (pb_lastCounts p = Some c); p = p\<lparr>pb_lastCounts := Some c\<rparr>
      in if \<not> unchanged then publishCounts c p else p)"

text \<open>The warning about channel collisions is log output and has no effect here.\<close>

definition refreshSources :: "registry \<Rightarrow> publisher \<Rightarrow> publisher" where
  "refreshSources r p =
     (let table = Sources r in
      if Equal table (pb_lastSources p) then p
      else fold (\<lambda>rx p.
          if ad_Role rx \<noteq> RoleReceiver then p
          else let m = ReceiverSource rx (Options table) (pb_origin p)
            in publish (tp_SourceState (ForDevice (ad_MAC rx))) (ForChannel table (ad_Channel rx))
                 (publish (ms_Topic m) (JSON m) p))
        (All r) (p\<lparr>pb_lastSources := table\<rparr>))"

definition p_observation :: "registry \<Rightarrow> observation \<Rightarrow> publisher \<Rightarrow> publisher" where
  "p_observation r obs p =
     (let a = ob_Adapter obs;
        p = (case ob_Displaced obs of None \<Rightarrow> p | Some d \<Rightarrow> p_availability d p);
        p = (if ob_Created obs \<or> ob_MetadataChanged obs then p_name a (p_discovery r a p) else p);
        p = (if ob_CameOnline obs then p_availability a p else p);
        p = (if ob_Created obs \<or> ob_StateChanged obs \<or> ob_RoleChanged obs then p_state r a p else p);
        p = (if ob_CameOnline obs \<or> ob_Displaced obs \<noteq> None then p_counts r p else p)
      in if ad_Role a = RoleTransmitter \<or> ob_RoleChanged obs then refreshSources r p else p)"

definition p_renamed :: "registry \<Rightarrow> adapter \<Rightarrow> publisher \<Rightarrow> publisher" where
  "p_renamed r a p =
     (let p = p_discovery r a (p_name a p)
      in if ad_Role a = RoleTransmitter then refreshSources r p else p)"

definition p_offline :: "registry \<Rightarrow> adapter \<Rightarrow> publisher \<Rightarrow> publisher" where
  "p_offline r a p = p_counts r (p_availability a p)"

definition p_rejectedName :: "adapter \<Rightarrow> publisher \<Rightarrow> publisher" where
  "p_rejectedName a p = p_name a p"

definition p_scanFinished :: "registry \<Rightarrow> publisher \<Rightarrow> publisher" where
  "p_scanFinished r p = p_counts r p"

definition p_everything :: "registry \<Rightarrow> publisher \<Rightarrow> publisher" where
  "p_everything r p =
     (let p = publish ControllerAvailability PayloadOnline p;
        p = fold (\<lambda>m. publish (ms_Topic m) (JSON m)) (ControllerMessages (pb_origin p)) p;
        table = Sources r;
        p = p\<lparr>pb_lastSources := table\<rparr>;
        p = fold (\<lambda>a p. p_stateWith a table (p_name a (p_availability a (p_discoveryWith a table p)))) (All r) p;
        c = Counts r
      in publishCounts c (p\<lparr>pb_lastCounts := Some c\<rparr>))"

definition controllerOffline :: "publisher \<Rightarrow> publisher" where
  "controllerOffline p = publish ControllerAvailability PayloadOffline p"

section \<open>The broker and the specification\<close>

text \<open>A retained message with an empty payload removes the retained message of its topic.\<close>

definition nonempty :: "string \<Rightarrow> string option" where
  "nonempty v = (if v = [] then None else Some v)"

fun broker :: "publish_call list \<Rightarrow> (string \<Rightarrow> string option) \<Rightarrow> string \<Rightarrow> string option" where
  "broker [] b = b"
| "broker ((t, v) # cs) b = broker cs (b(t := nonempty v))"

text \<open>What the broker must hold for one adapter, given the catalogue of sources.\<close>

definition adapter_shown :: "source_table \<Rightarrow> Origin \<Rightarrow> (string \<Rightarrow> string option) \<Rightarrow> adapter \<Rightarrow> bool" where
  "adapter_shown table og b a \<longleftrightarrow>
     (let t = ForDevice (ad_MAC a) in
      b (tp_Availability t) = Some (if ad_Online a then PayloadOnline else PayloadOffline) \<and>
      b (tp_NameState t) = nonempty (DisplayName a) \<and>
      (\<forall>c. ad_Channel a = Some c \<longrightarrow> b (tp_ChannelState t) = Some (itoa c)) \<and>
      (ad_IP a \<noteq> [] \<longrightarrow> b (tp_IPState t) = Some (ad_IP a)) \<and>
      b (tp_RoleState t) = nonempty (ad_Role a) \<and>
      (ad_Role a = RoleReceiver \<longrightarrow> b (tp_SourceState t) = nonempty (ForChannel table (ad_Channel a))) \<and>
      (\<forall>m \<in> set (AdapterMessages a (Options table) og). b (ms_Topic m) = Some (JSON m)) \<and>
      (\<forall>s \<in> set (StaleTopics a). b s = None))"

definition shown :: "registry \<Rightarrow> Origin \<Rightarrow> (string \<Rightarrow> string option) \<Rightarrow> bool" where
  "shown r og b \<longleftrightarrow>
     b ControllerAvailability = Some PayloadOnline \<and>
     (\<forall>m \<in> set (ControllerMessages og). b (ms_Topic m) = Some (JSON m)) \<and>
     b ControllerKnownState = Some (itoa (int (ct_Known (Counts r)))) \<and>
     b ControllerOnlineState = Some (itoa (int (ct_Online (Counts r)))) \<and>
     list_all (adapter_shown (Sources r) og b) (All r)"

text \<open>What the publisher remembers is what it would publish now.\<close>

definition up_to_date :: "registry \<Rightarrow> publisher \<Rightarrow> bool" where
  "up_to_date r p \<longleftrightarrow> pb_lastCounts p = Some (Counts r) \<and> pb_lastSources p = Sources r"

section \<open>The calls each method makes\<close>

definition emit :: "publish_call list \<Rightarrow> publisher \<Rightarrow> publisher" where
  "emit cs p = p\<lparr>pb_sent := pb_sent p @ cs\<rparr>"

lemma emit_simps [simp]:
  "pb_origin (emit cs p) = pb_origin p" "pb_lastCounts (emit cs p) = pb_lastCounts p"
  "pb_lastSources (emit cs p) = pb_lastSources p" "pb_sent (emit cs p) = pb_sent p @ cs"
  "emit ds (emit cs p) = emit (cs @ ds) p" "emit [] p = p"
  by (simp_all add: emit_def)

lemma publish_emit: "publish t v = emit [(t, v)]"
  by (simp add: publish_def emit_def fun_eq_iff)

lemma fold_emit: "fold (\<lambda>x. emit (f x)) xs p = emit (concat (map f xs)) p"
  by (induction xs arbitrary: p) simp_all

lemma fold_emit_origin:
  assumes "\<And>x p. g x p = emit (f (pb_origin p) x) p"
  shows "fold g xs p = emit (concat (map (f (pb_origin p)) xs)) p"
  by (induction xs arbitrary: p) (simp_all add: assms)

definition c_availability :: "adapter \<Rightarrow> publish_call list" where
  "c_availability a = [(tp_Availability (ForDevice (ad_MAC a)), if ad_Online a then PayloadOnline else PayloadOffline)]"

definition c_name :: "adapter \<Rightarrow> publish_call list" where
  "c_name a = [(tp_NameState (ForDevice (ad_MAC a)), DisplayName a)]"

definition c_discovery :: "source_table \<Rightarrow> Origin \<Rightarrow> adapter \<Rightarrow> publish_call list" where
  "c_discovery table og a =
     map (\<lambda>t. (t, [])) (StaleTopics a) @ map (\<lambda>m. (ms_Topic m, JSON m)) (AdapterMessages a (Options table) og)"

definition c_state :: "source_table \<Rightarrow> adapter \<Rightarrow> publish_call list" where
  "c_state table a =
     (let t = ForDevice (ad_MAC a) in
      (case ad_Channel a of None \<Rightarrow> [] | Some c \<Rightarrow> [(tp_ChannelState t, itoa c)]) @
      (if ad_IP a \<noteq> [] then [(tp_IPState t, ad_IP a)] else []) @ [(tp_RoleState t, ad_Role a)] @
      (if ad_Role a = RoleReceiver then [(tp_SourceState t, ForChannel table (ad_Channel a))] else []))"

definition c_counts :: "counts \<Rightarrow> publish_call list" where
  "c_counts c = [(ControllerKnownState, itoa (int (ct_Known c))), (ControllerOnlineState, itoa (int (ct_Online c)))]"

definition c_source :: "source_table \<Rightarrow> Origin \<Rightarrow> adapter \<Rightarrow> publish_call list" where
  "c_source table og rx =
     (if ad_Role rx \<noteq> RoleReceiver then []
      else let m = ReceiverSource rx (Options table) og
        in [(ms_Topic m, JSON m), (tp_SourceState (ForDevice (ad_MAC rx)), ForChannel table (ad_Channel rx))])"

definition c_controller :: "Origin \<Rightarrow> publish_call list" where
  "c_controller og = (ControllerAvailability, PayloadOnline) # map (\<lambda>m. (ms_Topic m, JSON m)) (ControllerMessages og)"

definition c_adapter :: "source_table \<Rightarrow> Origin \<Rightarrow> adapter \<Rightarrow> publish_call list" where
  "c_adapter table og a = c_discovery table og a @ c_availability a @ c_name a @ c_state table a"

definition c_everything :: "registry \<Rightarrow> Origin \<Rightarrow> publish_call list" where
  "c_everything r og =
     c_controller og @ concat (map (c_adapter (Sources r) og) (All r)) @ c_counts (Counts r)"

lemma p_availability_emit: "p_availability a p = emit (c_availability a) p"
  by (simp add: p_availability_def c_availability_def publish_emit)

lemma p_name_emit: "p_name a p = emit (c_name a) p"
  by (simp add: p_name_def c_name_def publish_emit)

lemma p_discoveryWith_emit: "p_discoveryWith a table p = emit (c_discovery table (pb_origin p) a) p"
  by (simp add: p_discoveryWith_def c_discovery_def publish_emit fold_emit Let_def)

lemma p_stateWith_emit: "p_stateWith a table p = emit (c_state table a) p"
  by (simp add: p_stateWith_def c_state_def publish_emit Let_def split: option.split)

lemma publishCounts_emit: "publishCounts c p = emit (c_counts c) p"
  by (simp add: publishCounts_def c_counts_def publish_emit)

lemma p_counts_emit:
  "p_counts r p = emit (if pb_lastCounts p = Some (Counts r) then [] else c_counts (Counts r)) (p\<lparr>pb_lastCounts := Some (Counts r)\<rparr>)"
  by (simp add: p_counts_def publishCounts_emit Let_def)

lemma refreshSources_emit:
  "refreshSources r p =
     emit (if Sources r = pb_lastSources p then [] else concat (map (c_source (Sources r) (pb_origin p)) (All r)))
       (p\<lparr>pb_lastSources := Sources r\<rparr>)"
proof (cases "Sources r = pb_lastSources p")
  case True then show ?thesis by (simp add: refreshSources_def Equal_iff)
next
  case False
  have "fold (\<lambda>rx p. if ad_Role rx \<noteq> RoleReceiver then p
          else let m = ReceiverSource rx (Options (Sources r)) (pb_origin p)
            in publish (tp_SourceState (ForDevice (ad_MAC rx))) (ForChannel (Sources r) (ad_Channel rx))
                 (publish (ms_Topic m) (JSON m) p)) (All r) (p\<lparr>pb_lastSources := Sources r\<rparr>)
      = emit (concat (map (c_source (Sources r) (pb_origin (p\<lparr>pb_lastSources := Sources r\<rparr>))) (All r))) (p\<lparr>pb_lastSources := Sources r\<rparr>)"
    by (rule fold_emit_origin) (simp add: c_source_def publish_emit Let_def)
  with False show ?thesis by (simp add: refreshSources_def Equal_iff Let_def)
qed

lemma p_everything_emit:
  "p_everything r p = emit (c_everything r (pb_origin p)) (p\<lparr>pb_lastSources := Sources r, pb_lastCounts := Some (Counts r)\<rparr>)"
proof -
  have "fold (\<lambda>a p. p_stateWith a table (p_name a (p_availability a (p_discoveryWith a table p)))) xs q
      = emit (concat (map (c_adapter table (pb_origin q)) xs)) q" for table xs q
    by (rule fold_emit_origin)
      (simp add: p_stateWith_emit p_name_emit p_availability_emit p_discoveryWith_emit c_adapter_def)
  then show ?thesis
    by (simp add: p_everything_def c_everything_def c_controller_def publishCounts_emit publish_emit fold_emit Let_def emit_def)
qed

section \<open>The specification as a set of calls\<close>

lemma JSON_nonempty [simp]: "JSON m \<noteq> []"
  by (simp add: JSON_def go_map_def)

lemma itoa_nonempty [simp]: "itoa i \<noteq> []"
  by (simp add: itoa_def string_of_nat.simps [of "nat _"])

lemma nonempty_simps [simp]:
  "nonempty (JSON m) = Some (JSON m)" "nonempty (itoa i) = Some (itoa i)" "nonempty [] = None"
  "nonempty PayloadOnline = Some PayloadOnline" "nonempty PayloadOffline = Some PayloadOffline"
  "v \<noteq> [] \<Longrightarrow> nonempty v = Some v"
  by (simp_all add: nonempty_def PayloadOnline_def PayloadOffline_def)

definition holds :: "(string \<Rightarrow> string option) \<Rightarrow> publish_call list \<Rightarrow> bool" where
  "holds b cs \<longleftrightarrow> (\<forall>(t, v) \<in> set cs. b t = nonempty v)"

lemma holds_append [simp]: "holds b (cs @ ds) \<longleftrightarrow> holds b cs \<and> holds b ds"
  by (auto simp: holds_def)

lemma holds_concat: "holds b (concat (map f xs)) \<longleftrightarrow> list_all (\<lambda>x. holds b (f x)) xs"
  by (induction xs) (auto simp: holds_def)

lemma holds_simps [simp]:
  "holds b []" "holds b ((t, v) # cs) \<longleftrightarrow> b t = nonempty v \<and> holds b cs"
  "holds b (map (\<lambda>x. (f x, g x)) xs) \<longleftrightarrow> (\<forall>x \<in> set xs. b (f x) = nonempty (g x))"
  by (simp_all add: holds_def)

lemma adapter_shown_iff: "adapter_shown table og b a \<longleftrightarrow> holds b (c_adapter table og a)"
  unfolding adapter_shown_def c_adapter_def c_discovery_def c_availability_def c_name_def c_state_def Let_def
  by (cases "ad_Channel a"; cases "ad_Role a = RoleReceiver"; cases "ad_IP a = []"; simp; blast)

lemma shown_iff: "shown r og b \<longleftrightarrow> holds b (c_everything r og)"
  by (simp add: shown_def c_everything_def c_controller_def c_counts_def holds_concat adapter_shown_iff [abs_def]) blast

section \<open>The topics of a sweep are distinct\<close>

lemma subseq_facts: "subseq xs ys \<Longrightarrow> set xs \<subseteq> set ys \<and> (distinct ys \<longrightarrow> distinct xs)"
  by (induction rule: list_emb.induct) auto

definition state_suffixes :: "string list" where
  "state_suffixes = [''/availability'', ''/name/state'', ''/channel/state'', ''/ip/state'', ''/role/state'', ''/source/state'']"

definition state_topics :: "string \<Rightarrow> string list" where
  "state_topics m = map (\<lambda>x. device_base m @ x) state_suffixes"

lemma state_topics_distinct: "distinct (state_topics m)"
  by (simp add: state_topics_def state_suffixes_def)

lemma c_state_topics:
  "subseq (map fst (c_availability a @ c_name a @ c_state table a)) (state_topics (ad_MAC a))"
  by (cases "ad_Channel a"; cases "ad_IP a = []"; cases "ad_Role a = RoleReceiver")
    (simp_all add: c_availability_def c_name_def c_state_def Let_def state_topics_def state_suffixes_def)

lemma c_discovery_topics:
  "map fst (c_discovery table og a) = StaleTopics a @ map (key_topic (ad_MAC a)) (entity_keys (ad_Role a))"
  by (simp add: c_discovery_def comp_def AdapterMessages_topics)

lemma StaleTopics_keys:
  "StaleTopics a = map (key_topic (ad_MAC a))
     (filter (\<lambda>k. k \<notin> set (entity_keys (ad_Role a))) [(''number'', ''channel''), (''sensor'', ''channel''), (''select'', ''source'')])"
proof -
  have keys: "map entity_key [receiverChannel, channelSensor, sourceSelect] =
      [(''number'', ''channel''), (''sensor'', ''channel''), (''select'', ''source'')]"
    by (simp add: entity_defs)
  have "containsEntity (entitiesFor (ad_Role a)) e \<longleftrightarrow> entity_key e \<in> set (entity_keys (ad_Role a))" for e
    unfolding containsEntity_iff entitiesFor_keys [symmetric] by simp
  then show ?thesis
    unfolding keys [symmetric] StaleTopics_def filter_map by (simp add: comp_def config_topic_key)
qed

text \<open>Every call of the sweep for one adapter is on one of that adapter's topics.\<close>

definition own_topics :: "string \<Rightarrow> string set" where
  "own_topics m = key_topic m ` known_keys \<union> set (state_topics m)"

lemma c_adapter_own: "fst ` set (c_adapter table og a) \<subseteq> own_topics (ad_MAC a)"
proof -
  have "set (map fst (c_discovery table og a)) \<subseteq> key_topic (ad_MAC a) ` known_keys"
    using entity_keys_known unfolding c_discovery_topics StaleTopics_keys by (auto simp: known_keys_def)
  moreover have "set (map fst (c_availability a @ c_name a @ c_state table a)) \<subseteq> set (state_topics (ad_MAC a))"
    using subseq_facts [OF c_state_topics] by blast
  ultimately show ?thesis unfolding c_adapter_def own_topics_def by auto
qed

lemma state_not_config:
  "device_base m @ x \<noteq> HADiscoveryTopic c n y" "HADiscoveryTopic c n y \<noteq> device_base m @ x"
  by (simp_all add: device_base_def Prefix_def HADiscoveryTopic_def HADiscoveryPrefix_def)

lemma own_topics_disjoint:
  assumes "canonical_mac m" "canonical_mac n" "t \<in> own_topics m" "t \<in> own_topics n"
  shows "m = n"
proof -
  have st: "m = n" if "t \<in> set (state_topics m)" "t \<in> set (state_topics n)"
    using that device_topic_inj [OF assms(1,2)] by (auto simp: state_topics_def)
  have kt: "m = n" if "t \<in> key_topic m ` known_keys" "t \<in> key_topic n ` known_keys"
    using that key_topic_inj [OF assms(1,2)] by blast
  have "t \<notin> set (state_topics a)" if "t \<in> key_topic b ` known_keys" for a b
    using that state_not_config by (auto simp: state_topics_def key_topic_def)
  with st kt assms(3,4) show ?thesis unfolding own_topics_def by blast
qed

lemma c_adapter_distinct: "distinct (map fst (c_adapter table og a))"
proof -
  let ?m = "ad_MAC a" and ?ks = "entity_keys (ad_Role a)"
  let ?cs = "[(''number'', ''channel''), (''sensor'', ''channel''), (''select'', ''source'')]"
  have inj: "inj_on (key_topic ?m) known_keys" by (rule inj_onI) (simp add: same_mac_topic_inj)
  have "distinct (filter (\<lambda>k. k \<notin> set ?ks) ?cs @ ?ks)"
    using entity_keys_distinct(1) by auto
  moreover have "set (filter (\<lambda>k. k \<notin> set ?ks) ?cs @ ?ks) \<subseteq> known_keys"
    using entity_keys_known by (auto simp: known_keys_def)
  ultimately have d: "distinct (map fst (c_discovery table og a))"
    unfolding c_discovery_topics StaleTopics_keys map_append [symmetric] distinct_map
    using inj_on_subset [OF inj] by blast
  have s: "distinct (map fst (c_availability a @ c_name a @ c_state table a))"
    using subseq_facts [OF c_state_topics] state_topics_distinct by blast
  have "t \<notin> set (map fst (c_discovery table og a))" if "t \<in> set (state_topics ?m)" for t
    using that state_not_config unfolding c_discovery_topics StaleTopics_keys by (auto simp: state_topics_def key_topic_def)
  then have "set (map fst (c_discovery table og a)) \<inter> set (map fst (c_availability a @ c_name a @ c_state table a)) = {}"
    using subseq_facts [OF c_state_topics] by blast
  with d s show ?thesis unfolding c_adapter_def map_append distinct_append by blast
qed

definition controller_topics :: "string list" where
  "controller_topics =
     [ControllerAvailability, HADiscoveryTopic ''button'' ControllerNodeID ''rescan'',
      HADiscoveryTopic ''sensor'' ControllerNodeID ''known_devices'',
      HADiscoveryTopic ''sensor'' ControllerNodeID ''online_devices'', ControllerKnownState, ControllerOnlineState]"

lemma controller_calls_topics: "map fst (c_controller og @ c_counts c) = controller_topics"
  by (simp add: c_controller_def c_counts_def controller_topics_def ControllerMessages_def countSensor_def)

lemma controller_topics_distinct_list: "distinct controller_topics"
  by code_simp

lemma controller_topics_not_own:
  assumes "canonical_mac m" "t \<in> own_topics m" shows "t \<notin> set controller_topics"
proof -
  have "t \<notin> set controller_topics" if "t \<in> set (state_topics m)"
    using that state_not_config(1) [of m] by (auto simp: state_topics_def controller_topics_def)
  moreover have "t \<notin> set controller_topics" if kt: "t \<in> key_topic m ` known_keys"
  proof -
    obtain k where k: "t = key_topic m k" "k \<in> known_keys" using kt by blast
    have "key_topic m k \<noteq> ControllerAvailability" "key_topic m k \<noteq> ControllerKnownState" "key_topic m k \<noteq> ControllerOnlineState"
      by (simp_all add: key_topic_def HADiscoveryTopic_def topic_defs)
    then show ?thesis
      using controller_topic_apart [OF assms(1) k(2)] unfolding k(1) controller_topics_def by simp
  qed
  ultimately show ?thesis using assms(2) unfolding own_topics_def by blast
qed

lemma c_everything_distinct:
  assumes wf: "reg_wf r"
  shows "distinct (map fst (c_everything r og))"
proof -
  note can = adapter_identity(1) [OF wf]
  let ?as = "concat (map (\<lambda>a. map fst (c_adapter (Sources r) og a)) (All r))"
  have own: "t \<in> set (map fst (c_adapter (Sources r) og a)) \<Longrightarrow> t \<in> own_topics (ad_MAC a)" for t a
    using c_adapter_own by force
  have "distinct ?as"
    by (rule distinct_concat_key [where key = ad_MAC, OF distinct_macs_All [OF wf] c_adapter_distinct])
      (use can own own_topics_disjoint in blast)
  moreover have "set ?as \<inter> set controller_topics = {}"
  proof -
    have "t \<notin> set controller_topics" if "a \<in> set (All r)" "t \<in> set (map fst (c_adapter (Sources r) og a))" for t a
      by (rule controller_topics_not_own [OF can [OF that(1)] own [OF that(2)]])
    then show ?thesis by auto
  qed
  ultimately have "distinct (?as @ map fst (c_controller og @ c_counts (Counts r)))"
    unfolding controller_calls_topics using controller_topics_distinct_list by simp
  then show ?thesis unfolding c_everything_def map_append map_concat list.map_comp comp_def distinct_append set_append by blast
qed

section \<open>Replaying calls\<close>

lemma broker_Cons: "broker (c # cs) b = broker cs (b(fst c := nonempty (snd c)))"
  by (cases c) simp

lemma broker_append: "broker (cs @ ds) b = broker ds (broker cs b)"
  by (induction cs arbitrary: b) (simp_all add: broker_Cons)

lemma broker_other: "t \<notin> fst ` set cs \<Longrightarrow> broker cs b t = b t"
  by (induction cs arbitrary: b) (simp_all add: broker_Cons)

lemma broker_last:
  assumes "(t, v) \<in> set cs" "\<And>w. (t, w) \<in> set cs \<Longrightarrow> w = v"
  shows "broker cs b t = nonempty v"
  using assms
proof (induction cs arbitrary: b)
  case (Cons c cs)
  have v: "w = v" if "(t, w) \<in> set cs" for w using Cons.prems(2) that by simp
  show ?case
  proof (cases "t \<in> fst ` set cs")
    case True
    then have "(t, v) \<in> set cs" using v by force
    then show ?thesis unfolding broker_Cons by (rule Cons.IH) (rule v)
  next
    case False
    then have "c = (t, v)" using Cons.prems(1) by force
    with False show ?thesis by (simp add: broker_other)
  qed
qed simp

text \<open>
  The incremental argument: if every call made is one the full sweep would make now, and every
  call of the sweep is among them or was already in force, then what is shown stays right.
\<close>

lemma shown_preserved:
  assumes wf: "reg_wf r'"
    and old: "shown r og b"
    and sub: "set cs \<subseteq> set (c_everything r' og)"
    and cover: "set (c_everything r' og) \<subseteq> set (c_everything r og) \<union> set cs"
  shows "shown r' og (broker cs b)"
  unfolding shown_iff holds_def
proof (clarify)
  fix t v assume tv: "(t, v) \<in> set (c_everything r' og)"
  have uniq: "w = v" if "(t, w) \<in> set cs" for w
    using c_everything_distinct [OF wf] tv that sub by (metis eq_key_imp_eq_value subsetD)
  show "broker cs b t = nonempty v"
  proof (cases "(t, v) \<in> set cs")
    case True then show ?thesis by (rule broker_last) (rule uniq)
  next
    case False
    then have "t \<notin> fst ` set cs" using uniq by force
    moreover have "b t = nonempty v"
      using old False cover tv unfolding shown_iff holds_def by blast
    ultimately show ?thesis by (simp add: broker_other)
  qed
qed

lemma shown_established:
  assumes "reg_wf r" shows "shown r og (broker (c_everything r og) b)"
  unfolding shown_iff holds_def
proof (clarify)
  fix t v assume "(t, v) \<in> set (c_everything r og)"
  then show "broker (c_everything r og) b t = nonempty v"
    by (rule broker_last) (metis \<open>(t, v) \<in> set (c_everything r og)\<close> assms c_everything_distinct eq_key_imp_eq_value)
qed

end
