(* ===== verification/Publisher_View.thy ===== *)
theory Publisher_View
  imports Publisher
begin

text \<open>
  The retained messages follow the inventory.  The calls of an incremental update are compared
  with the calls of a full sweep: each call made is one the sweep would make now, and each call
  of the sweep that is left out was already in force.  That needs what the source catalogue and
  the counters depend on, and which part of an adapter each message depends on.  The summary is
  the invariant \<open>ha_inv\<close> over sequences of updates (\<open>ha_event\<close>).
\<close>

section \<open>What the catalogue and the counters depend on\<close>

definition tx_of :: "adapter option \<Rightarrow> (string \<times> int) option" where
  "tx_of x = (case x of None \<Rightarrow> None
     | Some a \<Rightarrow> if ad_Role a = RoleTransmitter then map_option (Pair (DisplayName a)) (ad_Channel a) else None)"

definition tx_entry :: "adapter \<times> int \<Rightarrow> string \<times> string \<times> int" where
  "tx_entry tx = (ad_MAC (fst tx), DisplayName (fst tx), snd tx)"

definition entry_source :: "(string \<times> string \<times> int) list \<Rightarrow> string \<times> string \<times> int \<Rightarrow> source" where
  "entry_source es e =
     \<lparr>src_Label = (if count_list (map (fst \<circ> snd) es) (fst (snd e)) > 1 then fst (snd e) @ channel_suffix (snd (snd e)) else fst (snd e)),
      src_MAC = fst e, src_Channel = snd (snd e)\<rparr>"

lemma Sources_entries:
  "Sources r = (let es = map tx_entry (transmitters r) in sort_key src_Label (map (entry_source es) es))"
proof -
  have "entry_source (map tx_entry txs) (tx_entry tx) = source_of txs tx" for txs tx
    by (simp add: entry_source_def source_of_def source_label_def tx_entry_def comp_def Let_def)
  then show ?thesis by (simp add: Sources_def Sources_with_def Let_def comp_def)
qed

lemma sorted_tx_macs: "sorted (map (ad_MAC \<circ> fst) (transmitters r))"
proof -
  have "sorted (map ad_MAC xs) \<Longrightarrow> sorted (map (ad_MAC \<circ> fst) (List.map_filter
       (\<lambda>a. if ad_Role a = RoleTransmitter then map_option (Pair a) (ad_Channel a) else None) xs))" for xs
  proof (induction xs)
    case Nil then show ?case by (simp add: List.map_filter_def)
  next
    case (Cons x xs)
    then show ?case by (auto simp: map_filter_Cons List.map_filter_def split: option.splits)
  qed
  from this [OF All_sorted] show ?thesis unfolding transmitters_def .
qed

lemma tx_entries_set:
  assumes "reg_wf r"
  shows "set (map tx_entry (transmitters r)) = {(m, n, c). tx_of (Lookup r m) = Some (n, c)}"
proof -
  have "(m, n, c) \<in> tx_entry ` set (transmitters r) \<longleftrightarrow> tx_of (Lookup r m) = Some (n, c)" for m n c
  proof -
    have "(m, n, c) \<in> tx_entry ` set (transmitters r) \<longleftrightarrow>
      (\<exists>a. (a, c) \<in> set (transmitters r) \<and> ad_MAC a = m \<and> DisplayName a = n)"
      by (force simp: tx_entry_def)
    also have "\<dots> \<longleftrightarrow> tx_of (Lookup r m) = Some (n, c)"
    proof (cases "Lookup r m")
      case None
      then show ?thesis unfolding transmitters_iff [OF assms] by (auto simp: tx_of_def)
    next
      case (Some a)
      then have "ad_MAC a = m" using reg_wfD [OF assms] by (simp add: Lookup_def)
      with Some show ?thesis unfolding transmitters_iff [OF assms] by (auto simp: tx_of_def)
    qed
    finally show ?thesis .
  qed
  then show ?thesis by auto
qed

lemma Sources_cong:
  assumes "reg_wf r" "reg_wf r'" "\<And>m. tx_of (Lookup r' m) = tx_of (Lookup r m)"
  shows "Sources r' = Sources r"
proof -
  have key: "map fst (map tx_entry (transmitters q)) = map (ad_MAC \<circ> fst) (transmitters q)" for q
    by (simp add: tx_entry_def)
  have set: "set (map tx_entry (transmitters r')) = set (map tx_entry (transmitters r))"
    unfolding tx_entries_set [OF assms(1)] tx_entries_set [OF assms(2)] by (simp add: assms(3))
  have "map tx_entry (transmitters r') = map tx_entry (transmitters r)"
  proof (rule map_sorted_distinct_set_unique [where f = fst])
    show "inj_on fst (set (map tx_entry (transmitters r')) \<union> set (map tx_entry (transmitters r)))"
      unfolding set Un_absorb using distinct_tx_macs [OF assms(1)] key [of r] by (metis distinct_map)
  qed (simp_all only: set key sorted_tx_macs distinct_tx_macs assms)
  then show ?thesis unfolding Sources_entries by simp
qed

lemma Counts_card:
  assumes "reg_wf r"
  shows "Counts r = \<lparr>ct_Known = card {m. Lookup r m \<noteq> None}, ct_Online = card {m. map_option ad_Online (Lookup r m) = Some True}\<rparr>"
proof -
  have d: "distinct (map fst r)" by (rule reg_wf_distinct [OF assms])
  have "{m. Lookup r m \<noteq> None} = fst ` set r" by (auto simp: Lookup_def map_of_eq_None_iff)
  then have known: "card {m. Lookup r m \<noteq> None} = length r"
    using distinct_card [OF d] by simp
  have "{m. map_option ad_Online (Lookup r m) = Some True} = set (map fst (filter (ad_Online \<circ> snd) r))"
    using d by (force simp: Lookup_def)
  moreover have "distinct (map fst (filter (ad_Online \<circ> snd) r))" using d by (rule distinct_map_filter)
  ultimately have "card {m. map_option ad_Online (Lookup r m) = Some True} = length (filter (ad_Online \<circ> snd) r)"
    by (metis distinct_card length_map)
  then show ?thesis using known by (simp add: Counts_def filter_map)
qed

lemma Counts_cong:
  assumes "reg_wf r" "reg_wf r'" "\<And>m. map_option ad_Online (Lookup r' m) = map_option ad_Online (Lookup r m)"
  shows "Counts r' = Counts r"
proof -
  have "(Lookup r' m = None) = (Lookup r m = None)" for m
    using assms(3) [of m] by (metis option.map_disc_iff)
  then show ?thesis unfolding Counts_card [OF assms(1)] Counts_card [OF assms(2)] by (simp add: assms(3))
qed

section \<open>What an incremental update must send\<close>

text \<open>
  The calls for an adapter fall into those that depend on the catalogue (\<open>c_source\<close>, for
  receivers) and the rest.
\<close>

definition core_config :: "Origin \<Rightarrow> adapter \<Rightarrow> publish_call set" where
  "core_config og a =
     (\<lambda>t. (t, [])) ` set (StaleTopics a) \<union>
     (\<lambda>e. (ms_Topic (build a e [] og), JSON (build a e [] og))) `
       (set (entitiesFor (ad_Role a)) - {e. en_component e = ''select''})"

definition core_state :: "adapter \<Rightarrow> publish_call set" where
  "core_state a =
     (let t = ForDevice (ad_MAC a) in
      (\<lambda>c. (tp_ChannelState t, itoa c)) ` set_option (ad_Channel a) \<union>
      {x. x = (tp_IPState t, ad_IP a) \<and> ad_IP a \<noteq> []} \<union> {(tp_RoleState t, ad_Role a)})"

lemma build_options_irrelevant:
  assumes "e \<in> set (entitiesFor role)" "en_component e \<noteq> ''select''"
  shows "build a e opts og = build a e opts' og"
proof -
  have "en_fields e t opts = en_fields e t opts'" for t
    using assms by (auto simp: entitiesFor_def Let_def entity_defs split: if_splits)
  then show ?thesis by (simp add: build_def)
qed

lemma select_iff:
  "e \<in> set (entitiesFor role) \<and> en_component e = ''select'' \<longleftrightarrow> role = RoleReceiver \<and> e = sourceSelect"
proof -
  have "e \<in> set (entitiesFor role) \<Longrightarrow> en_component e = ''select'' \<Longrightarrow> role = RoleReceiver \<and> e = sourceSelect"
    unfolding entitiesFor_def Let_def
    by (cases "role = RoleReceiver"; cases "role = RoleTransmitter"; simp; elim disjE; simp add: entity_defs)
  moreover have "sourceSelect \<in> set (entitiesFor RoleReceiver)" "en_component sourceSelect = ''select''"
    by (simp_all add: entitiesFor_def Let_def sourceSelect_def)
  ultimately show ?thesis by blast
qed

definition core_calls :: "Origin \<Rightarrow> adapter \<Rightarrow> publish_call set" where
  "core_calls og a = core_config og a \<union> core_state a \<union> set (c_availability a) \<union> set (c_name a)"

lemma c_discovery_split:
  "set (c_discovery table og a) =
     core_config og a \<union> (if ad_Role a = RoleReceiver
       then {(ms_Topic (ReceiverSource a (Options table) og), JSON (ReceiverSource a (Options table) og))} else {})"
proof -
  let ?es = "set (entitiesFor (ad_Role a))" and ?sel = "{e. en_component e = ''select''}"
  let ?f = "\<lambda>opts e. (ms_Topic (build a e opts og), JSON (build a e opts og))"
  have "?f (Options table) ` ?es = ?f (Options table) ` (?es - ?sel) \<union> ?f (Options table) ` (?es \<inter> ?sel)" by blast
  also have "?f (Options table) ` (?es - ?sel) = ?f [] ` (?es - ?sel)"
    using build_options_irrelevant [of _ "ad_Role a" a "Options table" og "[]"] by (intro image_cong) auto
  also have "?es \<inter> ?sel = (if ad_Role a = RoleReceiver then {sourceSelect} else {})"
  proof -
    have "e \<in> ?es \<inter> ?sel \<longleftrightarrow> ad_Role a = RoleReceiver \<and> e = sourceSelect" for e
      unfolding Int_iff mem_Collect_eq by (rule select_iff)
    then show ?thesis by (intro set_eqI) simp
  qed
  finally show ?thesis
    by (simp add: c_discovery_def core_config_def AdapterMessages_def image_image ReceiverSource_def Un_assoc)
qed

lemma c_state_split:
  "set (c_state table a) =
     core_state a \<union> (if ad_Role a = RoleReceiver
       then {(tp_SourceState (ForDevice (ad_MAC a)), ForChannel table (ad_Channel a))} else {})"
  by (cases "ad_Channel a") (auto simp: c_state_def core_state_def Let_def)

lemma c_adapter_split:
  "set (c_adapter table og a) =
core_calls og a \<union> set (c_source table og a)"
  by (auto simp: core_calls_def c_adapter_def c_discovery_split c_state_split c_source_def Let_def)

lemma set_c_everything:
  assumes "reg_wf r"
  shows "set (c_everything r og) = set (c_controller og) \<union> set (c_counts (Counts r)) \<union>
     (\<Union>a \<in> {a. Lookup r (ad_MAC a) = Some a}. set (c_adapter (Sources r) og a))"
proof -
  have "set (All r) = {a. Lookup r (ad_MAC a) = Some a}" using in_All [OF assms] by blast
  then show ?thesis by (auto simp: c_everything_def)
qed

text \<open>
  One update of the inventory from \<open>r\<close> to \<open>r'\<close>: \<open>xs\<close> are the calls about single adapters,
  followed by the counters and the catalogue when these changed.
\<close>

lemma update_calls_subset:
  assumes wf: "reg_wf r'"
    and xs: "\<And>t v. (t, v) \<in> set xs \<Longrightarrow> \<exists>a. Lookup r' (ad_MAC a) = Some a \<and> (t, v) \<in> set (c_adapter (Sources r') og a)"
    and cs: "cs = [] \<or> cs = c_counts (Counts r')"
    and ss: "ss = [] \<or> ss = concat (map (c_source (Sources r') og) (All r'))"
  shows "set (xs @ cs @ ss) \<subseteq> set (c_everything r' og)"
proof -
  have "set (concat (map (c_source (Sources r') og) (All r'))) \<subseteq> set (c_everything r' og)"
    unfolding set_c_everything [OF wf] c_adapter_split by (auto simp: in_All [OF wf])
  then have "set ss \<subseteq> set (c_everything r' og)" using ss by auto
  moreover have "set xs \<subseteq> set (c_everything r' og)"
    unfolding set_c_everything [OF wf] using xs by fast
  moreover have "set cs \<subseteq> set (c_everything r' og)"
    using cs unfolding set_c_everything [OF wf] by auto
  ultimately show ?thesis by simp
qed

lemma update_shown:
  assumes wf: "reg_wf r" "reg_wf r'" and old: "shown r og b"
    and xs: "\<And>t v. (t, v) \<in> set xs \<Longrightarrow> \<exists>a. Lookup r' (ad_MAC a) = Some a \<and> (t, v) \<in> set (c_adapter (Sources r') og a)"
    and cs: "cs = [] \<and> Counts r' = Counts r \<or> cs = c_counts (Counts r')"
    and ss: "ss = [] \<and> Sources r' = Sources r \<or> ss = concat (map (c_source (Sources r') og) (All r'))"
    and each: "\<And>a'. Lookup r' (ad_MAC a') = Some a' \<Longrightarrow> set (c_adapter (Sources r') og a') \<subseteq> set xs \<or>
      (\<exists>a. Lookup r (ad_MAC a) = Some a \<and> core_calls og a' \<subseteq> set xs \<union> core_calls og a \<and>
         set (c_source (Sources r') og a') \<subseteq> set xs \<union> set (c_source (Sources r') og a))"
  shows "shown r' og (broker (xs @ cs @ ss) b)"
proof (rule shown_preserved [OF wf(2) old])
  show "set (xs @ cs @ ss) \<subseteq> set (c_everything r' og)"
    by (rule update_calls_subset [OF wf(2) xs]) (use cs ss in auto)
  show "set (c_everything r' og) \<subseteq> set (c_everything r og) \<union> set (xs @ cs @ ss)"
  proof
    fix x assume "x \<in> set (c_everything r' og)"
    then consider "x \<in> set (c_controller og)" | "x \<in> set (c_counts (Counts r'))"
      | a' where "Lookup r' (ad_MAC a') = Some a'" "x \<in> set (c_adapter (Sources r') og a')"
      unfolding set_c_everything [OF wf(2)] by blast
    then show "x \<in> set (c_everything r og) \<union> set (xs @ cs @ ss)"
    proof cases
      case 1 then show ?thesis unfolding set_c_everything [OF wf(1)] by blast
    next
      case 2 then show ?thesis using cs unfolding set_c_everything [OF wf(1)] by auto
    next
      case (3 a')
      from each [OF 3(1)] show ?thesis
      proof
        assume "set (c_adapter (Sources r') og a') \<subseteq> set xs" then show ?thesis using 3(2) by auto
      next
        assume "\<exists>a. Lookup r (ad_MAC a) = Some a \<and> core_calls og a' \<subseteq> set xs \<union> core_calls og a \<and>
          set (c_source (Sources r') og a') \<subseteq> set xs \<union> set (c_source (Sources r') og a)"
        then obtain a where a: "Lookup r (ad_MAC a) = Some a" "core_calls og a' \<subseteq> set xs \<union> core_calls og a"
          "set (c_source (Sources r') og a') \<subseteq> set xs \<union> set (c_source (Sources r') og a)" by blast
        have src: "set (c_source (Sources r') og a') \<subseteq> set xs \<union> set ss \<union> set (c_source (Sources r) og a)"
          using ss a(3) 3(1) in_All [OF wf(2), of a'] by auto
        have "set (c_adapter (Sources r) og a) \<subseteq> set (c_everything r og)"
          using a(1) unfolding set_c_everything [OF wf(1)] by blast
        then show ?thesis using 3(2) a(2) src unfolding c_adapter_split by auto
      qed
    qed
  qed
qed

text \<open>Two versions of an adapter that Home Assistant presents as the same device.\<close>

definition same_card :: "adapter \<Rightarrow> adapter \<Rightarrow> bool" where
  "same_card a e \<longleftrightarrow> ad_MAC a = ad_MAC e \<and> ad_ID a = ad_ID e \<and> ad_Role a = ad_Role e \<and> ad_Name a = ad_Name e \<and>
     ad_ReportedName a = ad_ReportedName e \<and> ad_ProductName a = ad_ProductName e \<and>
     ad_Model a = ad_Model e \<and> ad_Firmware a = ad_Firmware e"

lemma same_cardD:
  assumes "same_card a e"
  shows "ad_MAC a = ad_MAC e" "ad_ID a = ad_ID e" "ad_Role a = ad_Role e"
    "ad_ProductName a = ad_ProductName e" "ad_Model a = ad_Model e" "ad_Firmware a = ad_Firmware e"
  using assms by (simp_all add: same_card_def)

lemma same_card_name: "same_card a e \<Longrightarrow> DisplayName a = DisplayName e"
  by (simp add: same_card_def DisplayName_def split: option.split)

lemma build_cong:
  assumes "same_card a e" "x \<in> set (entitiesFor role)"
  shows "build a x opts og = build e x opts og"
proof -
  have "x \<in> {nameText, ipSensor, roleSensor, receiverChannel, sourceSelect, transmitterChannel, channelSensor}"
    using assms(2) by (auto simp: entitiesFor_def Let_def split: if_splits)
  then have "en_icon x a = en_icon x e"
    using assms(1) by (elim insertE emptyE) (simp_all add: entity_defs staticIcon_def same_card_def)
  moreover have "adapterDevice a = adapterDevice e"
    unfolding adapterDevice_def same_card_name [OF assms(1)] same_cardD [OF assms(1)] ..
  ultimately show ?thesis by (simp add: build_def same_cardD [OF assms(1)])
qed

lemma core_config_cong: "same_card a e \<Longrightarrow> core_config og a = core_config og e"
proof -
  assume s: "same_card a e"
  have st: "StaleTopics a = StaleTopics e" unfolding StaleTopics_def config_topic_def [abs_def] same_cardD [OF s] by simp
  have im: "(\<lambda>x. (ms_Topic (build a x [] og), JSON (build a x [] og))) ` (set (entitiesFor role) - sel) =
      (\<lambda>x. (ms_Topic (build e x [] og), JSON (build e x [] og))) ` (set (entitiesFor role) - sel)" for role sel
  proof (rule image_cong [OF refl])
    fix x assume "x \<in> set (entitiesFor role) - sel"
    then have "build a x [] og = build e x [] og" using build_cong [OF s] by blast
    then show "(ms_Topic (build a x [] og), JSON (build a x [] og)) = (ms_Topic (build e x [] og), JSON (build e x [] og))"
      by (simp only:)
  qed
  show ?thesis unfolding core_config_def st same_cardD(3) [OF s] im [of "ad_Role e"] ..
qed

lemma c_name_cong: "same_card a e \<Longrightarrow> c_name a = c_name e"
  by (frule same_card_name) (simp add: c_name_def same_card_def)

lemma c_source_cong:
  assumes "same_card a e" "ad_Channel a = ad_Channel e"
  shows "c_source table og a = c_source table og e"
proof -
  have "sourceSelect \<in> set (entitiesFor RoleReceiver)" by (simp add: entitiesFor_def)
  then have "ReceiverSource a opts og = ReceiverSource e opts og" for opts
    unfolding ReceiverSource_def by (rule build_cong [OF assms(1)])
  then show ?thesis using assms by (simp add: c_source_def same_card_def)
qed

lemma c_source_discovery_state: "set (c_source table og a) \<subseteq> set (c_discovery table og a) \<union> set (c_state table a)"
  by (auto simp: c_source_def c_discovery_split c_state_split Let_def)

lemma c_source_state_half:
  "ad_MAC a = ad_MAC e \<Longrightarrow> ad_Role a = ad_Role e \<Longrightarrow> ad_Channel a = ad_Channel e \<Longrightarrow>
   set (c_source table og a) \<subseteq> set (c_discovery table og a) \<union> set (c_source table og e)"
  by (auto simp: c_source_def c_discovery_split Let_def)

lemma c_source_config_half:
  "same_card a e \<Longrightarrow> set (c_source table og a) \<subseteq> set (c_state table a) \<union> set (c_source table og e)"
proof -
  assume s: "same_card a e"
  have "sourceSelect \<in> set (entitiesFor RoleReceiver)" by (simp add: entitiesFor_def)
  then have "ReceiverSource a opts og = ReceiverSource e opts og" for opts
    unfolding ReceiverSource_def by (rule build_cong [OF s])
  then show ?thesis using s by (auto simp: c_source_def c_state_split Let_def same_card_def)
qed

lemma core_state_cong:
  "ad_MAC a = ad_MAC e \<Longrightarrow> ad_Role a = ad_Role e \<Longrightarrow> ad_Channel a = ad_Channel e \<Longrightarrow> ad_IP a = ad_IP e \<Longrightarrow> core_state a = core_state e"
  by (simp add: core_state_def)

lemma c_availability_cong: "ad_MAC a = ad_MAC e \<Longrightarrow> ad_Online a = ad_Online e \<Longrightarrow> c_availability a = c_availability e"
  by (simp add: c_availability_def)

section \<open>One update\<close>

text \<open>The common shape of the incremental methods.\<close>

definition pub_step :: "registry \<Rightarrow> bool \<Rightarrow> bool \<Rightarrow> publish_call list \<Rightarrow> publisher \<Rightarrow> publisher" where
  "pub_step r dc ds xs p =
     (let p = emit xs p; p = (if dc then p_counts r p else p) in if ds then refreshSources r p else p)"

text \<open>
  The state between two updates: what is remembered and what the broker holds agree with the
  inventory, and nothing was ever published on a topic that the add-on takes commands from.
\<close>

definition command_topic :: "string \<Rightarrow> bool" where
  "command_topic t \<longleftrightarrow> ParseDeviceCommand t \<noteq> None \<or> t = ControllerRescanPress \<or> t = HAStatusTopic"

definition in_view :: "registry \<Rightarrow> publisher \<Rightarrow> (string \<Rightarrow> string option) \<Rightarrow> bool" where
  "in_view r p b0 \<longleftrightarrow> up_to_date r p \<and> shown r (pb_origin p) (broker (pb_sent p) b0) \<and>
     (\<forall>(t, v) \<in> set (pb_sent p). \<not> command_topic t)"

lemma HADiscoveryTopic_quiet: "\<not> command_topic (HADiscoveryTopic c n x)"
proof -
  have "ParseDeviceCommand (HADiscoveryTopic c n x) = None"
    by (simp add: ParseDeviceCommand_def Prefix_def HADiscoveryTopic_def HADiscoveryPrefix_def Let_def)
  moreover have "HADiscoveryTopic c n x \<noteq> ControllerRescanPress"
    by (simp add: HADiscoveryTopic_def topic_defs)
  moreover have "HADiscoveryTopic c n x \<noteq> HAStatusTopic"
    by (auto simp: HADiscoveryTopic_def HAStatusTopic_def HADiscoveryPrefix_def append_eq_Cons_conv Cons_eq_append_conv)
  ultimately show ?thesis unfolding command_topic_def by blast
qed

lemma own_topics_quiet:
  assumes "canonical_mac m" "t \<in> own_topics m" shows "\<not> command_topic t"
proof -
  have "\<not> command_topic (device_base m @ x)" if "x \<in> set state_suffixes" for x
    using that unfolding command_topic_def ParseDeviceCommand_device_base [OF assms(1)]
    by (auto simp: state_suffixes_def)
  moreover have "\<not> command_topic (HADiscoveryTopic c n x)" for c n x
    by (rule HADiscoveryTopic_quiet)
  ultimately show ?thesis using assms(2) by (auto simp: own_topics_def state_topics_def key_topic_def)
qed

lemma controller_topics_quiet: "t \<in> set controller_topics \<Longrightarrow> \<not> command_topic t"
  using HADiscoveryTopic_quiet
  by (auto simp: controller_topics_def command_topic_def, simp_all add: topic_defs)

lemma c_everything_quiet:
  assumes wf: "reg_wf r" and c: "(t, v) \<in> set (c_everything r og)"
  shows "\<not> command_topic t"
proof -
  have "t \<in> set controller_topics \<or> (\<exists>a \<in> set (All r). t \<in> own_topics (ad_MAC a))"
  proof -
    from c consider "(t, v) \<in> set (c_controller og @ c_counts (Counts r))"
      | a where "a \<in> set (All r)" "(t, v) \<in> set (c_adapter (Sources r) og a)" unfolding c_everything_def by auto
    then show ?thesis
    proof cases
      case 1
      then have "t \<in> set (map fst (c_controller og @ c_counts (Counts r)))" by force
      then show ?thesis unfolding controller_calls_topics ..
    next
      case 2 then show ?thesis using c_adapter_own by force
    qed
  qed
  then show ?thesis using controller_topics_quiet own_topics_quiet adapter_identity(1) [OF wf] by blast
qed

lemma pub_step_in_view:
  assumes wf: "reg_wf r" "reg_wf r'" and view: "in_view r p b0" and og: "og = pb_origin p"
    and dc: "\<not> dc \<Longrightarrow> Counts r' = Counts r" and ds: "\<not> ds \<Longrightarrow> Sources r' = Sources r"
    and xs: "\<And>t v. (t, v) \<in> set xs \<Longrightarrow> \<exists>a. Lookup r' (ad_MAC a) = Some a \<and> (t, v) \<in> set (c_adapter (Sources r') og a)"
    and each: "\<And>a'. Lookup r' (ad_MAC a') = Some a' \<Longrightarrow> set (c_adapter (Sources r') og a') \<subseteq> set xs \<or>
      (\<exists>a. Lookup r (ad_MAC a) = Some a \<and> core_calls og a' \<subseteq> set xs \<union> core_calls og a \<and>
         set (c_source (Sources r') og a') \<subseteq> set xs \<union> set (c_source (Sources r') og a))"
  shows "in_view r' (pub_step r' dc ds xs p) b0"
proof -
  let ?cs = "if dc \<and> Counts r' \<noteq> Counts r then c_counts (Counts r') else []"
  let ?ss = "if ds \<and> Sources r' \<noteq> Sources r then concat (map (c_source (Sources r') og) (All r')) else []"
  have last: "pb_lastCounts p = Some (Counts r)" "pb_lastSources p = Sources r"
    and sh: "shown r og (broker (pb_sent p) b0)"
    using view og by (simp_all add: in_view_def up_to_date_def)
  have eq: "pub_step r' dc ds xs p = emit (xs @ ?cs @ ?ss) (p\<lparr>pb_lastCounts := Some (Counts r'), pb_lastSources := Sources r'\<rparr>)"
    using dc ds last og
    by (cases dc; cases ds) (auto simp: pub_step_def p_counts_emit refreshSources_emit emit_def Let_def)
  have "shown r' og (broker (xs @ ?cs @ ?ss) (broker (pb_sent p) b0))"
    by (rule update_shown [OF wf sh xs _ _ each]) (use dc ds in auto)
  moreover have "set (xs @ ?cs @ ?ss) \<subseteq> set (c_everything r' og)"
    by (rule update_calls_subset [OF wf(2) xs]) auto
  then have "\<forall>(t, v) \<in> set (xs @ ?cs @ ?ss). \<not> command_topic t"
    using c_everything_quiet [OF wf(2)] by blast
  ultimately show ?thesis
    using view unfolding eq in_view_def up_to_date_def by (simp add: og broker_append ball_Un)
qed

lemma unchanged_covered:
  "Lookup r (ad_MAC a) = Some a \<Longrightarrow>
   \<exists>e. Lookup r (ad_MAC e) = Some e \<and> core_calls og a \<subseteq> xs \<union> core_calls og e \<and>
     set (c_source table og a) \<subseteq> xs \<union> set (c_source table og e)"
  by blast

lemma offline_covered:
  assumes "Lookup r (ad_MAC e) = Some e" "a = e\<lparr>ad_Online := False\<rparr>" "set (c_availability a) \<subseteq> xs"
  shows "\<exists>e. Lookup r (ad_MAC e) = Some e \<and> core_calls og a \<subseteq> xs \<union> core_calls og e \<and>
     set (c_source table og a) \<subseteq> xs \<union> set (c_source table og e)"
proof -
  have s: "same_card a e" by (simp add: assms(2) same_card_def)
  have "core_state a = core_state e" "c_source table og a = c_source table og e"
    by (rule core_state_cong c_source_cong [OF s]; simp add: assms(2))+
  with core_config_cong [OF s] c_name_cong [OF s]
  have "core_calls og a \<subseteq> xs \<union> core_calls og e \<and> set (c_source table og a) \<subseteq> xs \<union> set (c_source table og e)"
    using assms(3) by (auto simp: core_calls_def)
  with assms(1) show ?thesis by blast
qed

lemma DisplayName_offline [simp]: "DisplayName (e\<lparr>ad_Online := x\<rparr>) = DisplayName e"
  by (simp add: DisplayName_def split: option.split)

text \<open>What an offline mark and a rename change, and which calls that asks for.\<close>

lemma offline_effect:
  assumes wf: "reg_wf r" and off: "MarkOffline r m = (r', Some a)"
  shows "reg_wf r'" "Lookup r' (ad_MAC a) = Some a" "Sources r' = Sources r"
    and "Lookup r' (ad_MAC x) = Some x \<Longrightarrow>
      \<exists>e. Lookup r (ad_MAC e) = Some e \<and> core_calls og x \<subseteq> set (c_availability a) \<union> core_calls og e \<and>
        set (c_source table og x) \<subseteq> set (c_availability a) \<union> set (c_source table og e)"
proof -
  obtain e where e: "Lookup r m = Some e" "a = e\<lparr>ad_Online := False\<rparr>" "r' = AList.update m a r"
    using off by (auto simp: MarkOffline_def Lookup_def Let_def split: option.splits if_splits)
  show wf': "reg_wf r'" using MarkOffline_wf [OF wf, of m] off by simp
  have m: "ad_MAC e = m" using reg_wfD [OF wf] e(1) by (simp add: Lookup_def)
  have look: "Lookup r' n = (if n = m then Some a else Lookup r n)" for n unfolding e(3) by (rule Lookup_update)
  show "Lookup r' (ad_MAC a) = Some a" using m e(2) by (simp add: look)
  show "Sources r' = Sources r" by (rule Sources_cong [OF wf wf']) (use e(1,2) in \<open>auto simp: look tx_of_def\<close>)
  assume x: "Lookup r' (ad_MAC x) = Some x"
  show "\<exists>e. Lookup r (ad_MAC e) = Some e \<and> core_calls og x \<subseteq> set (c_availability a) \<union> core_calls og e \<and>
      set (c_source table og x) \<subseteq> set (c_availability a) \<union> set (c_source table og e)"
  proof (cases "ad_MAC x = m")
    case True
    then have "x = a" using x by (simp add: look)
    then show ?thesis using offline_covered [of r e a] e m by simp
  next
    case False
    then show ?thesis using x unchanged_covered [of r x] by (simp add: look)
  qed
qed

lemma offline_in_view:
  assumes wf: "reg_wf r" and view: "in_view r p b0" and off: "MarkOffline r m = (r', Some a)"
  shows "in_view r' (p_offline r' a p) b0"
proof -
  note eff = offline_effect [OF wf off]
  have "in_view r' (pub_step r' True False (c_availability a) p) b0"
  proof (rule pub_step_in_view [OF wf eff(1) view refl], goal_cases)
    case 2 show ?case by (rule eff(3))
  next
    case (3 t v)
    then show ?case using eff(2) by (intro exI [of _ a]) (simp add: c_adapter_def)
  next
    case (4 x)
    then show ?case by (intro disjI2 eff(4))
  qed simp
  then show ?thesis by (simp add: p_offline_def p_availability_emit pub_step_def Let_def)
qed

lemma renamed_effect:
  assumes wf: "reg_wf r" and set: "SetName r m n = (r', Some a)"
  shows "reg_wf r'" "Lookup r' (ad_MAC a) = Some a" "Counts r' = Counts r" "ad_Role a \<noteq> RoleTransmitter \<Longrightarrow> Sources r' = Sources r"
    and "Lookup r' (ad_MAC x) = Some x \<Longrightarrow> set (c_name a @ c_discovery table og a) \<subseteq> xs \<Longrightarrow>
      \<exists>e. Lookup r (ad_MAC e) = Some e \<and> core_calls og x \<subseteq> xs \<union> core_calls og e \<and>
        set (c_source table og x) \<subseteq> xs \<union> set (c_source table og e)"
proof -
  obtain e where e: "Lookup r m = Some e" "a = e\<lparr>ad_Name := n\<rparr>" "r' = AList.update m a r"
    using set by (auto simp: SetName_def Lookup_def Let_def split: option.splits)
  show wf': "reg_wf r'" using SetName_wf [OF wf, of m n] set by simp
  have m: "ad_MAC e = m" using reg_wfD [OF wf] e(1) by (simp add: Lookup_def)
  have look: "Lookup r' k = (if k = m then Some a else Lookup r k)" for k unfolding e(3) by (rule Lookup_update)
  show "Lookup r' (ad_MAC a) = Some a" using m e(2) by (simp add: look)
  show "Counts r' = Counts r" by (rule Counts_cong [OF wf wf']) (use e(1,2) in \<open>auto simp: look\<close>)
  show "Sources r' = Sources r" if "ad_Role a \<noteq> RoleTransmitter"
    by (rule Sources_cong [OF wf wf']) (use e(1,2) that in \<open>auto simp: look tx_of_def\<close>)
  assume x: "Lookup r' (ad_MAC x) = Some x" and xs: "set (c_name a @ c_discovery table og a) \<subseteq> xs"
  show "\<exists>e. Lookup r (ad_MAC e) = Some e \<and> core_calls og x \<subseteq> xs \<union> core_calls og e \<and>
      set (c_source table og x) \<subseteq> xs \<union> set (c_source table og e)"
  proof (cases "ad_MAC x = m")
    case True
    then have eq: "x = a" using x by (simp add: look)
    have "core_state a = core_state e" by (rule core_state_cong; simp add: e(2))
    moreover have "c_availability a = c_availability e" by (rule c_availability_cong; simp add: e(2))
    moreover have "core_config og a \<union> set (c_name a) \<subseteq> xs" using xs by (auto simp: c_discovery_split)
    ultimately have "core_calls og a \<subseteq> xs \<union> core_calls og e" by (auto simp: core_calls_def)
    moreover have "set (c_source table og a) \<subseteq> xs \<union> set (c_source table og e)"
      using c_source_state_half [of a e table og] xs by (auto simp: e(2))
    ultimately show ?thesis unfolding eq using e(1) m by blast
  next
    case False
    then show ?thesis using x unchanged_covered [of r x] by (simp add: look)
  qed
qed

lemma renamed_in_view:
  assumes wf: "reg_wf r" and view: "in_view r p b0" and set: "SetName r m n = (r', Some a)"
  shows "in_view r' (p_renamed r' a p) b0"
proof -
  note eff = renamed_effect [OF wf set]
  let ?xs = "c_name a @ c_discovery (Sources r') (pb_origin p) a"
  have "in_view r' (pub_step r' False (ad_Role a = RoleTransmitter) ?xs p) b0"
  proof (rule pub_step_in_view [OF wf eff(1) view refl], goal_cases)
    case 1 show ?case by (rule eff(3))
  next
    case 2 then show ?case by (rule eff(4))
  next
    case (3 t v)
    then show ?case using eff(2) by (intro exI [of _ a]) (auto simp: c_adapter_def)
  next
    case (4 x)
    then show ?case by (intro disjI2 eff(5)) simp_all
  qed
  then show ?thesis
    by (simp add: p_renamed_def p_name_emit p_discovery_def p_discoveryWith_emit pub_step_def Let_def)
qed

text \<open>The calls about single adapters that an observation leads to.\<close>

definition observation_calls :: "source_table \<Rightarrow> Origin \<Rightarrow> observation \<Rightarrow> publish_call list" where
  "observation_calls table og obs =
     (let a = ob_Adapter obs in
      (case ob_Displaced obs of None \<Rightarrow> [] | Some d \<Rightarrow> c_availability d) @
      (if ob_Created obs \<or> ob_MetadataChanged obs then c_discovery table og a @ c_name a else []) @
      (if ob_CameOnline obs then c_availability a else []) @
      (if ob_Created obs \<or> ob_StateChanged obs \<or> ob_RoleChanged obs then c_state table a else []))"

lemma p_observation_step:
  "p_observation r obs p =
     pub_step r (ob_CameOnline obs \<or> ob_Displaced obs \<noteq> None)
       (ad_Role (ob_Adapter obs) = RoleTransmitter \<or> ob_RoleChanged obs)
       (observation_calls (Sources r) (pb_origin p) obs) p"
  by (cases "ob_Displaced obs")
    (simp_all add: p_observation_def observation_calls_def pub_step_def Let_def p_availability_emit p_name_emit
      p_discovery_def p_discoveryWith_emit p_state_def p_stateWith_emit)

text \<open>The flags of an observation, against the adapter recorded before.\<close>

lemma observation_flags:
  assumes m: "Normalize (di_LanMAC info) = m" "m \<noteq> []" and wf: "reg_wf r"
    and rec: "RecordObservation order r ip info now = (r', Some obs)"
  shows "(case Lookup r m of
       None \<Rightarrow> ob_Created obs \<and> ob_CameOnline obs
     | Some e \<Rightarrow> (let a = refreshed_adapter e ip info now in
         \<not> ob_Created obs \<and>
         (ob_CameOnline obs \<longleftrightarrow> \<not> ad_Online e) \<and>
         (\<not> ob_MetadataChanged obs \<longrightarrow> same_card a e) \<and>
         (\<not> ob_StateChanged obs \<longrightarrow> ad_IP a = ad_IP e \<and> ad_Channel a = ad_Channel e) \<and>
         (ob_RoleChanged obs \<longleftrightarrow> ad_Role a \<noteq> ad_Role e) \<and>
         (ob_RoleChanged obs \<longrightarrow> ob_MetadataChanged obs)))"
proof -
  obtain r1 d where d: "displace order r m ip = (r1, d)" by (cases "displace order r m ip")
  have look: "map_of r1 m = map_of r m" by (rule displace_lookup_self [OF wf d])
  show ?thesis
  proof (cases "map_of r m")
    case None
    then show ?thesis using rec m d look by (auto simp: RecordObservation_def Lookup_def Let_def)
  next
    case (Some e)
    then show ?thesis using rec m d look
      by (auto simp: RecordObservation_def Lookup_def Let_def same_card_def refreshed_adapter_def)
  qed
qed


lemma observed_covered:
  assumes e: "Lookup r m = Some e" and m: "ad_MAC e = m" and a: "a = ob_Adapter obs" "a = refreshed_adapter e ip info now"
    and flags: "ob_CameOnline obs \<longleftrightarrow> \<not> ad_Online e" "\<not> ob_MetadataChanged obs \<longrightarrow> same_card a e"
      "\<not> ob_StateChanged obs \<longrightarrow> ad_IP a = ad_IP e \<and> ad_Channel a = ad_Channel e"
      "ob_RoleChanged obs \<longleftrightarrow> ad_Role a \<noteq> ad_Role e" "ob_RoleChanged obs \<longrightarrow> ob_MetadataChanged obs"
    and xs: "xs = observation_calls table og obs"
  shows "core_calls og a \<subseteq> set xs \<union> core_calls og e \<and> set (c_source table og a) \<subseteq> set xs \<union> set (c_source table og e)"
proof -
  have am: "ad_MAC a = ad_MAC e" by (simp add: a(2))
  have card: "set (c_discovery table og a) \<subseteq> set xs \<and> set (c_name a) \<subseteq> set xs \<or> same_card a e"
    using flags(2) unfolding xs observation_calls_def Let_def a(1) [symmetric] by auto
  have avail: "set (c_availability a) \<subseteq> set xs \<or> c_availability a = c_availability e"
    using flags(1) am a(2) c_availability_cong [OF am] unfolding xs observation_calls_def Let_def a(1) [symmetric] by auto
  have state: "set (c_state table a) \<subseteq> set xs \<or> ad_Role a = ad_Role e \<and> ad_IP a = ad_IP e \<and> ad_Channel a = ad_Channel e"
    using flags(3,4) unfolding xs observation_calls_def Let_def a(1) [symmetric] by auto
  have "core_config og a \<union> set (c_name a) \<subseteq> set xs \<union> core_config og e \<union> set (c_name e)"
    using card
  proof
    assume s: "same_card a e" show ?thesis unfolding core_config_cong [OF s] c_name_cong [OF s] by blast
  qed (auto simp: c_discovery_split)
  moreover have "core_state a \<subseteq> set xs \<union> core_state e"
    using state core_state_cong [OF am] by (auto simp: c_state_split)
  ultimately have "core_calls og a \<subseteq> set xs \<union> core_calls og e" using avail unfolding core_calls_def by auto
  moreover have "set (c_source table og a) \<subseteq> set xs \<union> set (c_source table og e)"
    using card
  proof
    assume s: "same_card a e"
    from state show ?thesis
    proof
      assume "set (c_state table a) \<subseteq> set xs" then show ?thesis using c_source_config_half [OF s] by blast
    next
      assume "ad_Role a = ad_Role e \<and> ad_IP a = ad_IP e \<and> ad_Channel a = ad_Channel e"
      then show ?thesis using c_source_cong [OF s] by simp
    qed
  next
    assume d: "set (c_discovery table og a) \<subseteq> set xs \<and> set (c_name a) \<subseteq> set xs"
    from state show ?thesis
    proof
      assume "set (c_state table a) \<subseteq> set xs" then show ?thesis using d c_source_discovery_state by blast
    next
      assume "ad_Role a = ad_Role e \<and> ad_IP a = ad_IP e \<and> ad_Channel a = ad_Channel e"
      then show ?thesis using d c_source_state_half [OF am] by blast
    qed
  qed
  ultimately show ?thesis ..
qed

lemma created_covered:
  assumes "ob_Created obs" "ob_CameOnline obs" "a = ob_Adapter obs"
  shows "set (c_adapter table og a) \<subseteq> set (observation_calls table og obs)"
  using assms by (auto simp: observation_calls_def c_adapter_def Let_def)

lemma observation_calls_subset:
  "set (observation_calls table og obs) \<subseteq> set (c_adapter table og (ob_Adapter obs)) \<union>
     (case ob_Displaced obs of None \<Rightarrow> {} | Some d \<Rightarrow> set (c_adapter table og d))"
  by (auto simp: observation_calls_def c_adapter_def Let_def split: option.splits)

text \<open>Everything the proofs below use of a successful observation.\<close>

definition obs_effect :: "registry \<Rightarrow> registry \<Rightarrow> string \<Rightarrow> string \<Rightarrow> device_info \<Rightarrow> gotime \<Rightarrow> observation \<Rightarrow> bool" where
  "obs_effect r r' m ip info now obs \<longleftrightarrow>
     reg_wf r \<and> one_online_per_ip r \<and> reg_wf r' \<and> ob_Adapter obs = observed r m ip info now \<and>
     Lookup r' m = Some (ob_Adapter obs) \<and> ad_MAC (ob_Adapter obs) = m \<and>
     (\<forall>n. n \<noteq> m \<longrightarrow> Lookup r' n =
        map_option (\<lambda>b. if occupies r m ip n then b\<lparr>ad_Online := False\<rparr> else b) (Lookup r n)) \<and>
     (case ob_Displaced obs of None \<Rightarrow> (\<forall>n. \<not> occupies r m ip n)
        | Some b \<Rightarrow> occupies r m ip (ad_MAC b) \<and> Lookup r' (ad_MAC b) = Some b) \<and>
     (case Lookup r m of
        None \<Rightarrow> ob_Created obs \<and> ob_CameOnline obs
      | Some e \<Rightarrow> (let a = refreshed_adapter e ip info now in
          \<not> ob_Created obs \<and> (ob_CameOnline obs \<longleftrightarrow> \<not> ad_Online e) \<and>
          (\<not> ob_MetadataChanged obs \<longrightarrow> same_card a e) \<and>
          (\<not> ob_StateChanged obs \<longrightarrow> ad_IP a = ad_IP e \<and> ad_Channel a = ad_Channel e) \<and>
          (ob_RoleChanged obs \<longleftrightarrow> ad_Role a \<noteq> ad_Role e) \<and>
          (ob_RoleChanged obs \<longrightarrow> ob_MetadataChanged obs)))"

lemma obs_effectI:
  assumes wf: "reg_wf r" and one: "one_online_per_ip r" and keys: "fst ` set r \<subseteq> set order"
    and ch: "ValidChannel (di_ChannelID info)" and rec: "RecordObservation order r ip info now = (r', Some obs)"
  shows "obs_effect r r' (Normalize (di_LanMAC info)) ip info now obs"
proof -
  define m where "m = Normalize (di_LanMAC info)"
  have m: "Normalize (di_LanMAC info) = m" "m \<noteq> []"
    using rec by (auto simp: m_def RecordObservation_def Let_def split: if_splits)
  obtain q ob where eff: "RecordObservation order r ip info now = (q, Some ob)" "ob_Adapter ob = observed r m ip info now"
      "Lookup q m = Some (observed r m ip info now)"
      "\<And>n. n \<noteq> m \<Longrightarrow> Lookup q n = map_option (\<lambda>b. if occupies r m ip n then b\<lparr>ad_Online := False\<rparr> else b) (Lookup r n)"
      "case ob_Displaced ob of None \<Rightarrow> (\<forall>n. \<not> occupies r m ip n)
          | Some b \<Rightarrow> occupies r m ip (ad_MAC b) \<and> Lookup q (ad_MAC b) = Some b"
    by (rule RecordObservation_effect [OF wf one keys m, of ip now]) (rule that)
  have q: "q = r'" "ob = obs" using rec eff(1) by simp_all
  have wf': "reg_wf r'" using RecordObservation_wf [OF wf ch] rec by (metis fst_conv)
  have "ad_MAC (observed r m ip info now) = m" using reg_wfD [OF wf'] eff(3) unfolding q by (simp add: Lookup_def)
  then show ?thesis
    unfolding obs_effect_def m(1) using wf one wf' eff(2-5) [unfolded q] observation_flags [OF m wf rec] by simp
qed

lemma obs_effect_counts:
  assumes eff: "obs_effect r r' m ip info now obs" and no: "\<not> (ob_CameOnline obs \<or> ob_Displaced obs \<noteq> None)"
  shows "Counts r' = Counts r"
proof (rule Counts_cong)
  from eff no obtain e where e: "Lookup r m = Some e" "ad_Online e"
    by (auto simp: obs_effect_def Let_def split: option.splits)
  have "\<not> occupies r m ip n" for n using eff no by (auto simp: obs_effect_def)
  moreover have "ad_Online (ob_Adapter obs)" using eff e by (simp add: obs_effect_def observed_def)
  ultimately show "map_option ad_Online (Lookup r' n) = map_option ad_Online (Lookup r n)" for n
    using eff e by (cases "n = m"; cases "Lookup r n") (simp_all add: obs_effect_def)
qed (use eff in \<open>simp_all add: obs_effect_def\<close>)

lemma obs_effect_sources:
  assumes eff: "obs_effect r r' m ip info now obs"
    and no: "\<not> (ad_Role (ob_Adapter obs) = RoleTransmitter \<or> ob_RoleChanged obs)"
  shows "Sources r' = Sources r"
proof (rule Sources_cong)
  show "tx_of (Lookup r' n) = tx_of (Lookup r n)" for n
  proof (cases "n = m")
    case True
    then show ?thesis using eff no by (auto simp: obs_effect_def tx_of_def observed_def Let_def split: option.splits)
  next
    case False
    then show ?thesis using eff by (cases "Lookup r n") (auto simp: tx_of_def obs_effect_def)
  qed
qed (use eff in \<open>simp_all add: obs_effect_def\<close>)

lemma obs_effect_self:
  assumes eff: "obs_effect r r' m ip info now obs" and xs: "xs = observation_calls table og obs"
  shows "set (c_adapter table og (ob_Adapter obs)) \<subseteq> set xs \<or>
    (\<exists>e. Lookup r (ad_MAC e) = Some e \<and> core_calls og (ob_Adapter obs) \<subseteq> set xs \<union> core_calls og e \<and>
       set (c_source table og (ob_Adapter obs)) \<subseteq> set xs \<union> set (c_source table og e))"
proof (cases "Lookup r m")
  case None
  then have "ob_Created obs" "ob_CameOnline obs" using eff by (simp_all add: obs_effect_def)
  from created_covered [OF this refl] show ?thesis unfolding xs by (rule disjI1)
next
  case (Some e)
  have em: "ad_MAC e = m" using eff reg_wfD [of r m e] Some by (simp add: obs_effect_def Lookup_def)
  have ar: "ob_Adapter obs = refreshed_adapter e ip info now" using eff by (simp add: obs_effect_def observed_def Some)
  have fl: "ob_CameOnline obs \<longleftrightarrow> \<not> ad_Online e" "\<not> ob_MetadataChanged obs \<longrightarrow> same_card (ob_Adapter obs) e"
    "\<not> ob_StateChanged obs \<longrightarrow> ad_IP (ob_Adapter obs) = ad_IP e \<and> ad_Channel (ob_Adapter obs) = ad_Channel e"
    "ob_RoleChanged obs \<longleftrightarrow> ad_Role (ob_Adapter obs) \<noteq> ad_Role e" "ob_RoleChanged obs \<longrightarrow> ob_MetadataChanged obs"
    using eff unfolding obs_effect_def Some option.case Let_def ar by blast+
  from observed_covered [OF Some em refl ar fl xs] show ?thesis using Some em by blast
qed

lemma obs_effect_other:
  assumes eff: "obs_effect r r' m ip info now obs" and xs: "xs = observation_calls table og obs"
    and x: "Lookup r' (ad_MAC x) = Some x" "ad_MAC x \<noteq> m"
  shows "\<exists>e. Lookup r (ad_MAC e) = Some e \<and> core_calls og x \<subseteq> set xs \<union> core_calls og e \<and>
       set (c_source table og x) \<subseteq> set xs \<union> set (c_source table og e)"
proof -
  have look: "Lookup r' (ad_MAC x) =
      map_option (\<lambda>b. if occupies r m ip (ad_MAC x) then b\<lparr>ad_Online := False\<rparr> else b) (Lookup r (ad_MAC x))"
    using eff x(2) unfolding obs_effect_def by blast
  show ?thesis
  proof (cases "occupies r m ip (ad_MAC x)")
    case True
    obtain e where e: "Lookup r (ad_MAC x) = Some e" "x = e\<lparr>ad_Online := False\<rparr>"
      using look True x(1) by (cases "Lookup r (ad_MAC x)") auto
    obtain d where d: "ob_Displaced obs = Some d" using True eff by (auto simp: obs_effect_def split: option.splits)
    have dd: "occupies r m ip (ad_MAC d)" "Lookup r' (ad_MAC d) = Some d" "reg_wf r" "one_online_per_ip r"
      using eff unfolding obs_effect_def d by simp_all
    have "ad_MAC d = ad_MAC x" by (rule occupant_unique [OF dd(3,4,1) True])
    then have "d = x" using dd(2) x(1) by (metis option.inject)
    then have "set (c_availability x) \<subseteq> set xs" using d by (simp add: xs observation_calls_def Let_def)
    moreover have "ad_MAC e = ad_MAC x" by (simp add: e(2))
    ultimately show ?thesis using offline_covered [of r e x "set xs" og table] e by simp
  next
    case False
    then show ?thesis using x(1) look unchanged_covered [of r x] by (cases "Lookup r (ad_MAC x)") auto
  qed
qed

lemma observation_in_view:
  assumes eff: "obs_effect r r' m ip info now obs" and view: "in_view r p b0"
  shows "in_view r' (p_observation r' obs p) b0"
  unfolding p_observation_step
proof (rule pub_step_in_view [OF _ _ view refl], goal_cases)
  case 3 then show ?case by (rule obs_effect_counts [OF eff])
next
  case 4 then show ?case by (rule obs_effect_sources [OF eff])
next
  case (5 t v)
  then consider "(t, v) \<in> set (c_adapter (Sources r') (pb_origin p) (ob_Adapter obs))"
    | d where "ob_Displaced obs = Some d" "(t, v) \<in> set (c_adapter (Sources r') (pb_origin p) d)"
    using observation_calls_subset [of "Sources r'" "pb_origin p" obs] by (auto split: option.splits)
  then show ?case using eff by cases (auto simp: obs_effect_def)
next
  case (6 x)
  show ?case
  proof (cases "ad_MAC x = m")
    case True
    then have "x = ob_Adapter obs" using 6 eff by (simp add: obs_effect_def)
    then show ?thesis using obs_effect_self [OF eff refl, of "Sources r'" "pb_origin p"] by simp
  qed (use obs_effect_other [OF eff refl 6] in blast)
qed (use eff in \<open>simp_all add: obs_effect_def\<close>)

definition quiet :: "publisher \<Rightarrow> bool" where
  "quiet p \<longleftrightarrow> (\<forall>(t, v) \<in> set (pb_sent p). \<not> command_topic t)"

lemma everything_in_view:
  assumes "reg_wf r" "quiet p" shows "in_view r (p_everything r p) b0"
proof -
  have "\<forall>(t, v) \<in> set (c_everything r (pb_origin p)). \<not> command_topic t"
    using c_everything_quiet [OF assms(1)] by blast
  then show ?thesis
    using assms(2) by (simp add: quiet_def in_view_def up_to_date_def p_everything_emit broker_append shown_established [OF assms(1)] ball_Un)
qed

lemma recount_in_view: "in_view r p b0 \<Longrightarrow> in_view r (p_scanFinished r p) b0"
  by (simp add: in_view_def up_to_date_def p_scanFinished_def p_counts_emit)

lemma in_view_quiet: "in_view r p b0 \<Longrightarrow> quiet p"
  by (simp add: in_view_def quiet_def)

lemma broker_repeat:
  assumes "holds b cs" "distinct (map fst cs)"
  shows "broker cs b = b"
proof
  fix t
  show "broker cs b t = b t"
  proof (cases "t \<in> fst ` set cs")
    case True
    then obtain v where tv: "(t, v) \<in> set cs" by force
    then have "broker cs b t = nonempty v"
      by (rule broker_last) (metis assms(2) eq_key_imp_eq_value tv)
    also have "\<dots> = b t" using assms(1) tv by (auto simp: holds_def)
    finally show ?thesis .
  qed (rule broker_other)
qed

lemma rejectedName_in_view:
  assumes wf: "reg_wf r" and view: "in_view r p b0" and a: "Lookup r m = Some a"
  shows "in_view r (p_rejectedName a p) b0"
proof -
  have "ad_MAC a = m" using reg_wfD [OF wf] a by (simp add: Lookup_def)
  then have "a \<in> set (All r)" using a in_All [OF wf] by simp
  then have "holds (broker (pb_sent p) b0) (c_name a)"
    using view unfolding in_view_def shown_iff c_everything_def holds_append holds_concat list_all_iff c_adapter_def by blast
  then have "broker (c_name a) (broker (pb_sent p) b0) = broker (pb_sent p) b0"
    by (rule broker_repeat) (simp add: c_name_def)
  moreover have "\<not> command_topic (tp_NameState (ForDevice (ad_MAC a)))"
    by (rule own_topics_quiet [of "ad_MAC a"])
      (use adapter_identity(1) [OF wf \<open>a \<in> set (All r)\<close>] in \<open>simp_all add: own_topics_def state_topics_def state_suffixes_def\<close>)
  ultimately show ?thesis using view
    by (simp add: in_view_def up_to_date_def p_rejectedName_def p_name_emit c_name_def broker_append ball_Un)
qed

section \<open>Properties\<close>

text \<open>
  The updates of the inventory with the publisher call that follows each, as the controller
  makes them.
\<close>

datatype ha_event =
    EvObserve "string list" string device_info gotime
  | EvOffline string
  | EvRename string "string option"
  | EvRejectName string
  | EvScanFinished
  | EvSweep

fun ha_step :: "ha_event \<Rightarrow> registry \<times> publisher \<Rightarrow> registry \<times> publisher" where
  "ha_step (EvObserve order ip info now) (r, p) =
     (case RecordObservation order r ip info now of
        (r', None) \<Rightarrow> (r', p)
      | (r', Some obs) \<Rightarrow> (r', p_observation r' obs p))"
| "ha_step (EvOffline m) (r, p) =
     (case MarkOffline r m of (r', None) \<Rightarrow> (r', p) | (r', Some a) \<Rightarrow> (r', p_offline r' a p))"
| "ha_step (EvRename m n) (r, p) =
     (case SetName r m n of (r', None) \<Rightarrow> (r', p) | (r', Some a) \<Rightarrow> (r', p_renamed r' a p))"
| "ha_step (EvRejectName m) (r, p) =
     (case Lookup r m of None \<Rightarrow> (r, p) | Some a \<Rightarrow> (r, p_rejectedName a p))"
| "ha_step EvScanFinished (r, p) = (r, p_scanFinished r p)"
| "ha_step EvSweep (r, p) = (r, p_everything r p)"

fun ev_ok :: "registry \<Rightarrow> ha_event \<Rightarrow> bool" where
  "ev_ok r (EvObserve order ip info now) \<longleftrightarrow> ValidChannel (di_ChannelID info) \<and> fst ` set r \<subseteq> set order"
| "ev_ok r _ \<longleftrightarrow> True"

fun evs_ok :: "registry \<times> publisher \<Rightarrow> ha_event list \<Rightarrow> bool" where
  "evs_ok s [] \<longleftrightarrow> True"
| "evs_ok s (e # es) \<longleftrightarrow> ev_ok (fst s) e \<and> evs_ok (ha_step e s) es"

definition ha_inv :: "(string \<Rightarrow> string option) \<Rightarrow> registry \<times> publisher \<Rightarrow> bool" where
  "ha_inv b0 s \<longleftrightarrow> reg_wf (fst s) \<and> one_online_per_ip (fst s) \<and> in_view (fst s) (snd s) b0"

lemma ha_step_inv:
  assumes "ha_inv b0 (r, p)" "ev_ok r e"
  shows "ha_inv b0 (ha_step e (r, p))"
proof (cases e)
  case (EvObserve order ip info now)
  obtain r' res where rec: "RecordObservation order r ip info now = (r', res)" by (cases "RecordObservation order r ip info now")
  have "reg_wf r'" "one_online_per_ip r'"
    using RecordObservation_wf [of r info order ip now] RecordObservation_one_online [of r order info ip now] assms EvObserve rec
    by (simp_all add: ha_inv_def)
  moreover have "r' = r" if "res = None"
    using rec that by (auto simp: RecordObservation_def Let_def split: if_splits prod.splits option.splits)
  moreover have "in_view r' (p_observation r' obs p) b0" if "res = Some obs" for obs
    using observation_in_view [OF obs_effectI [of r order info ip now r' obs]] assms EvObserve rec that by (simp add: ha_inv_def)
  ultimately show ?thesis using assms EvObserve rec by (cases res) (auto simp: ha_inv_def)
next
  case (EvOffline m)
  then show ?thesis using assms MarkOffline_wf [of r m] MarkOffline_one_online [of r m] offline_in_view [of r p b0 m]
    by (auto simp: ha_inv_def MarkOffline_def Let_def split: option.splits if_splits)
next
  case (EvRename m n)
  then show ?thesis using assms SetName_wf [of r m n] SetName_one_online [of r m n] renamed_in_view [of r p b0 m n]
    by (auto simp: ha_inv_def SetName_def Let_def split: option.splits)
next
  case (EvRejectName m)
  then show ?thesis using assms rejectedName_in_view [of r p b0 m] by (auto simp: ha_inv_def split: option.splits)
next
  case EvScanFinished
  then show ?thesis using assms recount_in_view by (simp add: ha_inv_def)
next
  case EvSweep
  then show ?thesis using assms everything_in_view [of r p b0] in_view_quiet [of r p b0] by (simp add: ha_inv_def)
qed

lemma ha_run_inv:
  "ha_inv b0 s \<Longrightarrow> evs_ok s es \<Longrightarrow> ha_inv b0 (fold ha_step es s)"
proof (induction es arbitrary: s)
  case (Cons e es)
  have "ha_inv b0 (ha_step e s)" using Cons.prems ha_step_inv [of b0 "fst s" "snd s" e] by simp
  with Cons show ?case by simp
qed simp

lemma sweep_inv:
  assumes "reg_wf r" "one_online_per_ip r" "quiet p" "evs_ok (r, p) (EvSweep # es)"
  shows "ha_inv b0 (fold ha_step (EvSweep # es) (r, p))"
proof -
  have "ha_inv b0 (ha_step EvSweep (r, p))" using everything_in_view assms by (simp add: ha_inv_def)
  then show ?thesis using ha_run_inv [of b0 "ha_step EvSweep (r, p)" es] assms(4) by simp
qed

lemma NewRouter_quiet: "\<not> command_topic t \<Longrightarrow> NewRouter f2i t payload = None"
  by (cases "ParseDeviceCommand t") (simp_all add: command_topic_def NewRouter_def)

text \<open>The registry half of a run, which the conditions are about.\<close>

fun ev_reg :: "ha_event \<Rightarrow> registry \<Rightarrow> registry" where
  "ev_reg (EvObserve order ip info now) r = fst (RecordObservation order r ip info now)"
| "ev_reg (EvOffline m) r = fst (MarkOffline r m)"
| "ev_reg (EvRename m n) r = fst (SetName r m n)"
| "ev_reg _ r = r"

fun reg_evs_ok :: "registry \<Rightarrow> ha_event list \<Rightarrow> bool" where
  "reg_evs_ok r [] \<longleftrightarrow> True"
| "reg_evs_ok r (e # es) \<longleftrightarrow> ev_ok r e \<and> reg_evs_ok (ev_reg e r) es"

lemma fst_ha_step: "fst (ha_step e s) = ev_reg e (fst s)"
  by (cases s; cases e) (auto split: prod.splits option.splits)

lemma evs_ok_reg: "evs_ok s es \<longleftrightarrow> reg_evs_ok (fst s) es"
  by (induction es arbitrary: s) (simp_all add: fst_ha_step)

lemma fold_ha_step_reg: "fst (fold ha_step es s) = fold ev_reg es (fst s)"
  by (induction es arbitrary: s) (simp_all add: fst_ha_step)

definition evening :: "ha_event list" where
  "evening =
     [EvSweep, EvObserve [] ''10.0.0.1'' rx_info 1000, EvObserve [''fc:19:28:6c:d6:d8''] ''10.0.0.2'' tx_info 2000,
      EvRename ''fc:19:28:6c:d2:91'' (Some ''Camera''), EvOffline ''fc:19:28:6c:d6:d8'', EvScanFinished]"

definition fresh_publisher :: publisher where
  "fresh_publisher =
     \<lparr>pb_origin = \<lparr>og_Version = ''2.1.0'', og_SupportURL = ''https://example.org''\<rparr>, pb_lastCounts = None,
      pb_lastSources = [], pb_sent = []\<rparr>"

lemma evening_ok: "evs_ok (New, fresh_publisher) evening" "quiet fresh_publisher"
  unfolding evs_ok_reg fst_conv by code_simp (simp add: quiet_def fresh_publisher_def)

lemma sent_grows: "set (pb_sent (snd s)) \<subseteq> set (pb_sent (snd (fold ha_step es s)))"
proof (induction es arbitrary: s)
  case (Cons e es)
  have "set (pb_sent (snd s)) \<subseteq> set (pb_sent (snd (ha_step e s)))"
    by (cases s; cases e) (auto simp: p_observation_step pub_step_def p_counts_emit refreshSources_emit p_offline_def p_availability_emit
        p_renamed_def p_name_emit p_discovery_def p_discoveryWith_emit p_rejectedName_def p_scanFinished_def p_everything_emit Let_def
        split: prod.splits option.splits)
  with Cons show ?case by fastforce
qed simp

text \<open>
  C15: What Home Assistant sees is right after every update.  Start from any well-formed
  inventory, any retained messages \<open>b0\<close> at the broker, and a full sweep, as after connecting;
  then let adapters be observed, go offline, be renamed or have a rename rejected, scans finish
  and further sweeps happen, in any order.  The retained messages then are, for the inventory
  at that moment, exactly what the specification \<open>shown\<close> asks for: availability, name,
  channel, address and role of every adapter, the source of every receiver, every entity's
  configuration with the current list of sources, no configuration left over from another role,
  and the counters.
\<close>
theorem published_view_correct:
  assumes "reg_wf r" "one_online_per_ip r" "quiet p" "evs_ok (r, p) (EvSweep # es)"
    and "fold ha_step (EvSweep # es) (r, p) = (r', p')"
  shows "shown r' (pb_origin p') (broker (pb_sent p') b0)"
  using sweep_inv [OF assms(1-4), of b0] unfolding assms(5) by (simp add: ha_inv_def in_view_def)

theorem published_view_correct_witness:
  "let (r', p') = fold ha_step evening (New, fresh_publisher)
   in shown r' (pb_origin p') (broker (pb_sent p') (\<lambda>_. Some ''stale'')) \<and>
     map ad_Online (All r') = [True, False] \<and> map DisplayName (All r') = [''Camera'', ''ER02_286CD6D8'']"
proof -
  obtain r' p' where run: "fold ha_step evening (New, fresh_publisher) = (r', p')" by (cases "fold ha_step evening (New, fresh_publisher)")
  have "shown r' (pb_origin p') (broker (pb_sent p') (\<lambda>_. Some ''stale''))"
    by (rule published_view_correct [OF _ _ evening_ok(2) evening_ok(1) [unfolded evening_def] run [unfolded evening_def]])
      (simp_all add: New_wf)
  moreover have r': "r' = fold ev_reg evening New" using fold_ha_step_reg [of evening "(New, fresh_publisher)"] run by simp
  have "map ad_Online (All r') = [True, False]" "map DisplayName (All r') = [''Camera'', ''ER02_286CD6D8'']"
    unfolding r' by code_simp+
  ultimately show ?thesis unfolding run Let_def by simp
qed

text \<open>
  C28: The add-on never commands itself: no message it publishes is on a topic that its own
  router acts on, whatever the payload.
\<close>
theorem publishes_never_routed:
  assumes "reg_wf r" "one_online_per_ip r" "quiet p" "evs_ok (r, p) (EvSweep # es)"
    and "fold ha_step (EvSweep # es) (r, p) = (r', p')" "(t, v) \<in> set (pb_sent p')"
  shows "NewRouter f2i t payload = None"
proof (rule NewRouter_quiet)
  show "\<not> command_topic t"
    using sweep_inv [OF assms(1-4), of "\<lambda>_. None"] assms(6) unfolding assms(5) by (auto simp: ha_inv_def in_view_def)
qed

theorem publishes_never_routed_witness:
  "\<exists>r' p' v. fold ha_step evening (New, fresh_publisher) = (r', p') \<and> (ControllerAvailability, v) \<in> set (pb_sent p') \<and>
     NewRouter id ControllerAvailability ''12'' = None"
proof -
  obtain r' p' where run: "fold ha_step evening (New, fresh_publisher) = (r', p')" by (cases "fold ha_step evening (New, fresh_publisher)")
  have "(ControllerAvailability, PayloadOnline) \<in> set (pb_sent p')"
    using sent_grows [of "ha_step EvSweep (New, fresh_publisher)" "tl evening"] run
    by (auto simp: evening_def p_everything_emit c_everything_def c_controller_def fresh_publisher_def)
  with publishes_never_routed [OF _ _ evening_ok(2) evening_ok(1) [unfolded evening_def] run [unfolded evening_def] this, of id "''12''"]
  show ?thesis using run New_wf by blast
qed

text \<open>
  A sweep repairs everything: whatever the broker retained before (a failed or dropped
  publish, another version's messages), after the messages of one full sweep it holds exactly
  what the specification asks for, and the publisher's memory agrees.
\<close>
theorem sweep_repairs:
  assumes "reg_wf r"
  shows "up_to_date r (p_everything r p) \<and>
    shown r (pb_origin p) (broker (drop (length (pb_sent p)) (pb_sent (p_everything r p))) b)"
  using shown_established [OF assms] by (simp add: p_everything_emit up_to_date_def)

theorem sweep_repairs_witness:
  "let r = fst (RecordObservation [] New ''10.0.0.1'' rx_info 1000)
   in reg_wf r \<and> shown r (pb_origin fresh_publisher)
     (broker (drop (length (pb_sent fresh_publisher)) (pb_sent (p_everything r fresh_publisher))) (\<lambda>_. Some ''stale''))"
proof -
  define r where "r = fst (RecordObservation [] New ''10.0.0.1'' rx_info 1000)"
  have wf: "reg_wf r" unfolding r_def by code_simp
  then show ?thesis using sweep_repairs [OF wf, of fresh_publisher] unfolding Let_def r_def by blast
qed

end
