(* ===== verification/Store.thy ===== *)
theory Store
  imports Registry
begin

text \<open>
  Package \<open>internal/store\<close>: the SQLite inventory, and the in-memory double of
  \<open>internal/testutil/memstore.go\<close>.  The database file is the schema version marker and the
  \<open>adapters\<close> table; a table is an association list from the primary key \<open>mac\<close> to the other
  columns, and SQL \<open>NULL\<close> is \<open>None\<close>.  The statements are translated one by one; the
  parameter \<open>io\<close> (or \<open>fails\<close>) is the failure the database driver reports, if any.

  The interface \<open>Store\<close> is the locale \<open>adapter_store\<close>; both implementations are
  interpretations of it.
\<close>

section \<open>Rows\<close>

record row =
  col_name :: "string option"
  col_reported_name :: "string option"
  col_role :: string
  col_last_known_ip :: "string option"
  col_last_known_channel :: "int option"
  col_product_name :: "string option"
  col_model :: "string option"
  col_firmware :: "string option"
  col_first_seen_at :: int
  col_last_seen_at :: "int option"

type_synonym adapters_table = "(string \<times> row) list"

definition emptyNull :: "string \<Rightarrow> string option" where
  "emptyNull s = (if s = [] then None else Some s)"

definition null_string :: "string option \<Rightarrow> string" where
  "null_string s = (case s of None \<Rightarrow> [] | Some t \<Rightarrow> t)"

definition inserted_row :: "adapter \<Rightarrow> row" where
  "inserted_row a =
     \<lparr>col_name = ad_Name a, col_reported_name = emptyNull (ad_ReportedName a), col_role = ad_Role a,
      col_last_known_ip = emptyNull (ad_IP a), col_last_known_channel = ad_Channel a,
      col_product_name = emptyNull (ad_ProductName a), col_model = emptyNull (ad_Model a),
      col_firmware = emptyNull (ad_Firmware a), col_first_seen_at = unix_milli (ad_FirstSeenAt a),
      col_last_seen_at = (if ad_LastSeenAt a = zero_time then None else Some (unix_milli (ad_LastSeenAt a)))\<rparr>"

definition scanned_adapter :: "string \<Rightarrow> row \<Rightarrow> adapter" where
  "scanned_adapter mac c =
     \<lparr>ad_MAC = mac, ad_ID = AdapterID mac, ad_Role = col_role c, ad_IP = null_string (col_last_known_ip c),
      ad_Name = col_name c, ad_ReportedName = null_string (col_reported_name c),
      ad_ProductName = null_string (col_product_name c), ad_Model = null_string (col_model c),
      ad_Firmware = null_string (col_firmware c), ad_Channel = col_last_known_channel c,
      ad_Online = False, ad_FirstSeenAt = of_unix_milli (col_first_seen_at c),
      ad_LastSeenAt = (case col_last_seen_at c of None \<Rightarrow> zero_time | Some t \<Rightarrow> of_unix_milli t)\<rparr>"

section \<open>Statements\<close>

datatype store_error = DriverError go_error | ErrNotFound | SchemaTooNew int | IndexPanic | TableExists

definition LoadAll :: "go_error option \<Rightarrow> adapters_table \<Rightarrow> store_error + adapter list" where
  "LoadAll io t =
     (case io of
        Some e \<Rightarrow> Inl (DriverError e)
      | None \<Rightarrow> Inr (map (\<lambda>(mac, c). scanned_adapter mac c) (sort_key fst t)))"

text \<open>\<open>INSERT \<dots> ON CONFLICT(mac) DO UPDATE SET\<close> every column but \<open>name\<close>.\<close>

definition upsert :: "adapter \<Rightarrow> adapters_table \<Rightarrow> adapters_table" where
  "upsert a t =
     (let excluded = inserted_row a in
      AList.update (ad_MAC a)
        (case map_of t (ad_MAC a) of
           None \<Rightarrow> excluded
         | Some old \<Rightarrow> excluded\<lparr>col_name := col_name old\<rparr>) t)"

definition Save :: "go_error option \<Rightarrow> adapter \<Rightarrow> adapters_table \<Rightarrow> store_error option \<times> adapters_table" where
  "Save io a t = (case io of Some e \<Rightarrow> (Some (DriverError e), t) | None \<Rightarrow> (None, upsert a t))"

definition store_SetName ::
  "go_error option \<Rightarrow> string \<Rightarrow> string option \<Rightarrow> adapters_table \<Rightarrow> store_error option \<times> adapters_table" where
  "store_SetName io macAddr name t =
     (case io of
        Some e \<Rightarrow> (Some (DriverError e), t)
      | None \<Rightarrow>
          (case map_of t macAddr of
             None \<Rightarrow> (Some ErrNotFound, t)
           | Some c \<Rightarrow> (None, AList.update macAddr (c\<lparr>col_name := name\<rparr>) t)))"

section \<open>Schema migration\<close>

record sqlite_db =
  db_user_version :: int
  db_adapters :: "adapters_table option"

definition schemaVersion :: int where "schemaVersion = 1"

text \<open>The list \<open>migrations\<close>: its only entry creates the table.\<close>

definition migrations :: "(sqlite_db \<Rightarrow> store_error + sqlite_db) list" where
  "migrations =
     [\<lambda>db. if db_adapters db = None then Inr (db\<lparr>db_adapters := Some []\<rparr>) else Inl TableExists]"

definition adoptLegacySchema ::
  "(string \<Rightarrow> go_error option) \<Rightarrow> sqlite_db \<Rightarrow> (store_error + bool) \<times> sqlite_db" where
  "adoptLegacySchema fails db =
     (case fails ''SELECT count(*) FROM sqlite_master'' of
        Some e \<Rightarrow> (Inl (DriverError e), db)
      | None \<Rightarrow>
          if db_adapters db = None then (Inr False, db)
          else case fails ''PRAGMA user_version = 1'' of
            Some e \<Rightarrow> (Inl (DriverError e), db)
          | None \<Rightarrow> (Inr True, db\<lparr>db_user_version := 1\<rparr>))"

text \<open>
  One migration in its transaction: a failure rolls back to the state before it.  The driver's
  failures, \<open>fails\<close>, are keyed by the statement.
\<close>

definition run_migration :: "(string \<Rightarrow> go_error option) \<Rightarrow> int \<Rightarrow> sqlite_db \<Rightarrow> store_error + sqlite_db" where
  "run_migration fails v db =
     (case fails ''BEGIN'' of Some e \<Rightarrow> Inl (DriverError e) | None \<Rightarrow>
      if v < 0 \<or> v \<ge> int (length migrations) then Inl IndexPanic
      else case fails ''migration'' of Some e \<Rightarrow> Inl (DriverError e) | None \<Rightarrow>
      (case (migrations ! nat v) db of Inl e \<Rightarrow> Inl e | Inr db1 \<Rightarrow>
       (case fails (''PRAGMA user_version = '' @ itoa (v + 1)) of Some e \<Rightarrow> Inl (DriverError e) | None \<Rightarrow>
        (case fails ''COMMIT'' of Some e \<Rightarrow> Inl (DriverError e) | None \<Rightarrow>
           Inr (db1\<lparr>db_user_version := v + 1\<rparr>)))))"

function run_migrations ::
  "(string \<Rightarrow> go_error option) \<Rightarrow> int \<Rightarrow> sqlite_db \<Rightarrow> store_error option \<times> sqlite_db" where
  "run_migrations fails v db =
     (if v < schemaVersion then
        (case run_migration fails v db of
           Inl e \<Rightarrow> (Some e, db)
         | Inr db' \<Rightarrow> run_migrations fails (v + 1) db')
      else (None, db))"
  by pat_completeness auto
termination
  by (relation "measure (\<lambda>(fails, v, db). nat (schemaVersion - v))") auto

declare run_migrations.simps [simp del]

definition migrate :: "(string \<Rightarrow> go_error option) \<Rightarrow> sqlite_db \<Rightarrow> store_error option \<times> sqlite_db" where
  "migrate fails db =
     (case fails ''PRAGMA user_version'' of
        Some e \<Rightarrow> (Some (DriverError e), db)
      | None \<Rightarrow>
          let current = db_user_version db in
          (case (if current = 0 then adoptLegacySchema fails db else (Inr False, db)) of
             (Inl e, db') \<Rightarrow> (Some e, db')
           | (Inr adopted, db') \<Rightarrow>
               let current = (if adopted then 1 else current) in
               if current > schemaVersion then (Some (SchemaTooNew current), db')
               else run_migrations fails current db'))"

section \<open>Opening the database\<close>

text \<open>
  \<open>Open\<close>: the connection, its pragmas and the migration, in this order; the first failure is
  returned (joined with the error of closing, which is left out) and ends it.
\<close>

definition pragmas :: "string list" where
  "pragmas = [''PRAGMA journal_mode = WAL'', ''PRAGMA synchronous = NORMAL'', ''PRAGMA busy_timeout = 5000'']"

fun exec_pragmas :: "(string \<Rightarrow> go_error option) \<Rightarrow> string list \<Rightarrow> go_error option" where
  "exec_pragmas fails [] = None"
| "exec_pragmas fails (p # ps) = (case fails p of Some e \<Rightarrow> Some e | None \<Rightarrow> exec_pragmas fails ps)"

definition Open :: "(string \<Rightarrow> go_error option) \<Rightarrow> sqlite_db \<Rightarrow> store_error option \<times> sqlite_db" where
  "Open fails db =
     (case fails ''sql.Open'' of
        Some e \<Rightarrow> (Some (DriverError e), db)
      | None \<Rightarrow>
          (case exec_pragmas fails pragmas of
             Some e \<Rightarrow> (Some (DriverError e), db)
           | None \<Rightarrow> migrate fails db))"

section \<open>The in-memory store of the tests\<close>

type_synonym memory_store = "(string \<times> adapter) list"

definition mem_LoadAll :: "memory_store \<Rightarrow> adapter list" where
  "mem_LoadAll s = sort_key ad_MAC (map (\<lambda>(k, a). a\<lparr>ad_Online := False\<rparr>) s)"

definition mem_Save :: "adapter \<Rightarrow> memory_store \<Rightarrow> memory_store" where
  "mem_Save a s =
     AList.update (ad_MAC a)
       (case map_of s (ad_MAC a) of None \<Rightarrow> a | Some existing \<Rightarrow> a\<lparr>ad_Name := ad_Name existing\<rparr>) s"

definition mem_SetName :: "string \<Rightarrow> string option \<Rightarrow> memory_store \<Rightarrow> store_error option \<times> memory_store" where
  "mem_SetName mac name s =
     (case map_of s mac of
        None \<Rightarrow> (Some ErrNotFound, s)
      | Some a \<Rightarrow> (None, AList.update mac (a\<lparr>ad_Name := name\<rparr>) s))"

section \<open>The interface\<close>

text \<open>
  \<open>stored s m\<close> is what a load returns for a MAC; \<open>persisted a\<close> is what survives of an adapter
  when it is written for the first time.  The laws say who owns which column: \<open>save\<close> owns
  everything but the name of a known adapter, \<open>set_name\<close> owns the name.
\<close>

locale adapter_store =
  fixes stored :: "'s \<Rightarrow> string \<Rightarrow> adapter option"
    and save :: "adapter \<Rightarrow> 's \<Rightarrow> 's"
    and set_name :: "string \<Rightarrow> string option \<Rightarrow> 's \<Rightarrow> store_error option \<times> 's"
    and persisted :: "adapter \<Rightarrow> adapter"
  assumes stored_save:
      "stored (save a s) = (stored s)(ad_MAC a \<mapsto>
         (case stored s (ad_MAC a) of
            None \<Rightarrow> persisted a
          | Some b \<Rightarrow> (persisted a)\<lparr>ad_Name := ad_Name b\<rparr>))"
    and set_name_known:
      "stored s m = Some b \<Longrightarrow> fst (set_name m n s) = None
         \<and> stored (snd (set_name m n s)) = (stored s)(m \<mapsto> b\<lparr>ad_Name := n\<rparr>)"
    and set_name_unknown: "stored s m = None \<Longrightarrow> set_name m n s = (Some ErrNotFound, s)"
    and persisted_name: "ad_Name (persisted a) = ad_Name a"
    and persisted_offline: "\<not> ad_Online (persisted a)"
begin

lemma stored_name_save:
  "stored s m = Some b \<Longrightarrow> map_option ad_Name (stored (save a s) m) = Some (ad_Name b)"
  by (auto simp: stored_save)

text \<open>A name, once set, survives every number of saves of older snapshots.\<close>

lemma name_survives_saves:
  assumes "map_option ad_Name (stored s m) = Some n"
  shows "map_option ad_Name (stored (fold save snapshots s) m) = Some n"
  using assms
proof (induction snapshots arbitrary: s)
  case (Cons a snapshots)
  then have "map_option ad_Name (stored (save a s) m) = Some n"
    using stored_name_save by fastforce
  with Cons.IH show ?case by simp
qed simp

lemma rename_then_saves:
  assumes "stored s m \<noteq> None"
  shows "map_option ad_Name (stored (fold save snapshots (snd (set_name m n s))) m) = Some n"
  using assms set_name_known [of s m _ n] by (intro name_survives_saves) fastforce

text \<open>A rename of an adapter that has no row yet is lost when its row is written later.\<close>

lemma early_rename_lost:
  assumes "stored s (ad_MAC a) = None"
  shows "fst (set_name (ad_MAC a) n s) = Some ErrNotFound
    \<and> map_option ad_Name (stored (save a (snd (set_name (ad_MAC a) n s))) (ad_MAC a)) = Some (ad_Name a)"
  using assms by (simp add: set_name_unknown stored_save persisted_name)

end

section \<open>SQLite implements the interface\<close>

definition sqlite_stored :: "adapters_table \<Rightarrow> string \<Rightarrow> adapter option" where
  "sqlite_stored t m = map_option (scanned_adapter m) (map_of t m)"

text \<open>Times are kept with millisecond precision; a missing last-seen time stays missing.\<close>

definition sqlite_persisted :: "adapter \<Rightarrow> adapter" where
  "sqlite_persisted a =
     a\<lparr>ad_ID := AdapterID (ad_MAC a), ad_Online := False,
       ad_FirstSeenAt := of_unix_milli (unix_milli (ad_FirstSeenAt a)),
       ad_LastSeenAt := (if ad_LastSeenAt a = zero_time then zero_time
                         else of_unix_milli (unix_milli (ad_LastSeenAt a)))\<rparr>"

lemma null_string_emptyNull [simp]: "null_string (emptyNull s) = s"
  by (simp add: null_string_def emptyNull_def)

lemma scanned_inserted: "scanned_adapter (ad_MAC a) (inserted_row a) = sqlite_persisted a"
  by (cases a) (simp add: scanned_adapter_def inserted_row_def sqlite_persisted_def)

lemma scanned_name: "scanned_adapter m (c\<lparr>col_name := n\<rparr>) = (scanned_adapter m c)\<lparr>ad_Name := n\<rparr>"
  by (simp add: scanned_adapter_def)

interpretation sqlite: adapter_store sqlite_stored upsert "store_SetName None" sqlite_persisted
proof (unfold_locales, goal_cases)
  case (1 a s)
  show ?case
    by (rule ext) (auto simp: sqlite_stored_def upsert_def update_conv' Let_def scanned_inserted
        scanned_name split: option.splits, simp add: scanned_adapter_def)
next
  case (2 s m b n)
  then show ?case
    by (auto simp: sqlite_stored_def store_SetName_def update_conv' scanned_name fun_eq_iff)
qed (simp_all add: sqlite_stored_def store_SetName_def sqlite_persisted_def)

section \<open>The in-memory store implements the interface\<close>

definition mem_stored :: "memory_store \<Rightarrow> string \<Rightarrow> adapter option" where
  "mem_stored s m = map_option (ad_Online_update (\<lambda>_. False)) (map_of s m)"

interpretation memory: adapter_store mem_stored mem_Save mem_SetName "ad_Online_update (\<lambda>_. False)"
proof (unfold_locales, goal_cases)
  case (1 a s)
  show ?case by (rule ext) (auto simp: mem_stored_def mem_Save_def update_conv' split: option.splits)
next
  case (2 s m b n)
  then show ?case by (auto simp: mem_stored_def mem_SetName_def update_conv' fun_eq_iff)
qed (simp_all add: mem_stored_def mem_SetName_def)

section \<open>Lemmas\<close>

lemma LoadAll_ok: "LoadAll None t = Inr (map (\<lambda>(mac, c). scanned_adapter mac c) (sort_key fst t))"
  by (simp add: LoadAll_def)

lemma ad_MAC_scanned [simp]: "ad_MAC (scanned_adapter m c) = m"
  by (simp add: scanned_adapter_def)

lemma map_MAC_loaded: "map ad_MAC (map (\<lambda>(mac, c). scanned_adapter mac c) xs) = map fst xs"
  by (auto simp: case_prod_beta)

lemma loaded_iff:
  assumes "distinct (map fst t)"
  shows "a \<in> set (map (\<lambda>(mac, c). scanned_adapter mac c) (sort_key fst t)) \<longleftrightarrow>
    sqlite_stored t (ad_MAC a) = Some a"
  using assms by (auto simp: sqlite_stored_def image_iff intro!: bexI [of _ "(ad_MAC a, _)"])

lemma upsert_distinct: "distinct (map fst t) \<Longrightarrow> distinct (map fst (upsert a t))"
  by (simp add: upsert_def distinct_update Let_def)

lemma run_migrations_done: "schemaVersion \<le> v \<Longrightarrow> run_migrations fails v db = (None, db)"
  by (simp add: run_migrations.simps)

lemma run_migration_Inr:
  "run_migration fails v db = Inr db' \<Longrightarrow>
     v = 0 \<and> db_adapters db = None \<and> db' = \<lparr>db_user_version = 1, db_adapters = Some []\<rparr>"
  by (cases db) (auto simp: run_migration_def migrations_def split: option.splits if_splits)

lemma run_migrations_cases:
  "run_migrations fails v db = (None, db) \<and> schemaVersion \<le> v
   \<or> (\<exists>e. run_migrations fails v db = (Some e, db)) \<and> v < schemaVersion
   \<or> run_migrations fails v db = (None, \<lparr>db_user_version = 1, db_adapters = Some []\<rparr>)
       \<and> v = 0 \<and> db_adapters db = None"
proof (cases "v < schemaVersion")
  case True
  show ?thesis
  proof (cases "run_migration fails v db")
    case (Inl e)
    with True show ?thesis by (simp add: run_migrations.simps [of fails v])
  next
    case (Inr db')
    note run_migration_Inr [OF Inr]
    moreover from this have "run_migrations fails (v + 1) db' = (None, db')"
      by (intro run_migrations_done) (simp add: schemaVersion_def)
    then have "run_migrations fails v db = (None, db')"
      using Inr True by (simp add: run_migrations.simps [of fails v])
    ultimately show ?thesis by simp
  qed
next
  case False
  then show ?thesis by (simp add: run_migrations_done)
qed

section \<open>Properties\<close>

text \<open>C24: saving an adapter and loading the inventory gives it back, offline, with millisecond
  timestamps and with the name that was stored before, if its row existed; all other adapters
  load as before, and the inventory is ordered by MAC without duplicates.\<close>

theorem save_load_round_trip:
  assumes "distinct (map fst t)" "LoadAll None t = Inr before"
    and "Save None a t = (None, t')" "LoadAll None t' = Inr after"
  shows "sorted (map ad_MAC after) \<and> distinct (map ad_MAC after)
    \<and> (\<forall>b. b \<in> set after \<longleftrightarrow>
        (if ad_MAC b = ad_MAC a
         then b = (sqlite_persisted a)\<lparr>ad_Name :=
             (case map_of t (ad_MAC a) of None \<Rightarrow> ad_Name a | Some c \<Rightarrow> col_name c)\<rparr>
         else b \<in> set before))"
proof -
  have t': "t' = upsert a t" using assms(3) by (simp add: Save_def)
  then have d: "distinct (map fst t')" using assms(1) by (simp add: upsert_distinct)
  have eq: "before = map (\<lambda>(mac, c). scanned_adapter mac c) (sort_key fst t)"
    "after = map (\<lambda>(mac, c). scanned_adapter mac c) (sort_key fst t')"
    using assms(2,4) by (simp_all add: LoadAll_ok)
  have mac: "ad_MAC (sqlite_persisted a) = ad_MAC a" by (simp add: sqlite_persisted_def)
  have same: "sqlite_persisted a\<lparr>ad_Name := ad_Name a\<rparr> = sqlite_persisted a"
    by (cases a) (simp add: sqlite_persisted_def)
  have "b \<in> set after \<longleftrightarrow>
        (if ad_MAC b = ad_MAC a
         then b = (sqlite_persisted a)\<lparr>ad_Name :=
             (case map_of t (ad_MAC a) of None \<Rightarrow> ad_Name a | Some c \<Rightarrow> col_name c)\<rparr>
         else b \<in> set before)" for b
    unfolding eq loaded_iff [OF d] loaded_iff [OF assms(1)] unfolding t' sqlite.stored_save
    using mac same by (auto simp: sqlite_stored_def scanned_adapter_def split: option.splits)
  then show ?thesis
    unfolding eq map_MAC_loaded using d
    by (metis sorted_sort_key distinct_map distinct_sort set_sort)
qed

theorem save_load_round_trip_witness:
  "let a = new_adapter ''fc:19:28:6c:d6:d8'' ''10.0.0.1'' rx_info 1234567890
   in \<exists>after. LoadAll None (upsert a []) = Inr after
        \<and> sqlite_persisted a \<in> set after \<and> ad_FirstSeenAt (sqlite_persisted a) = 1234000000"
proof -
  let ?a = "new_adapter ''fc:19:28:6c:d6:d8'' ''10.0.0.1'' rx_info 1234567890"
  obtain after where after: "LoadAll None (upsert ?a []) = Inr after" by (simp add: LoadAll_ok)
  have "sqlite_persisted ?a\<lparr>ad_Name := ad_Name ?a\<rparr> = sqlite_persisted ?a"
    by (simp add: sqlite_persisted_def new_adapter_def)
  moreover have "ad_FirstSeenAt (sqlite_persisted ?a) = 1234000000" "ad_MAC (sqlite_persisted ?a) = ad_MAC ?a"
    by (simp_all add: sqlite_persisted_def new_adapter_def unix_milli_def of_unix_milli_def)
  moreover have "sqlite_persisted ?a \<in> set after"
    using save_load_round_trip [of "[]" "[]" ?a, OF _ _ _ after] calculation
    by (simp add: LoadAll_def Save_def)
  ultimately show ?thesis using after unfolding Let_def by blast
qed

text \<open>C19: a name set by the user is what a load returns, no matter how many snapshots taken before
  the rename are saved after it; \<open>Save\<close> owns every column but the name.\<close>

theorem rename_survives_stale_saves:
  assumes "map_of t m \<noteq> None" "store_SetName None m name t = (err, t')"
  shows "err = None \<and> map_option col_name (map_of (fold upsert snapshots t') m) = Some name"
proof -
  have "sqlite_stored t m \<noteq> None" using assms(1) by (simp add: sqlite_stored_def)
  from sqlite.rename_then_saves [OF this, of snapshots name] assms(2)
  have "map_option ad_Name (sqlite_stored (fold upsert snapshots t') m) = Some name" by simp
  then show ?thesis using assms
    by (auto simp: sqlite_stored_def scanned_adapter_def store_SetName_def)
qed

theorem rename_survives_stale_saves_witness:
  "let a = new_adapter ''fc:19:28:6c:d6:d8'' ''10.0.0.1'' rx_info 0
   in map_option col_name (map_of (fold upsert [a, a]
        (snd (store_SetName None ''fc:19:28:6c:d6:d8'' (Some ''Lobby'') (upsert a [])))) ''fc:19:28:6c:d6:d8'')
      = Some (Some ''Lobby'')"
proof -
  let ?a = "new_adapter ''fc:19:28:6c:d6:d8'' ''10.0.0.1'' rx_info 0"
  have "map_of (upsert ?a []) ''fc:19:28:6c:d6:d8'' \<noteq> None" by (simp add: upsert_def Let_def)
  from rename_survives_stale_saves [OF this surjective_pairing] show ?thesis unfolding Let_def by blast
qed

lemma migrate_keeps:
  assumes "migrate fails db = (res, db')"
  shows "(db_adapters db \<noteq> None \<longrightarrow> db_adapters db' = db_adapters db)
    \<and> (res = None \<longrightarrow> db_user_version db' = 1 \<and> (db_user_version db = 0 \<longrightarrow> db_adapters db' \<noteq> None))
    \<and> (db_user_version db > 1 \<longrightarrow> res \<noteq> None \<and> db' = db)"
proof (cases "fails ''PRAGMA user_version''")
  case (Some e)
  then show ?thesis using assms by (auto simp: migrate_def)
next
  case None
  show ?thesis
  proof (cases "db_user_version db = 0")
    case False
    then show ?thesis
      using None assms run_migrations_cases [of fails "db_user_version db" db]
      by (auto simp: migrate_def Let_def schemaVersion_def split: if_splits)
  next
    case True
    then show ?thesis
      using None assms run_migrations_cases [of fails 0 db] run_migrations_done [of 1 fails]
      by (auto simp: migrate_def adoptLegacySchema_def Let_def schemaVersion_def
          split: if_splits option.splits)
  qed
qed

text \<open>C26: whatever statement fails, migration never loses the rows of an existing inventory; when
  it succeeds from an old or unmarked database the schema version is the current one and the
  table exists; a database of a newer schema is refused and left alone.\<close>

theorem migrate_safe:
  assumes "migrate fails db = (res, db')"
  shows "(db_adapters db \<noteq> None \<longrightarrow> db_adapters db' = db_adapters db)
    \<and> (res = None \<longrightarrow> db_user_version db' = 1 \<and> (db_user_version db = 0 \<longrightarrow> db_adapters db' \<noteq> None))
    \<and> (db_user_version db > 1 \<longrightarrow> res \<noteq> None \<and> db' = db)"
  by (rule migrate_keeps [OF assms])

definition legacy_db :: sqlite_db where
  "legacy_db = \<lparr>db_user_version = 0, db_adapters = Some [(''fc:19:28:6c:d6:d8'',
     inserted_row (new_adapter ''fc:19:28:6c:d6:d8'' ''10.0.0.1'' rx_info 0))]\<rparr>"

theorem migrate_safe_witness:
  "db_adapters legacy_db \<noteq> None \<and> db_adapters (snd (migrate (\<lambda>_. None) legacy_db)) = db_adapters legacy_db"
proof -
  have "db_adapters legacy_db \<noteq> None" by (simp add: legacy_db_def)
  with migrate_safe [OF surjective_pairing [of "migrate (\<lambda>_. None) legacy_db"]] show ?thesis by blast
qed

end
