(* ===== verification/Json_Parser.thy ===== *)
theory Json_Parser
  imports Json
begin

text \<open>
  The syntax of JSON as \<open>encoding/json\<close> reads it: \<open>parse_json\<close> turns a text into a value
  tree, or fails.  Strings are unquoted as \<open>json.Unmarshal\<close> does it (escapes, surrogate pairs,
  U+FFFD for invalid bytes), numbers keep their literal text, object members keep their order
  and duplicates, and nesting is limited to 10000 levels.

  The parser recurses with a fuel argument of twice the length of the text plus two: the
  recursion through a list or an object spends two units of fuel for each element or member,
  and each of these consumes at least one character.  More fuel changes nothing
  (\<open>parse_json_fuel\<close>), so running out of it is not one of the ways to fail.
\<close>

section \<open>Lexemes\<close>

definition json_space :: "char \<Rightarrow> bool" where
  "json_space c \<longleftrightarrow> c \<in> {CHR '' '', CHR 0x09, CHR 0x0A, CHR 0x0D}"

definition skip_space :: "string \<Rightarrow> string" where
  "skip_space s = dropWhile json_space s"

definition hex_val :: "char \<Rightarrow> nat option" where
  "hex_val c =
     (let l = lower_char c in
      if is_digit l then Some (of_char l - 48)
      else if CHR ''a'' \<le> l \<and> l \<le> CHR ''f'' then Some (of_char l - 87)
      else None)"

definition hex4 :: "string \<Rightarrow> nat option" where
  "hex4 s =
     (case s of
        a # b # c # d # _ \<Rightarrow>
          (case (hex_val a, hex_val b, hex_val c, hex_val d) of
             (Some a, Some b, Some c, Some d) \<Rightarrow> Some (((a * 16 + b) * 16 + c) * 16 + d)
           | _ \<Rightarrow> None)
      | _ \<Rightarrow> None)"

text \<open>\<open>utf8.AppendRune\<close> for the code points that occur here.\<close>

definition utf8_encode :: "nat \<Rightarrow> string" where
  "utf8_encode n =
     (if n < 0x80 then [char_of n]
      else if n < 0x800 then [char_of (0xC0 + n div 64), char_of (0x80 + n mod 64)]
      else if n < 0x10000 then [char_of (0xE0 + n div 4096), char_of (0x80 + n div 64 mod 64), char_of (0x80 + n mod 64)]
      else [char_of (0xF0 + n div 262144), char_of (0x80 + n div 4096 mod 64),
            char_of (0x80 + n div 64 mod 64), char_of (0x80 + n mod 64)])"

definition replacement_rune :: nat where "replacement_rune = 0xFFFD"

text \<open>
  A \<open>\u\<close> escape: the rune it stands for and the text after it.  A high surrogate followed by
  an escaped low surrogate is one rune; any other surrogate is U+FFFD.
\<close>

definition unicode_escape :: "string \<Rightarrow> (string \<times> string) option" where
  "unicode_escape s =
     (case hex4 s of
        None \<Rightarrow> None
      | Some n \<Rightarrow>
          let rest = drop 4 s in
          if n < 0xD800 \<or> n > 0xDFFF then Some (utf8_encode n, rest)
          else
            (case (if prefix [CHR 0x5C, CHR ''u''] rest then hex4 (drop 2 rest) else None) of
               Some k \<Rightarrow>
                 if n < 0xDC00 \<and> 0xDC00 \<le> k \<and> k \<le> 0xDFFF
                 then Some (utf8_encode ((n - 0xD800) * 1024 + (k - 0xDC00) + 0x10000), drop 6 rest)
                 else Some (utf8_encode replacement_rune, rest)
             | None \<Rightarrow> Some (utf8_encode replacement_rune, rest)))"

definition escape_char :: "char \<Rightarrow> char option" where
  "escape_char c =
     map_of [(CHR 0x22, CHR 0x22), (CHR 0x5C, CHR 0x5C), (CHR ''/'', CHR ''/''), (CHR ''b'', CHR 0x08),
             (CHR ''f'', CHR 0x0C), (CHR ''n'', CHR 0x0A), (CHR ''r'', CHR 0x0D), (CHR ''t'', CHR 0x09)] c"

text \<open>
  The rest of a string after its opening quote: the contents and the text after the closing
  quote.  The text after an escape and after a rune is always shorter; the two tests that say
  so are there for termination.
\<close>

function parse_string :: "string \<Rightarrow> (string \<times> string) option" where
  "parse_string s =
     (case s of
        [] \<Rightarrow> None
      | c # cs \<Rightarrow>
          if c = CHR 0x22 then Some ([], cs)
          else if c = CHR 0x5C then
            (case cs of
               [] \<Rightarrow> None
             | e # es \<Rightarrow>
                 if e = CHR ''u'' then
                   (case unicode_escape es of
                      None \<Rightarrow> None
                    | Some (r, rest) \<Rightarrow>
                        if length rest < length s
                        then map_option (\<lambda>(t, q). (r @ t, q)) (parse_string rest) else None)
                 else
                   (case escape_char e of
                      None \<Rightarrow> None
                    | Some d \<Rightarrow> map_option (\<lambda>(t, q). (d # t, q)) (parse_string es)))
          else if c < CHR 0x20 then None
          else
            (case rune_size s of
               (n, ok) \<Rightarrow> if n = 0 then None
                 else map_option (\<lambda>(t, q). ((if ok then take n s else utf8_encode replacement_rune) @ t, q))
                   (parse_string (drop n s))))"
  by pat_completeness auto
termination
  by (relation "measure length") auto

declare parse_string.simps [simp del]

text \<open>A number literal at the head of the text.\<close>

definition take_int :: "string \<Rightarrow> (string \<times> string) option" where
  "take_int s =
     (case s of
        [] \<Rightarrow> None
      | c # cs \<Rightarrow>
          if c = CHR ''0'' then Some ([c], cs)
          else if is_digit c then Some (c # takeWhile is_digit cs, dropWhile is_digit cs)
          else None)"

definition take_frac :: "string \<Rightarrow> (string \<times> string) option" where
  "take_frac s =
     (case s of
        c # cs \<Rightarrow>
          if c = CHR ''.'' then
            (if cs = [] \<or> \<not> is_digit (hd cs) then None
             else Some (c # takeWhile is_digit cs, dropWhile is_digit cs))
          else Some ([], s)
      | [] \<Rightarrow> Some ([], s))"

definition take_exp :: "string \<Rightarrow> (string \<times> string) option" where
  "take_exp s =
     (case s of
        c # cs \<Rightarrow>
          if c = CHR ''e'' \<or> c = CHR ''E'' then
            (let sgn = (if cs \<noteq> [] \<and> hd cs \<in> {CHR ''+'', CHR ''-''} then [hd cs] else []);
                 ds = drop (length sgn) cs in
             if ds = [] \<or> \<not> is_digit (hd ds) then None
             else Some (c # sgn @ takeWhile is_digit ds, dropWhile is_digit ds))
          else Some ([], s)
      | [] \<Rightarrow> Some ([], s))"

definition parse_number :: "string \<Rightarrow> (json \<times> string) option" where
  "parse_number s =
     (let neg = (if s \<noteq> [] \<and> hd s = CHR ''-'' then ''-'' else []) in
      case take_int (drop (length neg) s) of
        None \<Rightarrow> None
      | Some (i, s1) \<Rightarrow>
          (case take_frac s1 of
             None \<Rightarrow> None
           | Some (f, s2) \<Rightarrow>
               (case take_exp s2 of
                  None \<Rightarrow> None
                | Some (e, s3) \<Rightarrow> Some (JNum (neg @ i @ f @ e), s3))))"

section \<open>Values\<close>

definition maxNestingDepth :: nat where "maxNestingDepth = 10000"

text \<open>
  The text is taken without leading space.  \<open>parse_elements\<close> and \<open>parse_members\<close> are called
  after an element or member is known to follow.
\<close>

fun parse_value :: "nat \<Rightarrow> nat \<Rightarrow> string \<Rightarrow> (json \<times> string) option"
  and parse_elements :: "nat \<Rightarrow> nat \<Rightarrow> string \<Rightarrow> (json list \<times> string) option"
  and parse_members :: "nat \<Rightarrow> nat \<Rightarrow> string \<Rightarrow> ((string \<times> json) list \<times> string) option"
where
  "parse_value 0 d s = None"
| "parse_value (Suc fuel) d s =
     (case skip_space s of
        [] \<Rightarrow> None
      | c # cs \<Rightarrow>
          if c = CHR ''{'' then
            (if d \<ge> maxNestingDepth then None
             else if prefix ''}'' (skip_space cs) then Some (JObj [], tl (skip_space cs))
             else map_option (\<lambda>(ms, q). (JObj ms, q)) (parse_members fuel (Suc d) cs))
          else if c = CHR ''['' then
            (if d \<ge> maxNestingDepth then None
             else if prefix '']'' (skip_space cs) then Some (JArr [], tl (skip_space cs))
             else map_option (\<lambda>(xs, q). (JArr xs, q)) (parse_elements fuel (Suc d) cs))
          else if c = CHR 0x22 then map_option (\<lambda>(t, q). (JStr t, q)) (parse_string cs)
          else if prefix ''true'' (c # cs) then Some (JBool True, drop 3 cs)
          else if prefix ''false'' (c # cs) then Some (JBool False, drop 4 cs)
          else if prefix ''null'' (c # cs) then Some (JNull, drop 3 cs)
          else parse_number (c # cs))"
| "parse_elements 0 d s = None"
| "parse_elements (Suc fuel) d s =
     (case parse_value fuel d s of
        None \<Rightarrow> None
      | Some (v, q) \<Rightarrow>
          (case skip_space q of
             [] \<Rightarrow> None
           | c # cs \<Rightarrow>
               if c = CHR '']'' then Some ([v], cs)
               else if c = CHR '','' then map_option (\<lambda>(xs, q). (v # xs, q)) (parse_elements fuel d cs)
               else None))"
| "parse_members 0 d s = None"
| "parse_members (Suc fuel) d s =
     (case skip_space s of
        [] \<Rightarrow> None
      | c # cs \<Rightarrow>
          if c \<noteq> CHR 0x22 then None
          else (case parse_string cs of
             None \<Rightarrow> None
           | Some (k, q) \<Rightarrow>
               (case skip_space q of
                  [] \<Rightarrow> None
                | c # cs \<Rightarrow>
                    if c \<noteq> CHR '':'' then None
                    else (case parse_value fuel d cs of
                       None \<Rightarrow> None
                     | Some (v, q) \<Rightarrow>
                         (case skip_space q of
                            [] \<Rightarrow> None
                          | c # cs \<Rightarrow>
                              if c = CHR ''}'' then Some ([(k, v)], cs)
                              else if c = CHR '','' then map_option (\<lambda>(ms, q). ((k, v) # ms, q)) (parse_members fuel d cs)
                              else None)))))"

definition parse_json :: "string \<Rightarrow> json option" where
  "parse_json s =
     (case parse_value (2 * length s + 2) 0 s of
        None \<Rightarrow> None
      | Some (v, q) \<Rightarrow> if skip_space q = [] then Some v else None)"

section \<open>The fuel is enough\<close>

lemma skip_space_length: "length (skip_space s) \<le> length s"
  by (simp add: skip_space_def length_dropWhile_le)

lemma parse_string_Nil [simp]: "parse_string [] = None"
  by (simp add: parse_string.simps)

lemma parse_string_quote [simp]: "parse_string (CHR 0x22 # cs) = Some ([], cs)"
  by (simp add: parse_string.simps [of "CHR 0x22 # cs"])

lemma parse_string_backslash:
  "parse_string (CHR 0x5C # cs) =
     (case cs of
        [] \<Rightarrow> None
      | e # es \<Rightarrow>
          if e = CHR ''u'' then
            (case unicode_escape es of
               None \<Rightarrow> None
             | Some (r, rest) \<Rightarrow>
                 if length rest < length (CHR 0x5C # cs) then map_option (\<lambda>(t, q). (r @ t, q)) (parse_string rest) else None)
          else
            (case escape_char e of
               None \<Rightarrow> None
             | Some d \<Rightarrow> map_option (\<lambda>(t, q). (d # t, q)) (parse_string es)))"
  by (subst parse_string.simps) simp

lemma parse_string_plain:
  "c \<noteq> CHR 0x22 \<Longrightarrow> c \<noteq> CHR 0x5C \<Longrightarrow>
     parse_string (c # cs) =
       (if c < CHR 0x20 then None
        else
          (case rune_size (c # cs) of
             (n, ok) \<Rightarrow> if n = 0 then None
               else map_option (\<lambda>(t, q). ((if ok then take n (c # cs) else utf8_encode replacement_rune) @ t, q))
                 (parse_string (drop n (c # cs)))))"
  by (subst parse_string.simps) simp

lemma parse_string_shorter: "parse_string s = Some (t, q) \<Longrightarrow> length q < length s"
proof (induction "length s" arbitrary: s t q rule: less_induct)
  case less
  have IH: "parse_string x = Some (u, q) \<Longrightarrow> length x < length s \<Longrightarrow> length q < length s" for x u
    using less.hyps [of x u q] by simp
  show ?case
  proof (cases s)
    case (Cons c cs)
    consider (quote) "c = CHR 0x22" | (escape) "c = CHR 0x5C" | (plain) "c \<noteq> CHR 0x22" "c \<noteq> CHR 0x5C" by blast
    then show ?thesis
    proof cases
      case escape
      then show ?thesis using less.prems Cons IH
        by (cases cs) (auto simp: parse_string_backslash split: option.splits if_splits)
    next
      case plain
      obtain n ok where r: "rune_size (c # cs) = (n, ok)" by (cases "rune_size (c # cs)")
      then obtain u where "n \<noteq> 0" "parse_string (drop n s) = Some (u, q)"
        using less.prems Cons plain by (auto simp: parse_string_plain split: if_splits)
      then show ?thesis using IH [of "drop n s" u] Cons by simp
    qed (use less.prems Cons in simp)
  qed (use less.prems in simp)
qed

lemma take_int_shorter: "take_int s = Some (t, q) \<Longrightarrow> length q < length s"
  by (auto simp: take_int_def le_imp_less_Suc length_dropWhile_le split: list.splits if_splits)

lemma take_frac_shorter: "take_frac s = Some (t, q) \<Longrightarrow> length q \<le> length s"
  by (auto simp: take_frac_def le_SucI length_dropWhile_le split: list.splits if_splits)

lemma take_exp_shorter: "take_exp s = Some (t, q) \<Longrightarrow> length q \<le> length s"
proof (cases s)
  case (Cons c cs)
  assume "take_exp s = Some (t, q)"
  moreover have "length (dropWhile is_digit (drop k cs)) \<le> length cs" for k
    using length_dropWhile_le [of is_digit "drop k cs"] by simp
  ultimately show ?thesis using Cons length_dropWhile_le [of is_digit cs]
    by (auto simp: take_exp_def Let_def le_SucI split: if_splits)
qed (auto simp: take_exp_def)

lemma parse_number_shorter: "parse_number s = Some (j, q) \<Longrightarrow> length q < length s"
  by (auto simp: parse_number_def Let_def split: option.splits prod.splits if_splits
      dest!: take_int_shorter take_frac_shorter take_exp_shorter)

lemma parse_shorter:
  "parse_value f d s = Some (v, q) \<Longrightarrow> length q < length s"
  "parse_elements f d s = Some (vs, q) \<Longrightarrow> length q < length s"
  "parse_members f d s = Some (ms, q) \<Longrightarrow> length q < length s"
proof (induction f d s and f d s and f d s arbitrary: v q and vs q and ms q rule: parse_value_parse_elements_parse_members.induct)
  case (2 fuel d s)
  then obtain c cs where s: "skip_space s = c # cs" by (cases "skip_space s") simp_all
  have le: "Suc (length cs) \<le> length s" "length (tl (skip_space cs)) \<le> length cs"
    using skip_space_length [of s] skip_space_length [of cs] s by simp_all
  consider (obj) "c = CHR ''{''" | (arr) "c = CHR ''[''" | (str) "c = CHR 0x22"
    | (other) "c \<noteq> CHR ''{''" "c \<noteq> CHR ''[''" "c \<noteq> CHR 0x22" by blast
  then show ?case
  proof cases
    case obj
    then show ?thesis using 2 s le by (fastforce split: if_splits)
  next
    case arr
    then show ?thesis using 2 s le by (fastforce split: if_splits)
  next
    case str
    then show ?thesis using 2(3) s le parse_string_shorter [of cs _ q] by fastforce
  next
    case other
    have n: "length q < length (c # cs)" if "parse_number (c # cs) = Some (v, q)" using parse_number_shorter [OF that] .
    have "(if prefix ''true'' (c # cs) then Some (JBool True, drop 3 cs)
          else if prefix ''false'' (c # cs) then Some (JBool False, drop 4 cs)
          else if prefix ''null'' (c # cs) then Some (JNull, drop 3 cs)
          else parse_number (c # cs)) = Some (v, q)"
      using 2(3) other unfolding parse_value.simps s by simp
    then show ?thesis using le n by (auto split: if_splits simp del: prefix_Cons)
  qed
next
  case (4 fuel d s)
  then obtain w r where v: "parse_value fuel d s = Some (w, r)" by (cases "parse_value fuel d s") auto
  then have r: "length r < length s" using 4 by blast
  obtain c cs where s: "skip_space r = c # cs" using 4 v by (cases "skip_space r") simp_all
  then have "Suc (length cs) \<le> length r" using skip_space_length [of r] by simp
  with 4 v r s show ?case by (fastforce split: if_splits)
next
  case (6 fuel d s)
  then obtain c cs where s: "skip_space s = c # cs" "c = CHR 0x22" by (cases "skip_space s") (auto split: if_splits)
  then obtain k q1 where k: "parse_string cs = Some (k, q1)" using 6 by (cases "parse_string cs") auto
  obtain c2 cs2 where s2: "skip_space q1 = c2 # cs2" "c2 = CHR '':''" using 6 s k by (cases "skip_space q1") (auto split: if_splits)
  obtain w r where v: "parse_value fuel d cs2 = Some (w, r)" using 6 s k s2 by (cases "parse_value fuel d cs2") auto
  obtain c3 cs3 where s3: "skip_space r = c3 # cs3" using 6 s k s2 v by (cases "skip_space r") auto
  have "length q1 < length cs" "length r < length cs2" using parse_string_shorter [OF k] 6 s k s2 v by (simp_all)
  then have "length cs3 < length s"
    using skip_space_length [of s] skip_space_length [of q1] skip_space_length [of r] s s2 s3 by simp
  with 6 s k s2 v s3 show ?case by (fastforce split: if_splits)
qed simp_all

lemma fuel_steps:
  "(2 * length s + 1 \<le> f \<and> 2 * length s + 1 \<le> g \<longrightarrow> parse_value f d s = parse_value g d s) \<and>
   (2 * length s + 2 \<le> f \<and> 2 * length s + 2 \<le> g \<longrightarrow>
      parse_elements f d s = parse_elements g d s \<and> parse_members f d s = parse_members g d s)"
proof (induction "length s" arbitrary: s f g d rule: less_induct)
  case less
  have IH: "2 * length x + 1 \<le> f \<Longrightarrow> 2 * length x + 1 \<le> g \<Longrightarrow> parse_value f d x = parse_value g d x"
    "2 * length x + 2 \<le> f \<Longrightarrow> 2 * length x + 2 \<le> g \<Longrightarrow> parse_elements f d x = parse_elements g d x"
    "2 * length x + 2 \<le> f \<Longrightarrow> 2 * length x + 2 \<le> g \<Longrightarrow> parse_members f d x = parse_members g d x"
    if "length x < length s" for x f g d
    using less.hyps [OF that, of f g d] by simp_all
  have at_value: "parse_value f d s = parse_value g d s" if fg: "2 * length s + 1 \<le> f" "2 * length s + 1 \<le> g" for f g d
  proof -
    obtain f' g' where S: "f = Suc f'" "g = Suc g'" using fg by (cases f; cases g) auto
    show ?thesis
    proof (cases "skip_space s")
      case (Cons c cs)
      then have "length cs < length s" using skip_space_length [of s] by simp
      then have "parse_members f' (Suc d) cs = parse_members g' (Suc d) cs" "parse_elements f' (Suc d) cs = parse_elements g' (Suc d) cs"
        using IH(2,3) [of cs f' g' "Suc d"] fg S by simp_all
      then show ?thesis unfolding S parse_value.simps Cons by simp
    qed (simp add: S)
  qed
  have at_elements: "parse_elements f d s = parse_elements g d s" if fg: "2 * length s + 2 \<le> f" "2 * length s + 2 \<le> g" for f g d
  proof -
    obtain f' g' where S: "f = Suc f'" "g = Suc g'" using fg by (cases f; cases g) auto
    have v: "parse_value f' d s = parse_value g' d s" using at_value [of f' g' d] fg S by simp
    show ?thesis
    proof (cases "parse_value g' d s")
      case (Some p)
      obtain w r where p: "p = (w, r)" by (cases p)
      then have r: "length r < length s" using parse_shorter(1) Some by blast
      show ?thesis
      proof (cases "skip_space r")
        case (Cons c cs)
        then have "length cs < length s" using skip_space_length [of r] r by simp
        then have "parse_elements f' d cs = parse_elements g' d cs" using IH(2) [of cs f' g' d] fg S by simp
        then show ?thesis unfolding S parse_elements.simps v Some p by (simp add: Cons)
      qed (simp add: S v Some p)
    qed (simp add: S v)
  qed
  have at_members: "parse_members f d s = parse_members g d s" if fg: "2 * length s + 2 \<le> f" "2 * length s + 2 \<le> g" for f g d
  proof -
    obtain f' g' where S: "f = Suc f'" "g = Suc g'" using fg by (cases f; cases g) auto
    have v: "parse_value f' d x = parse_value g' d x" if "length x < length s" for x
      using IH(1) [of x f' g' d] that fg S by simp
    have m: "parse_members f' d x = parse_members g' d x" if "length x < length s" for x
      using IH(3) [of x f' g' d] that fg S by simp
    show ?thesis
    proof (cases "skip_space s")
      case (Cons c cs)
      then have cs: "length cs < length s" using skip_space_length [of s] by simp
      show ?thesis
      proof (cases "parse_string cs")
        case (Some p)
        obtain k q where p: "p = (k, q)" by (cases p)
        then have q: "length q < length cs" using parse_string_shorter Some by blast
        show ?thesis
        proof (cases "skip_space q")
          case c2: (Cons c2 cs2)
          then have cs2: "length cs2 < length s" using skip_space_length [of q] q cs by simp
          show ?thesis
          proof (cases "parse_value g' d cs2")
            case v2: (Some p2)
            obtain w r where p2: "p2 = (w, r)" by (cases p2)
            then have r: "length r < length cs2" using parse_shorter(1) v2 by blast
            show ?thesis
            proof (cases "skip_space r")
              case c3: (Cons c3 cs3)
              then have "length cs3 < length s" using skip_space_length [of r] r cs2 by simp
              then show ?thesis unfolding S parse_members.simps Cons by (simp add: Some p c2 v [OF cs2] v2 p2 c3 m)
            qed (simp add: S Cons Some p c2 v [OF cs2] v2 p2)
          qed (simp add: S Cons Some p c2 v [OF cs2])
        qed (simp add: S Cons Some p)
      qed (simp add: S Cons)
    qed (simp add: S)
  qed
  show ?case using at_value at_elements at_members by blast
qed

lemma parse_json_fuel:
  assumes "2 * length s + 1 \<le> f"
  shows "parse_json s =
    (case parse_value f 0 s of None \<Rightarrow> None | Some (v, q) \<Rightarrow> if skip_space q = [] then Some v else None)"
  unfolding parse_json_def using fuel_steps [of s f "2 * length s + 2" 0] assms by simp

end
