(* ===== verification/Config.thy ===== *)
theory Config
  imports Ipv4 Json_Parser
begin

unbundle bit_operations_syntax

text \<open>
  Package \<open>internal/config\<close>: the scan ranges (\<open>cidr.go\<close>) and the options and broker settings
  (\<open>config.go\<close>).  Addresses are 32-bit words.  The environment, the file system and the HTTP
  exchange with the Supervisor are arguments of the functions that use them.
\<close>

section \<open>Scan ranges (\<open>cidr.go\<close>)\<close>

record net_prefix =
  pf_Addr :: ipv4
  pf_Bits :: nat

text \<open>
  \<open>netip.ParsePrefix\<close> for prefixes whose address \<open>Is4\<close>: the text is split at the last slash
  and the bits are a decimal without sign or leading zero.
\<close>

definition split_last_slash :: "string \<Rightarrow> (string \<times> string) option" where
  "split_last_slash s =
     (if CHR ''/'' \<notin> set s then None
      else let bits = rev (takeWhile (\<lambda>c. c \<noteq> CHR ''/'') (rev s))
        in Some (take (length s - length bits - 1) s, bits))"

definition ParsePrefix4 :: "string \<Rightarrow> net_prefix option" where
  "ParsePrefix4 s =
     (case split_last_slash s of
        None \<Rightarrow> None
      | Some (addr, bits) \<Rightarrow>
          (case parse_ipv4 addr of
             None \<Rightarrow> None
           | Some w \<Rightarrow>
               if length bits > 1 \<and> \<not> (CHR ''1'' \<le> hd bits \<and> hd bits \<le> CHR ''9'') then None
               else
                 (case parse_int64 bits of
                    None \<Rightarrow> None
                  | Some n \<Rightarrow> if n < 0 \<or> n > 32 then None else Some \<lparr>pf_Addr = w, pf_Bits = nat n\<rparr>)))"

definition Masked :: "net_prefix \<Rightarrow> net_prefix" where
  "Masked p = p\<lparr>pf_Addr := push_bit (32 - pf_Bits p) (drop_bit (32 - pf_Bits p) (pf_Addr p))\<rparr>"

definition Contains :: "net_prefix \<Rightarrow> ipv4 \<Rightarrow> bool" where
  "Contains p a \<longleftrightarrow> drop_bit (32 - pf_Bits p) (a XOR pf_Addr p) = 0"

text \<open>The address after the last one is the invalid zero \<open>Addr\<close>, here \<open>None\<close>.\<close>

definition addr_next :: "ipv4 option \<Rightarrow> ipv4 option" where
  "addr_next a = (case a of None \<Rightarrow> None | Some w \<Rightarrow> if w = - 1 then None else Some (w + 1))"

definition addr_string :: "ipv4 option \<Rightarrow> string" where
  "addr_string a = (case a of None \<Rightarrow> ''invalid IP'' | Some w \<Rightarrow> ipv4_string w)"

definition prefix_string :: "net_prefix \<Rightarrow> string" where
  "prefix_string p = ipv4_string (pf_Addr p) @ ''/'' @ itoa (int (pf_Bits p))"

definition MinScanPrefix :: nat where "MinScanPrefix = 16"

definition privateBlocks :: "net_prefix list" where
  "privateBlocks =
     [\<lparr>pf_Addr = 0x0A000000, pf_Bits = 8\<rparr>, \<lparr>pf_Addr = 0xAC100000, pf_Bits = 12\<rparr>, \<lparr>pf_Addr = 0xC0A80000, pf_Bits = 16\<rparr>]"

datatype range_error = NotACidr string | RangeTooLarge string | NotPrivate string

definition isPrivate :: "net_prefix \<Rightarrow> bool" where
  "isPrivate p \<longleftrightarrow> list_ex (\<lambda>block. pf_Bits block \<le> pf_Bits p \<and> Contains block (pf_Addr p)) privateBlocks"

definition ParseScanRange :: "string \<Rightarrow> range_error + net_prefix" where
  "ParseScanRange s =
     (case ParsePrefix4 s of
        None \<Rightarrow> Inl (NotACidr s)
      | Some p \<Rightarrow>
          let p = Masked p in
          if pf_Bits p < MinScanPrefix then Inl (RangeTooLarge s)
          else if \<not> isPrivate p then Inl (NotPrivate s)
          else Inr p)"

function hosts_loop :: "nat \<Rightarrow> nat \<Rightarrow> nat \<Rightarrow> ipv4 option \<Rightarrow> string list" where
  "hosts_loop first stop i addr =
     (if i < stop
      then (if i \<ge> first then [addr_string addr] else []) @ hosts_loop first stop (Suc i) (addr_next addr)
      else [])"
  by pat_completeness auto
termination
  by (relation "measure (\<lambda>(first, stop, i, addr). stop - i)") auto

declare hosts_loop.simps [simp del]

definition Hosts :: "net_prefix \<Rightarrow> string list" where
  "Hosts p =
     (let p = Masked p; size = 2 ^ (32 - pf_Bits p);
          (first, stop) = (if pf_Bits p < 31 then (1, size - 1) else (0, size))
      in hosts_loop first stop 0 (Some (pf_Addr p)))"

section \<open>Options (\<open>config.go\<close>)\<close>

text \<open>Durations are in nanoseconds; a log level is its number.\<close>

record options =
  op_ScanRanges :: "net_prefix list"
  op_PollInterval :: int
  op_ProbeTimeout :: int
  op_DiscoveryConcurrency :: int
  op_LogLevel :: int

text \<open>The loop that drops hosts already seen, across all ranges.\<close>

definition add_host :: "string \<Rightarrow> string list \<Rightarrow> string list" where
  "add_host host out = (if host \<in> set out then out else out @ [host])"

definition ScanHosts :: "options \<Rightarrow> string list" where
  "ScanHosts opts = fold (\<lambda>p. fold add_host (Hosts p)) (op_ScanRanges opts) []"

definition ScanRangeTexts :: "options \<Rightarrow> string list" where
  "ScanRangeTexts opts = map prefix_string (op_ScanRanges opts)"

record raw_options =
  ro_ScanRanges :: "string list"
  ro_PollIntervalSeconds :: "int option"
  ro_ProbeTimeoutMs :: "int option"
  ro_DiscoveryConcurrency :: "int option"
  ro_LogLevel :: "string option"

text \<open>
  Decoding into the fields of \<open>rawOptions\<close>: a value of the wrong type makes \<open>json.Unmarshal\<close>
  return an error in the end, here \<open>None\<close>; \<open>null\<close> clears a pointer or a slice and leaves a
  string element as it is.
\<close>

fun decode_strings :: "string list \<Rightarrow> json list \<Rightarrow> string list option" where
  "decode_strings old [] = Some []"
| "decode_strings old (x # xs) =
     (let r = decode_strings (tl old) xs in
      case x of
        JStr s \<Rightarrow> map_option (Cons s) r
      | JNull \<Rightarrow> map_option (Cons (case old of [] \<Rightarrow> [] | s # _ \<Rightarrow> s)) r
      | _ \<Rightarrow> None)"

definition decode_int_pointer :: "json \<Rightarrow> int option option" where
  "decode_int_pointer j =
     (case j of JNull \<Rightarrow> Some None | JNum t \<Rightarrow> map_option Some (parse_int64 t) | _ \<Rightarrow> None)"

definition decode_string_pointer :: "json \<Rightarrow> string option option" where
  "decode_string_pointer j = (case j of JNull \<Rightarrow> Some None | JStr s \<Rightarrow> Some (Some s) | _ \<Rightarrow> None)"

definition decode_options_field :: "string \<times> json \<Rightarrow> raw_options option \<Rightarrow> raw_options option" where
  "decode_options_field m acc =
     (case acc of None \<Rightarrow> None | Some ro \<Rightarrow>
      (case match_field [''scan_ranges'', ''poll_interval_seconds'', ''probe_timeout_ms'',
                         ''discovery_concurrency'', ''log_level''] (fst m) of
         None \<Rightarrow> Some ro
       | Some f \<Rightarrow>
           if f = ''scan_ranges'' then
             (case snd m of
                JNull \<Rightarrow> Some (ro\<lparr>ro_ScanRanges := []\<rparr>)
              | JArr xs \<Rightarrow> map_option (\<lambda>v. ro\<lparr>ro_ScanRanges := v\<rparr>) (decode_strings (ro_ScanRanges ro) xs)
              | _ \<Rightarrow> None)
           else if f = ''poll_interval_seconds'' then
             map_option (\<lambda>v. ro\<lparr>ro_PollIntervalSeconds := v\<rparr>) (decode_int_pointer (snd m))
           else if f = ''probe_timeout_ms'' then
             map_option (\<lambda>v. ro\<lparr>ro_ProbeTimeoutMs := v\<rparr>) (decode_int_pointer (snd m))
           else if f = ''discovery_concurrency'' then
             map_option (\<lambda>v. ro\<lparr>ro_DiscoveryConcurrency := v\<rparr>) (decode_int_pointer (snd m))
           else map_option (\<lambda>v. ro\<lparr>ro_LogLevel := v\<rparr>) (decode_string_pointer (snd m))))"

definition decode_options :: "string \<Rightarrow> raw_options option" where
  "decode_options data =
     (let zero = \<lparr>ro_ScanRanges = [], ro_PollIntervalSeconds = None, ro_ProbeTimeoutMs = None,
                  ro_DiscoveryConcurrency = None, ro_LogLevel = None\<rparr> in
      case parse_json data of
        Some (JObj ms) \<Rightarrow> fold decode_options_field ms (Some zero)
      | Some JNull \<Rightarrow> Some zero
      | _ \<Rightarrow> None)"

text \<open>
  \<open>slog.Level.UnmarshalText\<close>: a level name in any case, with an optional signed offset.  The
  dotless i (U+0131) is the one rune outside ASCII whose upper case occurs in a level name.
\<close>

function upper_level :: "string \<Rightarrow> string" where
  "upper_level s =
     (if s = [] then []
      else if prefix [CHR 0xC4, CHR 0xB1] s then CHR ''I'' # upper_level (drop 2 s)
      else upper_char (hd s) # upper_level (tl s))"
  by pat_completeness auto
termination
  by (relation "measure length") auto

declare upper_level.simps [simp del]

definition wrap_int64 :: "int \<Rightarrow> int" where
  "wrap_int64 i = (i + 2 ^ 63) mod 2 ^ 64 - 2 ^ 63"

definition parse_level :: "string \<Rightarrow> int option" where
  "parse_level s =
     (let is_name = (\<lambda>c. c \<noteq> CHR ''+'' \<and> c \<noteq> CHR ''-'');
          name = upper_level (takeWhile is_name s); rest = dropWhile is_name s in
      case (if rest = [] then Some 0 else parse_int64 rest) of
        None \<Rightarrow> None
      | Some offset \<Rightarrow>
          map_option (\<lambda>l. wrap_int64 (l + offset))
            (map_of [(''DEBUG'', -4), (''INFO'', 0), (''WARN'', 4), (''ERROR'', 8)] name))"

datatype options_error =
    OptionsNotJSON
  | NoScanRanges
  | BadScanRange range_error
  | BadPollInterval
  | BadProbeTimeout
  | BadConcurrency
  | BadLogLevel

fun parse_ranges :: "string list \<Rightarrow> range_error + net_prefix list" where
  "parse_ranges [] = Inr []"
| "parse_ranges (s # ss) =
     (case ParseScanRange s of
        Inl e \<Rightarrow> Inl e
      | Inr p \<Rightarrow> (case parse_ranges ss of Inl e \<Rightarrow> Inl e | Inr ps \<Rightarrow> Inr (p # ps)))"

definition out_of_bounds :: "int option \<Rightarrow> int \<Rightarrow> int \<Rightarrow> bool" where
  "out_of_bounds v lo hi \<longleftrightarrow> (case v of None \<Rightarrow> False | Some i \<Rightarrow> i < lo \<or> i > hi)"

definition ParseOptions :: "string \<Rightarrow> options_error + options" where
  "ParseOptions data =
     (case decode_options data of
        None \<Rightarrow> Inl OptionsNotJSON
      | Some raw \<Rightarrow>
          if ro_ScanRanges raw = [] then Inl NoScanRanges
          else
            (case parse_ranges (ro_ScanRanges raw) of
               Inl e \<Rightarrow> Inl (BadScanRange e)
             | Inr ranges \<Rightarrow>
                 if out_of_bounds (ro_PollIntervalSeconds raw) 5 3600 then Inl BadPollInterval
                 else if out_of_bounds (ro_ProbeTimeoutMs raw) 200 30000 then Inl BadProbeTimeout
                 else if out_of_bounds (ro_DiscoveryConcurrency raw) 1 64 then Inl BadConcurrency
                 else
                   (case (case ro_LogLevel raw of None \<Rightarrow> Some 0 | Some s \<Rightarrow> parse_level s) of
                      None \<Rightarrow> Inl BadLogLevel
                    | Some level \<Rightarrow>
                        Inr \<lparr>op_ScanRanges = ranges,
                             op_PollInterval = (case ro_PollIntervalSeconds raw of None \<Rightarrow> 15 | Some s \<Rightarrow> s) * 1000000000,
                             op_ProbeTimeout = (case ro_ProbeTimeoutMs raw of None \<Rightarrow> 2000 | Some ms \<Rightarrow> ms) * 1000000,
                             op_DiscoveryConcurrency = (case ro_DiscoveryConcurrency raw of None \<Rightarrow> 8 | Some n \<Rightarrow> n),
                             op_LogLevel = level\<rparr>)))"


section \<open>The broker settings (\<open>config.go\<close>)\<close>

record MQTT =
  mq_Host :: string
  mq_Port :: int
  mq_Username :: string
  mq_Password :: string
  mq_TLS :: bool

definition MQTT_String :: "MQTT \<Rightarrow> string" where
  "MQTT_String m =
     ''mqtt://'' @ mq_Username m @ ''@'' @ mq_Host m @ '':'' @ itoa (mq_Port m) @ '' tls='' @
     (if mq_TLS m then ''true'' else ''false'')"

definition GoString :: "MQTT \<Rightarrow> string" where
  "GoString m = MQTT_String m"

text \<open>The attributes that \<open>LogValue\<close> groups, with their values as JSON.\<close>

definition LogValue :: "MQTT \<Rightarrow> (string \<times> json) list" where
  "LogValue m =
     [(''host'', JStr (mq_Host m)), (''port'', jint (mq_Port m)), (''username'', JStr (mq_Username m)),
      (''tls'', JBool (mq_TLS m))]"

record config =
  cf_Options :: options
  cf_MQTT :: MQTT
  cf_DatabasePath :: string

datatype mqtt_error =
    HostRequired
  | BadPort string
  | SupervisorFailed string
  | SupervisorStatus int
  | SupervisorUnusable

definition MQTTFromEnv :: "(string \<Rightarrow> string) \<Rightarrow> mqtt_error + MQTT" where
  "MQTTFromEnv getenv =
     (let host = getenv ''MQTT_HOST'' in
      if host = [] then Inl HostRequired
      else
        let p = getenv ''MQTT_PORT'';
            tls = (to_lower (getenv ''MQTT_SSL'') \<in> {''true'', ''1'', ''yes''});
            m = \<lparr>mq_Host = host, mq_Port = 1883, mq_Username = getenv ''MQTT_USERNAME'',
                 mq_Password = getenv ''MQTT_PASSWORD'', mq_TLS = tls\<rparr> in
        if p = [] then Inr m
        else
          (case parse_int64 p of
             None \<Rightarrow> Inl (BadPort p)
           | Some port \<Rightarrow>
               if port < 1 \<or> port > 65535 then Inl (BadPort p) else Inr (m\<lparr>mq_Port := port\<rparr>)))"

definition supervisorServicesURL :: string where
  "supervisorServicesURL = ''http://supervisor/services/mqtt''"

record supervisor_request =
  sr_Method :: string
  sr_URL :: string
  sr_Authorization :: string

text \<open>The two structs the response is decoded into.\<close>

definition decode_data_field :: "string \<times> json \<Rightarrow> MQTT option \<Rightarrow> MQTT option" where
  "decode_data_field m acc =
     (case acc of None \<Rightarrow> None | Some q \<Rightarrow>
      (case match_field [''host'', ''port'', ''username'', ''password'', ''ssl''] (fst m) of
         None \<Rightarrow> Some q
       | Some f \<Rightarrow>
           if snd m = JNull then Some q
           else if f = ''port'' then
             (case snd m of JNum t \<Rightarrow> map_option (\<lambda>v. q\<lparr>mq_Port := v\<rparr>) (parse_int64 t) | _ \<Rightarrow> None)
           else if f = ''ssl'' then (case snd m of JBool b \<Rightarrow> Some (q\<lparr>mq_TLS := b\<rparr>) | _ \<Rightarrow> None)
           else
             (case snd m of
                JStr s \<Rightarrow>
                  Some (if f = ''host'' then q\<lparr>mq_Host := s\<rparr>
                        else if f = ''username'' then q\<lparr>mq_Username := s\<rparr>
                        else q\<lparr>mq_Password := s\<rparr>)
              | _ \<Rightarrow> None)))"

definition decode_service_field :: "string \<times> json \<Rightarrow> (string \<times> MQTT) option \<Rightarrow> (string \<times> MQTT) option" where
  "decode_service_field m acc =
     (case acc of None \<Rightarrow> None | Some (result, q) \<Rightarrow>
      (case match_field [''result'', ''data''] (fst m) of
         None \<Rightarrow> acc
       | Some f \<Rightarrow>
           if snd m = JNull then acc
           else if f = ''result'' then (case snd m of JStr s \<Rightarrow> Some (s, q) | _ \<Rightarrow> None)
           else (case snd m of
                   JObj ms \<Rightarrow> map_option (Pair result) (fold decode_data_field ms (Some q))
                 | _ \<Rightarrow> None)))"

definition decode_service :: "string \<Rightarrow> (string \<times> MQTT) option" where
  "decode_service body =
     (let zero = ([], \<lparr>mq_Host = [], mq_Port = 0, mq_Username = [], mq_Password = [], mq_TLS = False\<rparr>) in
      case parse_json body of
        Some (JObj ms) \<Rightarrow> fold decode_service_field ms (Some zero)
      | Some JNull \<Rightarrow> Some zero
      | _ \<Rightarrow> None)"

text \<open>
  \<open>MQTTFromSupervisor\<close>: \<open>exchange\<close> is \<open>client.Do\<close> with the reading of the body, an error text
  or the status and the bytes received.
\<close>

definition MQTTFromSupervisor ::
  "string \<Rightarrow> (supervisor_request \<Rightarrow> string + int \<times> string) \<Rightarrow> mqtt_error + MQTT" where
  "MQTTFromSupervisor token exchange =
     (case exchange \<lparr>sr_Method = ''GET'', sr_URL = supervisorServicesURL, sr_Authorization = ''Bearer '' @ token\<rparr> of
        Inl e \<Rightarrow> Inl (SupervisorFailed e)
      | Inr (status, body) \<Rightarrow>
          if status \<noteq> 200 then Inl (SupervisorStatus status)
          else
            (case decode_service (take (2 ^ 16) body) of
               None \<Rightarrow> Inl SupervisorUnusable
             | Some (result, m) \<Rightarrow>
                 if result \<noteq> ''ok'' \<or> mq_Host m = [] then Inl SupervisorUnusable else Inr m))"

datatype config_error =
    ReadFailed string string
  | OptionsError options_error
  | MQTTError mqtt_error
  | NoMQTT

definition envOr :: "(string \<Rightarrow> string) \<Rightarrow> string \<Rightarrow> string \<Rightarrow> string" where
  "envOr getenv key fallback = (if getenv key \<noteq> [] then getenv key else fallback)"

definition Load ::
  "(string \<Rightarrow> string) \<Rightarrow> (string \<Rightarrow> string + string) \<Rightarrow> (supervisor_request \<Rightarrow> string + int \<times> string)
   \<Rightarrow> config_error + config" where
  "Load getenv read_file exchange =
     (let optionsPath = envOr getenv ''DT241M_OPTIONS_PATH'' ''/data/options.json'' in
      case read_file optionsPath of
        Inl e \<Rightarrow> Inl (ReadFailed optionsPath e)
      | Inr data \<Rightarrow>
          (case ParseOptions data of
             Inl e \<Rightarrow> Inl (OptionsError e)
           | Inr opts \<Rightarrow>
               (let mqtt =
                  (if getenv ''MQTT_HOST'' \<noteq> [] then map_sum MQTTError id (MQTTFromEnv getenv)
                   else if getenv ''SUPERVISOR_TOKEN'' \<noteq> [] then
                     map_sum MQTTError id (MQTTFromSupervisor (getenv ''SUPERVISOR_TOKEN'') exchange)
                   else Inl NoMQTT) in
                case mqtt of
                  Inl e \<Rightarrow> Inl e
                | Inr m \<Rightarrow>
                    Inr \<lparr>cf_Options = opts, cf_MQTT = m,
                         cf_DatabasePath = envOr getenv ''DT241M_DATABASE_PATH'' ''/data/dt241m.sqlite''\<rparr>)))"

section \<open>Lemmas on addresses\<close>

abbreviation host_bits :: "net_prefix \<Rightarrow> nat" where
  "host_bits p \<equiv> 32 - pf_Bits p"

lemma unat_less [simp]: "unat (w :: ipv4) < 4294967296"
  using unsigned_less [of w, where ?'a = nat] by simp

lemma unat_masked:
  fixes w :: ipv4
  assumes "k \<le> 32"
  shows "unat (push_bit k (drop_bit k w)) = unat w div 2 ^ k * 2 ^ k"
proof -
  have "unat w div 2 ^ k * 2 ^ k \<le> unat w" by (rule div_times_less_eq_dividend)
  then have "unat w div 2 ^ k * 2 ^ k < 2 ^ 32" by (rule le_less_trans) simp
  moreover have "take_bit 32 (unat w) = unat w" by (simp add: take_bit_nat_eq_self)
  ultimately show ?thesis
    unfolding unsigned_push_bit_eq unsigned_drop_bit_eq
    by (simp add: drop_bit_eq_div push_bit_eq_mult take_bit_nat_eq_self)
qed

lemma drop_bit_eq_iff:
  fixes v w :: ipv4
  shows "drop_bit k v = drop_bit k w \<longleftrightarrow> unat v div 2 ^ k = unat w div 2 ^ k"
proof -
  have "unat (drop_bit k x) = unat x div 2 ^ k" for x :: ipv4
    unfolding unsigned_drop_bit_eq by (simp add: drop_bit_eq_div take_bit_nat_eq_self)
  then show ?thesis by (metis word_unat_eq_iff)
qed

lemma Contains_iff: "Contains p a \<longleftrightarrow> unat a div 2 ^ host_bits p = unat (pf_Addr p) div 2 ^ host_bits p"
proof -
  have "Contains p a \<longleftrightarrow> drop_bit (host_bits p) a XOR drop_bit (host_bits p) (pf_Addr p) = 0"
    by (simp add: Contains_def drop_bit_xor)
  also have "\<dots> \<longleftrightarrow> drop_bit (host_bits p) a = drop_bit (host_bits p) (pf_Addr p)"
    by (metis bit.xor_cancel_right bit.xor_left_self xor.right_neutral xor_self_eq)
  finally show ?thesis by (simp add: drop_bit_eq_iff)
qed

definition network :: "net_prefix \<Rightarrow> nat" where
  "network p = unat (pf_Addr p) div 2 ^ host_bits p * 2 ^ host_bits p"

lemma Masked_simps [simp]: "pf_Bits (Masked p) = pf_Bits p" "unat (pf_Addr (Masked p)) = network p"
  by (simp_all add: Masked_def network_def unat_masked)

lemma network_Masked [simp]: "network (Masked p) = network p"
  by (simp add: network_def unat_masked Masked_def)

lemma Contains_Masked [simp]: "Contains (Masked p) a \<longleftrightarrow> Contains p a"
  by (simp add: Contains_iff network_def)

lemma network_fits: "network p + 2 ^ host_bits p \<le> 2 ^ 32"
proof -
  let ?n = "2 ^ host_bits p :: nat"
  have "2 ^ 32 = 2 ^ (32 - host_bits p) * ?n" unfolding power_add [symmetric] by simp
  moreover have "unat (pf_Addr p) < 2 ^ 32" by simp
  ultimately have "unat (pf_Addr p) div ?n < 2 ^ (32 - host_bits p)"
    by (simp add: less_mult_imp_div_less)
  then have "(unat (pf_Addr p) div ?n + 1) * ?n \<le> 2 ^ (32 - host_bits p) * ?n" by (intro mult_le_mono1) simp
  then show ?thesis using \<open>2 ^ 32 = 2 ^ (32 - host_bits p) * ?n\<close> by (simp add: network_def)
qed

lemma Contains_interval: "Contains p a \<longleftrightarrow> network p \<le> unat a \<and> unat a < network p + 2 ^ host_bits p"
proof -
  let ?n = "2 ^ host_bits p :: nat"
  have "unat a div ?n = q \<longleftrightarrow> q * ?n \<le> unat a \<and> unat a < q * ?n + ?n" for q
    by (auto simp: div_nat_eqI mult.commute) (metis add.commute dividend_less_times_div mult.commute zero_less_numeral zero_less_power)
  then show ?thesis unfolding Contains_iff network_def by blast
qed

lemma unat_minus_1: "unat (- 1 :: ipv4) = 4294967295"
  by (simp add: unsigned_minus_1_eq_mask mask_eq_exp_minus_1)

section \<open>The loop over a range\<close>

lemma hosts_loop_eq:
  assumes "base + stop \<le> 2 ^ 32" "i \<le> stop" "a = (if base + i < 2 ^ 32 then Some (word_of_nat (base + i)) else None)"
  shows "hosts_loop first stop i a = map (\<lambda>k. ipv4_string (word_of_nat (base + k))) [max first i..<stop]"
  using assms
proof (induction "stop - i" arbitrary: i a)
  case 0
  then show ?case by (simp add: hosts_loop.simps)
next
  case (Suc n)
  then have lt: "i < stop" by simp
  then have a: "a = Some (word_of_nat (base + i))" using Suc.prems by simp
  have nx: "addr_next a = (if base + Suc i < 2 ^ 32 then Some (word_of_nat (base + Suc i)) else None)"
  proof (cases "base + Suc i < 2 ^ 32")
    case True
    then have "unat (word_of_nat (base + i) :: ipv4) = base + i" by (simp add: unat_of_nat del: of_nat_add)
    then have "(word_of_nat (base + i) :: ipv4) \<noteq> - 1" using True unat_minus_1 by auto
    with True show ?thesis unfolding a by (simp add: addr_next_def add.commute)
  next
    case False
    then have "base + i = 2 ^ 32 - 1" using Suc.prems(1) lt by simp
    then have "(word_of_nat (base + i) :: ipv4) = - 1" by simp
    with False show ?thesis unfolding a by (simp add: addr_next_def)
  qed
  have "hosts_loop first stop (Suc i) (addr_next a) = map (\<lambda>k. ipv4_string (word_of_nat (base + k))) [max first (Suc i)..<stop]"
    by (rule Suc.hyps(1)) (use Suc lt nx in auto)
  then show ?case using lt a
    by (subst hosts_loop.simps, cases "first \<le> i")
      (simp_all add: addr_string_def upt_conv_Cons [of i] max_absorb1 max_absorb2 del: of_nat_add)
qed

definition first_host :: "net_prefix \<Rightarrow> nat" where
  "first_host p = (if pf_Bits p < 31 then 1 else 0)"

definition host_stop :: "net_prefix \<Rightarrow> nat" where
  "host_stop p = (if pf_Bits p < 31 then 2 ^ host_bits p - 1 else 2 ^ host_bits p)"

lemma Hosts_map:
  "Hosts p = map (\<lambda>k. ipv4_string (word_of_nat (network p + k))) [first_host p..<host_stop p]"
proof -
  have "host_stop p \<le> 2 ^ host_bits p" by (simp add: host_stop_def)
  then have fit: "network p + host_stop p \<le> 2 ^ 32" using network_fits [of p] by linarith
  have "network p < 2 ^ 32" using network_fits [of p] by (metis add_leD1 le_neq_implies_less less_add_same_cancel1 not_less zero_less_numeral zero_less_power)
  then have "Some (pf_Addr (Masked p)) = (if network p + 0 < 2 ^ 32 then Some (word_of_nat (network p + 0)) else None)"
    by (simp flip: Masked_simps(2))
  from hosts_loop_eq [OF fit _ this, of "first_host p"]
  show ?thesis by (cases "pf_Bits p < 31") (simp_all add: Hosts_def Let_def first_host_def host_stop_def)
qed

lemma unat_host: "k < 2 ^ host_bits p \<Longrightarrow> unat (word_of_nat (network p + k) :: ipv4) = network p + k"
  using network_fits [of p] by (simp add: unat_of_nat del: of_nat_add)

lemma host_stop_le: "host_stop p \<le> 2 ^ host_bits p"
  by (simp add: host_stop_def)

lemma Hosts_ascending: "Hosts p = map (\<lambda>n. ipv4_string (word_of_nat n)) [network p + first_host p..<network p + host_stop p]"
proof -
  have "[network p + first_host p..<network p + host_stop p] = map (\<lambda>k. network p + k) [first_host p..<host_stop p]"
    by (rule nth_equalityI) simp_all
  then show ?thesis unfolding Hosts_map by simp
qed

lemma Hosts_distinct: "distinct (Hosts p)"
  unfolding Hosts_map distinct_map
proof
  show "inj_on (\<lambda>k. ipv4_string (word_of_nat (network p + k))) (set [first_host p..<host_stop p])"
  proof (rule inj_onI, unfold ipv4_string_inj)
    fix j k assume jk: "j \<in> set [first_host p..<host_stop p]" "k \<in> set [first_host p..<host_stop p]"
      and eq: "(word_of_nat (network p + j) :: ipv4) = word_of_nat (network p + k)"
    have "j < 2 ^ host_bits p" "k < 2 ^ host_bits p" using jk host_stop_le [of p] by auto
    then show "j = k" using arg_cong [OF eq, of unat] by (simp only: unat_host)
  qed
qed simp

lemma Hosts_mem:
  "h \<in> set (Hosts p) \<longleftrightarrow>
     (\<exists>w. h = ipv4_string w \<and> Contains p w \<and> network p + first_host p \<le> unat w \<and> unat w < network p + host_stop p)"
proof
  assume "h \<in> set (Hosts p)"
  then obtain k where k: "h = ipv4_string (word_of_nat (network p + k))" "first_host p \<le> k" "k < host_stop p"
    unfolding Hosts_map by auto
  then have "unat (word_of_nat (network p + k) :: ipv4) = network p + k" using host_stop_le [of p] by (intro unat_host) simp
  then show "\<exists>w. h = ipv4_string w \<and> Contains p w \<and> network p + first_host p \<le> unat w \<and> unat w < network p + host_stop p"
    using k host_stop_le [of p] unfolding Contains_interval
    by (intro exI [of _ "word_of_nat (network p + k)"]) (simp del: of_nat_add)
next
  assume "\<exists>w. h = ipv4_string w \<and> Contains p w \<and> network p + first_host p \<le> unat w \<and> unat w < network p + host_stop p"
  then obtain w where w: "h = ipv4_string w" "network p + first_host p \<le> unat w" "unat w < network p + host_stop p" by blast
  then have "w = word_of_nat (network p + (unat w - network p))" by simp
  then show "h \<in> set (Hosts p)" unfolding Hosts_map w(1) set_map set_upt
    by (rule image_eqI [where x = "unat w - network p", OF arg_cong [where f = ipv4_string]]) (use w in auto)
qed

section \<open>Validated options\<close>

definition rfc1918 :: "ipv4 \<Rightarrow> bool" where
  "rfc1918 w \<longleftrightarrow> unat w div 2 ^ 24 = 10 \<or> unat w div 2 ^ 20 = 0xAC1 \<or> unat w div 2 ^ 16 = 0xC0A8"

lemma isPrivate_sound:
  assumes "isPrivate p" "Contains p w"
  shows "rfc1918 w"
proof -
  obtain b where b: "b \<in> set privateBlocks" "pf_Bits b \<le> pf_Bits p" "Contains b (pf_Addr p)"
    using assms(1) by (auto simp: isPrivate_def list_ex_iff)
  let ?d = "2 ^ (host_bits b - host_bits p) :: nat"
  have split: "2 ^ host_bits p * ?d = (2::nat) ^ host_bits b" unfolding power_add [symmetric] using b(2) by simp
  have "unat w div 2 ^ host_bits b = unat w div 2 ^ host_bits p div ?d" by (simp flip: split add: div_mult2_eq)
  also have "\<dots> = unat (pf_Addr p) div 2 ^ host_bits p div ?d" using assms(2) by (simp add: Contains_iff)
  also have "\<dots> = unat (pf_Addr p) div 2 ^ host_bits b" by (simp flip: split add: div_mult2_eq)
  also have "\<dots> = unat (pf_Addr b) div 2 ^ host_bits b" using b(3) by (simp add: Contains_iff)
  finally show ?thesis using b(1) by (auto simp: privateBlocks_def rfc1918_def)
qed

definition range_ok :: "net_prefix \<Rightarrow> bool" where
  "range_ok p \<longleftrightarrow> 16 \<le> pf_Bits p \<and> pf_Bits p \<le> 32 \<and> isPrivate p"

lemma ParseScanRange_ok: "ParseScanRange s = Inr p \<Longrightarrow> range_ok p"
  by (auto simp: ParseScanRange_def ParsePrefix4_def range_ok_def MinScanPrefix_def Let_def split: option.splits prod.splits if_splits)

lemma parse_ranges_ok: "parse_ranges ss = Inr ps \<Longrightarrow> list_all range_ok ps \<and> length ps = length ss"
  by (induction ss arbitrary: ps) (auto split: sum.splits dest: ParseScanRange_ok)

lemma add_host_set: "set (fold add_host hs out) = set out \<union> set hs"
  by (induction hs arbitrary: out) (auto simp: add_host_def)

lemma add_host_distinct: "distinct out \<Longrightarrow> distinct (fold add_host hs out)"
  by (induction hs arbitrary: out) (auto simp: add_host_def)

lemma ScanHosts_set: "set (ScanHosts opts) = (\<Union>p \<in> set (op_ScanRanges opts). set (Hosts p))"
proof -
  have "set (fold (\<lambda>p. fold add_host (Hosts p)) ps out) = set out \<union> (\<Union>p \<in> set ps. set (Hosts p))" for ps out
    by (induction ps arbitrary: out) (auto simp: add_host_set)
  then show ?thesis by (simp add: ScanHosts_def)
qed

lemma ScanHosts_distinct: "distinct (ScanHosts opts)"
proof -
  have "distinct out \<Longrightarrow> distinct (fold (\<lambda>p. fold add_host (Hosts p)) ps out)" for ps out
    by (induction ps arbitrary: out) (auto intro: add_host_distinct)
  then show ?thesis by (simp add: ScanHosts_def)
qed

lemma Hosts_length: "length (Hosts p) = host_stop p - first_host p"
  by (simp add: Hosts_map)

lemma range_ok_length: "range_ok p \<Longrightarrow> length (Hosts p) \<le> 65534"
proof -
  assume "range_ok p"
  then have "2 ^ host_bits p \<le> (2::nat) ^ 16" by (intro power_increasing) (auto simp: range_ok_def)
  moreover have "2 ^ host_bits p \<le> (2::nat) ^ 1" if "\<not> pf_Bits p < 31" using that by (intro power_increasing) auto
  ultimately show ?thesis by (auto simp: Hosts_length host_stop_def first_host_def)
qed

lemma ScanHosts_length:
  assumes "list_all range_ok (op_ScanRanges opts)"
  shows "length (ScanHosts opts) \<le> 65534 * length (op_ScanRanges opts)"
proof -
  have a: "length (fold add_host hs out) \<le> length out + length hs" for hs out
  proof (induction hs arbitrary: out)
    case (Cons h hs) show ?case using Cons.IH [of "add_host h out"] by (simp add: add_host_def split: if_splits)
  qed simp
  have "list_all range_ok ps \<Longrightarrow> length (fold (\<lambda>p. fold add_host (Hosts p)) ps out) \<le> length out + 65534 * length ps" for ps out
  proof (induction ps arbitrary: out)
    case (Cons p ps)
    have "length (fold add_host (Hosts p) out) \<le> length out + 65534"
      using a [of "Hosts p" out] range_ok_length [of p] Cons.prems by simp
    then show ?case using Cons.IH [of "fold add_host (Hosts p) out"] Cons.prems by simp
  qed simp
  from this [OF assms, of "[]"] show ?thesis by (simp add: ScanHosts_def)
qed

section \<open>Properties\<close>

text \<open>
  C35: The addresses to probe in a range: each address of the prefix exactly once, in ascending
  order, without the network and broadcast address unless the prefix has 31 or 32 bits, whatever
  host bits the prefix was written with; also at the very end of the address space.
\<close>
theorem Hosts_exact:
  "Hosts p = map (\<lambda>n. ipv4_string (word_of_nat n))
     (if pf_Bits p < 31 then [Suc (network p)..<network p + 2 ^ (32 - pf_Bits p) - 1]
      else [network p..<network p + 2 ^ (32 - pf_Bits p)]) \<and>
   network p + 2 ^ (32 - pf_Bits p) \<le> 2 ^ 32 \<and> distinct (Hosts p) \<and>
   (h \<in> set (Hosts p) \<longleftrightarrow>
     (\<exists>w. h = ipv4_string w \<and> Contains p w \<and>
        (if pf_Bits p < 31 then unat w \<noteq> network p \<and> unat w \<noteq> network p + 2 ^ (32 - pf_Bits p) - 1 else True)))"
proof (intro conjI)
  show "Hosts p = map (\<lambda>n. ipv4_string (word_of_nat n))
     (if pf_Bits p < 31 then [Suc (network p)..<network p + 2 ^ host_bits p - 1] else [network p..<network p + 2 ^ host_bits p])"
    unfolding Hosts_ascending by (simp add: first_host_def host_stop_def)
  show "network p + 2 ^ host_bits p \<le> 2 ^ 32" by (rule network_fits)
  have "network p + first_host p \<le> unat w \<and> unat w < network p + host_stop p \<longleftrightarrow>
      (if pf_Bits p < 31 then unat w \<noteq> network p \<and> unat w \<noteq> network p + 2 ^ host_bits p - 1 else True)"
    if "Contains p w" for w
    using that [unfolded Contains_interval] by (auto simp: first_host_def host_stop_def)
  then show "h \<in> set (Hosts p) \<longleftrightarrow> (\<exists>w. h = ipv4_string w \<and> Contains p w \<and>
      (if pf_Bits p < 31 then unat w \<noteq> network p \<and> unat w \<noteq> network p + 2 ^ host_bits p - 1 else True))"
    unfolding Hosts_mem by blast
qed (rule Hosts_distinct)

text \<open>
  C36: Whatever options file is accepted, discovery only ever probes private addresses: every
  scan target is an address of a configured range within 10/8, 172.16/12 or 192.168/16, no
  address is probed twice in a scan, there are at most 65534 targets for each range, and the
  intervals and the concurrency are within their bounds.
\<close>
theorem scan_targets_private:
  assumes "ParseOptions data = Inr opts"
  shows "(\<forall>h \<in> set (ScanHosts opts). \<exists>w p. h = ipv4_string w \<and> rfc1918 w \<and> p \<in> set (op_ScanRanges opts) \<and> Contains p w) \<and>
    distinct (ScanHosts opts) \<and> length (ScanHosts opts) \<le> 65534 * length (op_ScanRanges opts) \<and> op_ScanRanges opts \<noteq> [] \<and>
    5 * 10 ^ 9 \<le> op_PollInterval opts \<and> op_PollInterval opts \<le> 3600 * 10 ^ 9 \<and>
    200 * 10 ^ 6 \<le> op_ProbeTimeout opts \<and> op_ProbeTimeout opts \<le> 30000 * 10 ^ 6 \<and>
    1 \<le> op_DiscoveryConcurrency opts \<and> op_DiscoveryConcurrency opts \<le> 64"
proof -
  obtain raw where d: "decode_options data = Some raw"
    using assms by (cases "decode_options data") (simp_all add: ParseOptions_def)
  note def = assms [unfolded ParseOptions_def d option.case]
  have raw: "parse_ranges (ro_ScanRanges raw) = Inr (op_ScanRanges opts)" "ro_ScanRanges raw \<noteq> []"
    and b: "\<not> out_of_bounds (ro_PollIntervalSeconds raw) 5 3600" "\<not> out_of_bounds (ro_ProbeTimeoutMs raw) 200 30000"
      "\<not> out_of_bounds (ro_DiscoveryConcurrency raw) 1 64"
    and v: "op_PollInterval opts = (case ro_PollIntervalSeconds raw of None \<Rightarrow> 15 | Some s \<Rightarrow> s) * 1000000000"
      "op_ProbeTimeout opts = (case ro_ProbeTimeoutMs raw of None \<Rightarrow> 2000 | Some ms \<Rightarrow> ms) * 1000000"
      "op_DiscoveryConcurrency opts = (case ro_DiscoveryConcurrency raw of None \<Rightarrow> 8 | Some n \<Rightarrow> n)"
    using def by (auto split: sum.splits if_splits option.splits)
  have ok: "list_all range_ok (op_ScanRanges opts)" "op_ScanRanges opts \<noteq> []"
    using parse_ranges_ok [OF raw(1)] raw(2) by auto
  have "\<exists>w p. h = ipv4_string w \<and> rfc1918 w \<and> p \<in> set (op_ScanRanges opts) \<and> Contains p w" if h: "h \<in> set (ScanHosts opts)" for h
  proof -
    obtain p w where "p \<in> set (op_ScanRanges opts)" "h = ipv4_string w" "Contains p w"
      using h unfolding ScanHosts_set by (auto simp: Hosts_mem)
    then show ?thesis using ok(1) isPrivate_sound by (auto simp: list_all_iff range_ok_def)
  qed
  then show ?thesis using ScanHosts_distinct ScanHosts_length [OF ok(1)] ok(2) b v
    by (auto simp: out_of_bounds_def split: option.splits)
qed

theorem scan_targets_private_witness:
  \<open>\<exists>opts. ParseOptions ''{"scan_ranges":["192.168.1.9/30","10.0.0.0/31"],"log_level":"warn"}'' = Inr opts \<and>
     ScanHosts opts = [''192.168.1.9'', ''192.168.1.10'', ''10.0.0.0'', ''10.0.0.1''] \<and>
     distinct (ScanHosts opts) \<and> op_PollInterval opts \<le> 3600 * 10 ^ 9\<close>
proof -
  define data where \<open>data = ''{"scan_ranges":["192.168.1.9/30","10.0.0.0/31"],"log_level":"warn"}''\<close>
  have r: "decode_options data = Some \<lparr>ro_ScanRanges = [''192.168.1.9/30'', ''10.0.0.0/31''], ro_PollIntervalSeconds = None,
      ro_ProbeTimeoutMs = None, ro_DiscoveryConcurrency = None, ro_LogLevel = Some ''warn''\<rparr>"
  proof -
    have \<open>parse_json data = Some (JObj [(''scan_ranges'', JArr [JStr ''192.168.1.9/30'', JStr ''10.0.0.0/31'']), (''log_level'', JStr ''warn'')])\<close>
      unfolding data_def by code_simp
    then show ?thesis
      by (simp add: decode_options_def decode_options_field_def match_field_def decode_string_pointer_def Let_def)
  qed
  have p: "parse_ranges [''192.168.1.9/30'', ''10.0.0.0/31''] = Inr [\<lparr>pf_Addr = 0xC0A80108, pf_Bits = 30\<rparr>, \<lparr>pf_Addr = 0x0A000000, pf_Bits = 31\<rparr>]"
    by (simp add: ParseScanRange_def ParsePrefix4_def split_last_slash_def parse_ipv4_def parse_octet_def nat_of_digits_def
        digit_val_def is_digit_def less_eq_char_def of_octets_def Masked_def isPrivate_def privateBlocks_def Contains_def
        parse_int64_def split_sign_def Let_def MinScanPrefix_def)
  have l: "parse_level ''warn'' = Some 4" by code_simp
  define opts where "opts = \<lparr>op_ScanRanges = [\<lparr>pf_Addr = 0xC0A80108, pf_Bits = 30\<rparr>, \<lparr>pf_Addr = 0x0A000000, pf_Bits = 31\<rparr>],
    op_PollInterval = 15 * 1000000000, op_ProbeTimeout = 2000 * 1000000, op_DiscoveryConcurrency = 8, op_LogLevel = 4\<rparr>"
  have o: "ParseOptions data = Inr opts"
    unfolding ParseOptions_def r opts_def by (simp add: p l out_of_bounds_def del: parse_ranges.simps)
  have "ScanHosts opts = [''192.168.1.9'', ''192.168.1.10'', ''10.0.0.0'', ''10.0.0.1'']"
    unfolding ScanHosts_def opts_def
    by (simp add: Hosts_def Masked_def Let_def hosts_loop.simps addr_next_def addr_string_def ipv4_string_def add_host_def
        string_of_nat.simps digit_char_def char_of_def bit_iff_odd)
  with scan_targets_private [OF o] o show ?thesis unfolding data_def by blast
qed

lemma MQTTFromEnv_ok:
  "MQTTFromEnv getenv = Inr m \<Longrightarrow>
     mq_Host m = getenv ''MQTT_HOST'' \<and> mq_Host m \<noteq> [] \<and> 1 \<le> mq_Port m \<and> mq_Port m \<le> 65535 \<and>
     mq_Username m = getenv ''MQTT_USERNAME'' \<and> mq_Password m = getenv ''MQTT_PASSWORD''"
  by (auto simp: MQTTFromEnv_def Let_def split: if_splits option.splits)

lemma MQTTFromSupervisor_ok:
  "MQTTFromSupervisor token exchange = Inr m \<Longrightarrow>
     mq_Host m \<noteq> [] \<and> (\<exists>body. exchange \<lparr>sr_Method = ''GET'', sr_URL = supervisorServicesURL,
       sr_Authorization = ''Bearer '' @ token\<rparr> = Inr (200, body))"
  by (auto simp: MQTTFromSupervisor_def split: sum.splits if_splits option.splits prod.splits)

text \<open>
  C37: What a successful start-up configuration is: the options are the validated contents of
  the options file, the broker has a host, settings from the environment take precedence over
  the Supervisor and have a port between 1 and 65535, the Supervisor is only asked when there
  is a token and only believed when it answers with status 200, and neither of the broker's
  renderings for logs depends on the password.
\<close>
theorem Load_correct:
  assumes "Load getenv read_file exchange = Inr c"
  shows "(\<exists>data. read_file (envOr getenv ''DT241M_OPTIONS_PATH'' ''/data/options.json'') = Inr data \<and>
      ParseOptions data = Inr (cf_Options c)) \<and>
    mq_Host (cf_MQTT c) \<noteq> [] \<and>
    (if getenv ''MQTT_HOST'' \<noteq> []
     then mq_Host (cf_MQTT c) = getenv ''MQTT_HOST'' \<and> 1 \<le> mq_Port (cf_MQTT c) \<and> mq_Port (cf_MQTT c) \<le> 65535 \<and>
       mq_Username (cf_MQTT c) = getenv ''MQTT_USERNAME'' \<and> mq_Password (cf_MQTT c) = getenv ''MQTT_PASSWORD''
     else getenv ''SUPERVISOR_TOKEN'' \<noteq> [] \<and>
       (\<exists>body. exchange \<lparr>sr_Method = ''GET'', sr_URL = supervisorServicesURL,
          sr_Authorization = ''Bearer '' @ getenv ''SUPERVISOR_TOKEN''\<rparr> = Inr (200, body))) \<and>
    GoString ((cf_MQTT c)\<lparr>mq_Password := x\<rparr>) = GoString (cf_MQTT c) \<and>
    LogValue ((cf_MQTT c)\<lparr>mq_Password := x\<rparr>) = LogValue (cf_MQTT c)"
proof -
  obtain data where data: "read_file (envOr getenv ''DT241M_OPTIONS_PATH'' ''/data/options.json'') = Inr data"
    using assms by (auto simp: Load_def Let_def split: sum.splits)
  obtain opts where opts: "ParseOptions data = Inr opts"
    using assms by (cases "ParseOptions data") (simp_all add: Load_def Let_def data)
  note L = assms [unfolded Load_def Let_def data opts sum.case]
  have "cf_Options c = opts" using L by (auto split: sum.splits)
  moreover have "mq_Host (cf_MQTT c) \<noteq> [] \<and>
    (if getenv ''MQTT_HOST'' \<noteq> [] then MQTTFromEnv getenv = Inr (cf_MQTT c)
     else getenv ''SUPERVISOR_TOKEN'' \<noteq> [] \<and> MQTTFromSupervisor (getenv ''SUPERVISOR_TOKEN'') exchange = Inr (cf_MQTT c))"
    using L MQTTFromEnv_ok [of getenv] MQTTFromSupervisor_ok [of "getenv ''SUPERVISOR_TOKEN''" exchange]
    by (cases "MQTTFromEnv getenv"; cases "MQTTFromSupervisor (getenv ''SUPERVISOR_TOKEN'') exchange")
      (auto split: if_splits)
  ultimately show ?thesis
    using data opts MQTTFromEnv_ok [of getenv "cf_MQTT c"] MQTTFromSupervisor_ok [of "getenv ''SUPERVISOR_TOKEN''" exchange "cf_MQTT c"]
    by (auto simp: GoString_def MQTT_String_def LogValue_def split: if_splits)
qed

definition sample_env :: "string \<Rightarrow> string" where
  "sample_env k = (if k = ''MQTT_HOST'' then ''broker.local'' else if k = ''MQTT_PORT'' then ''8883''
     else if k = ''MQTT_SSL'' then ''Yes'' else [])"

theorem Load_correct_witness:
  \<open>\<exists>c. Load sample_env (\<lambda>_. Inr ''{"scan_ranges":["10.0.0.0/31"]}'') (\<lambda>_. Inl ''unused'') = Inr c \<and>
     mq_Host (cf_MQTT c) = ''broker.local'' \<and> mq_Port (cf_MQTT c) = 8883 \<and> mq_TLS (cf_MQTT c) \<and> mq_Password (cf_MQTT c) = []\<close>
proof -
  define data where \<open>data = ''{"scan_ranges":["10.0.0.0/31"]}''\<close>
  have pj: \<open>parse_json data = Some (JObj [(''scan_ranges'', JArr [JStr ''10.0.0.0/31''])])\<close>
    unfolding data_def by code_simp
  have p: "parse_ranges [''10.0.0.0/31''] = Inr [\<lparr>pf_Addr = 0x0A000000, pf_Bits = 31\<rparr>]"
    by (simp add: ParseScanRange_def ParsePrefix4_def split_last_slash_def parse_ipv4_def parse_octet_def nat_of_digits_def
        digit_val_def is_digit_def less_eq_char_def of_octets_def Masked_def isPrivate_def privateBlocks_def Contains_def
        parse_int64_def split_sign_def Let_def MinScanPrefix_def)
  have d: "decode_options data = Some \<lparr>ro_ScanRanges = [''10.0.0.0/31''], ro_PollIntervalSeconds = None,
      ro_ProbeTimeoutMs = None, ro_DiscoveryConcurrency = None, ro_LogLevel = None\<rparr>"
    by (simp add: decode_options_def pj decode_options_field_def match_field_def Let_def)
  obtain opts where o: "ParseOptions data = Inr opts"
    unfolding ParseOptions_def d by (simp add: p out_of_bounds_def del: parse_ranges.simps)
  have m: "MQTTFromEnv sample_env = Inr \<lparr>mq_Host = ''broker.local'', mq_Port = 8883, mq_Username = [], mq_Password = [], mq_TLS = True\<rparr>"
    by code_simp
  have h: "sample_env ''MQTT_HOST'' \<noteq> []" by code_simp
  obtain c where c: "Load sample_env (\<lambda>_. Inr data) (\<lambda>_. Inl ''unused'') = Inr c" "mq_TLS (cf_MQTT c)" "mq_Port (cf_MQTT c) = 8883"
    using h by (simp add: Load_def Let_def o m)
  have "sample_env ''MQTT_PASSWORD'' = []" "sample_env ''MQTT_HOST'' = ''broker.local''" by code_simp+
  with Load_correct [OF c(1)] c show ?thesis unfolding data_def by auto
qed

end
