(* ===== verification/Rpc_Client.thy ===== *)
theory Rpc_Client
  imports Device Ipv4 Json_Parser
begin

text \<open>
  Package \<open>internal/dt241m\<close>, file \<open>client.go\<close>: the JSON-RPC client.  The HTTP transport
  (the \<open>http.RoundTripper\<close> behind \<open>http.Client.Do\<close>) is a parameter: a function from a
  request and the state of the outside world to a result and the next state.
\<close>

section \<open>Requests\<close>

definition RPCPath :: string where "RPCPath = ''/cgi-bin/proav.cgi''"

definition RPCFormField :: string where "RPCFormField = ''data''"

definition RPCID :: int where "RPCID = 1"

definition MethodGetDeviceInfo :: string where "MethodGetDeviceInfo = ''get_device_info_proav''"

definition MethodSetChannel :: string where "MethodSetChannel = ''set_channel_id''"

record http_request =
  rq_Method :: string
  rq_URL :: string
  rq_Form :: "(string \<times> string) list"

definition EncodeRequest :: "string \<Rightarrow> (string \<times> json) list \<Rightarrow> string" where
  "EncodeRequest method params =
     marshal (JObj [(''jsonrpc'', JStr ''2.0''), (''method'', JStr method),
                    (''params'', go_map params), (''id'', jint RPCID)])"

definition rpc_request :: "string \<Rightarrow> string \<Rightarrow> http_request" where
  "rpc_request ip body =
     \<lparr>rq_Method = ''POST'', rq_URL = ''http://'' @ ip @ RPCPath, rq_Form = [(RPCFormField, body)]\<rparr>"

section \<open>Responses\<close>

text \<open>
  The result of \<open>http.Client.Do\<close>: an error together with the state of the request's context
  at that moment (\<open>ctx.Err()\<close>), or a status code with the outcome of reading the body.
\<close>

datatype http_result =
    DoFailed go_error "go_error option"
  | Response int "(go_error \<times> go_error option) + string"

type_synonym 'w round_tripper = "http_request \<Rightarrow> 'w \<Rightarrow> http_result \<times> 'w"

definition interrupted :: "go_error option \<Rightarrow> go_error \<Rightarrow> string \<Rightarrow> go_error" where
  "interrupted ctxErr err msg =
     (if errors_is err DeadlineExceeded \<or> ctxErr = Some DeadlineExceeded
      then newError CodeTimeout ''request timed out; a write may still have applied'' (Some err)
      else if errors_is err Canceled \<or> ctxErr = Some Canceled
      then newError CodeCanceled ''request canceled; a write may still have applied'' (Some err)
      else newError CodeTransport msg (Some err))"

definition Ambiguous :: "go_error \<Rightarrow> bool" where
  "Ambiguous err \<longleftrightarrow> IsCode err CodeTimeout \<or> IsCode err CodeCanceled"

record rpc_envelope =
  env_JSONRPC :: string
  env_ID :: string
  env_Result :: "json option"
  env_Error :: "json option"

text \<open>
  Decoding the envelope, member by member; \<open>None\<close> records a value of the wrong type, which
  \<open>json.Unmarshal\<close> reports as an error in the end.  A JSON \<open>null\<close> leaves strings and
  numbers alone, clears the pointer \<open>Error\<close> and is stored in the raw message \<open>Result\<close>.
\<close>

definition decode_envelope_field :: "string \<times> json \<Rightarrow> rpc_envelope option \<Rightarrow> rpc_envelope option" where
  "decode_envelope_field m acc =
     (case acc of None \<Rightarrow> None | Some e \<Rightarrow>
      (case match_field [''jsonrpc'', ''id'', ''result'', ''error''] (fst m) of
         None \<Rightarrow> Some e
       | Some f \<Rightarrow>
           if f = ''jsonrpc'' then
             (case snd m of JStr s \<Rightarrow> Some (e\<lparr>env_JSONRPC := s\<rparr>) | JNull \<Rightarrow> Some e | _ \<Rightarrow> None)
           else if f = ''id'' then
             (case snd m of
                JNum t \<Rightarrow> Some (e\<lparr>env_ID := t\<rparr>)
              | JStr s \<Rightarrow> if valid_number s then Some (e\<lparr>env_ID := s\<rparr>) else None
              | JNull \<Rightarrow> Some e
              | _ \<Rightarrow> None)
           else if f = ''result'' then Some (e\<lparr>env_Result := Some (snd m)\<rparr>)
           else Some (e\<lparr>env_Error := (if snd m = JNull then None else Some (snd m))\<rparr>)))"

definition decode_envelope :: "json \<Rightarrow> rpc_envelope option" where
  "decode_envelope j =
     (let zero = \<lparr>env_JSONRPC = [], env_ID = [], env_Result = None, env_Error = None\<rparr> in
      case j of
        JObj ms \<Rightarrow> fold decode_envelope_field ms (Some zero)
      | JNull \<Rightarrow> Some zero
      | _ \<Rightarrow> None)"

text \<open>What \<open>rpc\<close> does with the response, after the request has been sent.\<close>

definition rpc_response :: "http_result \<Rightarrow> go_error + json" where
  "rpc_response res =
     (case res of
        DoFailed err ctxErr \<Rightarrow> Inl (interrupted ctxErr err ''could not complete the device HTTP request'')
      | Response status body \<Rightarrow>
          if status < 200 \<or> status > 299
          then Inl (newError CodeHTTPStatus (''device returned HTTP '' @ itoa status) None)
          else case body of
            Inl (err, ctxErr) \<Rightarrow> Inl (interrupted ctxErr err ''could not read the device response'')
          | Inr text \<Rightarrow>
              (case Option.bind (parse_json (take (2 ^ 20) text)) decode_envelope of
                 None \<Rightarrow> Inl (newError CodeInvalidJSON ''device response was not valid JSON'' (Some (OtherError ''json'' None)))
               | Some envelope \<Rightarrow>
                   if env_JSONRPC envelope \<noteq> ''2.0'' \<or> env_ID envelope \<noteq> itoa RPCID
                   then Inl (newError CodeEnvelope ''unexpected JSON-RPC envelope or response ID'' None)
                   else if env_Error envelope \<noteq> None
                   then Inl (newError CodeRPCError ''device returned a JSON-RPC error'' None)
                   else case env_Result envelope of
                     Some (JObj ms) \<Rightarrow> Inr (JObj ms)
                   | _ \<Rightarrow> Inl (newError CodeResultShape ''expected a JSON-RPC result object'' None)))"

text \<open>
  \<open>HTTPClient.rpc\<close>.  Writing the form into a \<open>bytes.Buffer\<close> and building a request for a
  URL made of a checked IPv4 address cannot fail, so those two error returns of the source
  have no branch here.
\<close>

definition rpc ::
  "'w round_tripper \<Rightarrow> string \<Rightarrow> string \<Rightarrow> 'w \<Rightarrow> (go_error + json) \<times> 'w" where
  "rpc rt ip body w =
     (if parse_ipv4 ip = None then (Inl (newError CodeInput ''expected an IPv4 address'' None), w)
      else case rt (rpc_request ip body) w of (res, w') \<Rightarrow> (rpc_response res, w'))"

section \<open>The client\<close>

fun info_error_text :: "info_error \<Rightarrow> string" where
  "info_error_text NotAnObject = ''json: cannot unmarshal value into map''"
| "info_error_text MacMissing = ''lan_mac_addr missing''"
| "info_error_text ChannelMissing = ''channel_id missing''"
| "info_error_text ChannelNotANumber = ''channel_id is not a number''"
| "info_error_text ChannelOutOfRange = ''channel_id out of range''"

definition GetDeviceInfo ::
  "'w round_tripper \<Rightarrow> string \<Rightarrow> 'w \<Rightarrow> (go_error + device_info) \<times> 'w" where
  "GetDeviceInfo rt ip w =
     (case rpc rt ip (EncodeRequest MethodGetDeviceInfo []) w of
        (Inl err, w') \<Rightarrow> (Inl err, w')
      | (Inr result, w') \<Rightarrow>
          (case UnmarshalJSON result of
             Inl e \<Rightarrow> (Inl (newError CodeResultShape ''device info is missing required fields''
                             (Some (OtherError (info_error_text e) None))), w')
           | Inr info \<Rightarrow> (Inr info, w')))"

text \<open>The acknowledgement struct with its single pointer field \<open>Result\<close>.\<close>

definition decode_ack_field :: "string \<times> json \<Rightarrow> bool option option \<Rightarrow> bool option option" where
  "decode_ack_field m acc =
     (case acc of None \<Rightarrow> None | Some r \<Rightarrow>
      (case match_field [''result''] (fst m) of
         None \<Rightarrow> Some r
       | Some _ \<Rightarrow> (case snd m of JBool b \<Rightarrow> Some (Some b) | JNull \<Rightarrow> Some None | _ \<Rightarrow> None)))"

definition acknowledged :: "json \<Rightarrow> bool" where
  "acknowledged result \<longleftrightarrow>
     (case result of JObj ms \<Rightarrow> fold decode_ack_field ms (Some None) = Some (Some True) | _ \<Rightarrow> False)"

definition set_channel_params :: "int \<Rightarrow> (string \<times> json) list" where
  "set_channel_params channel = [(''pswd'', JStr []), (''channel_id'', jint channel)]"

definition SetChannel ::
  "'w round_tripper \<Rightarrow> string \<Rightarrow> int \<Rightarrow> 'w \<Rightarrow> go_error option \<times> 'w" where
  "SetChannel rt ip channel w =
     (if \<not> ValidChannel channel
      then (Some (newError CodeInput ''channel must be an integer between 0 and 255'' None), w)
      else case rpc rt ip (EncodeRequest MethodSetChannel (set_channel_params channel)) w of
        (Inl err, w') \<Rightarrow> (Some err, w')
      | (Inr result, w') \<Rightarrow>
          if acknowledged result then (None, w')
          else (Some (newError CodeNotAccepted ''device did not explicitly acknowledge success'' None), w'))"

text \<open>The interface \<open>Client\<close> as the controller sees it, and its HTTP implementation.\<close>

record 'w client =
  cl_GetDeviceInfo :: "string \<Rightarrow> 'w \<Rightarrow> (go_error + device_info) \<times> 'w"
  cl_SetChannel :: "string \<Rightarrow> int \<Rightarrow> 'w \<Rightarrow> go_error option \<times> 'w"

definition NewHTTPClient :: "'w round_tripper \<Rightarrow> 'w client" where
  "NewHTTPClient rt =
     \<lparr>cl_GetDeviceInfo = GetDeviceInfo rt, cl_SetChannel = SetChannel rt\<rparr>"

section \<open>Lemmas\<close>

lemma rpc_response_error: "rpc_response res = Inl err \<Longrightarrow> \<exists>c msg e. err = DeviceError c msg e"
  by (auto simp: rpc_response_def interrupted_def newError_def
      split: http_result.splits sum.splits option.splits if_splits json.splits)

lemma rpc_response_object: "rpc_response res = Inr j \<Longrightarrow> \<exists>ms. j = JObj ms"
  by (auto simp: rpc_response_def split: http_result.splits sum.splits option.splits if_splits json.splits)

lemma Ambiguous_DeviceError [simp]:
  "Ambiguous (DeviceError c msg e) \<longleftrightarrow> c = CodeTimeout \<or> c = CodeCanceled"
  by (simp add: Ambiguous_def)

lemma interrupted_Ambiguous:
  "Ambiguous (interrupted ctxErr err msg) \<longleftrightarrow>
     errors_is err DeadlineExceeded \<or> ctxErr = Some DeadlineExceeded
     \<or> errors_is err Canceled \<or> ctxErr = Some Canceled"
  by (auto simp: interrupted_def Ambiguous_def newError_def)

lemma rpc_response_Inr_iff:
  "rpc_response res = Inr j \<longleftrightarrow>
     (\<exists>status text envelope ms. res = Response status (Inr text) \<and> 200 \<le> status \<and> status \<le> 299
        \<and> Option.bind (parse_json (take (2 ^ 20) text)) decode_envelope = Some envelope
        \<and> env_JSONRPC envelope = ''2.0'' \<and> env_ID envelope = itoa RPCID
        \<and> env_Error envelope = None \<and> env_Result envelope = Some (JObj ms) \<and> j = JObj ms)"
  (is "_ \<longleftrightarrow> ?R")
proof
  show "rpc_response res = Inr j \<Longrightarrow> ?R"
    by (cases res) (auto simp: rpc_response_def split: sum.splits option.splits if_splits json.splits)
  show "?R \<Longrightarrow> rpc_response res = Inr j"
    by (auto simp: rpc_response_def)
qed

lemma itoa_RPCID [simp]: "itoa RPCID = ''1''"
  by code_simp

lemma rpc_response_Ambiguous:
  assumes "rpc_response res = Inl err" "Ambiguous err"
  obtains e ctxErr status where
    "res = DoFailed e ctxErr \<or> res = Response status (Inl (e, ctxErr))"
    "errors_is e DeadlineExceeded \<or> ctxErr = Some DeadlineExceeded
      \<or> errors_is e Canceled \<or> ctxErr = Some Canceled"
proof (cases res)
  case (DoFailed e ctxErr)
  then show thesis using assms that by (auto simp: rpc_response_def interrupted_Ambiguous)
next
  case (Response status body)
  then show thesis
  proof (cases body)
    case (Inl p)
    with Response assms show thesis
      by (cases p) (auto simp: rpc_response_def interrupted_Ambiguous newError_def
          split: if_splits intro: that)
  next
    case (Inr body_text)
    with Response assms have False
      by (auto simp: rpc_response_def newError_def
          split: if_splits option.splits json.splits)
    then show thesis ..
  qed
qed

lemma parses_192_168_1_5: "parse_ipv4 ''192.168.1.5'' \<noteq> None"
  by (simp add: parse_ipv4_def parse_octet_def nat_of_digits_def digit_val_def is_digit_def less_eq_char_def)

section \<open>Properties\<close>

text \<open>C21: \<open>SetChannel\<close> reports success exactly when the channel is in range, the address is
  IPv4, and the one request it sends was answered with a 2xx status and a well-formed JSON-RPC
  response with the request's id, no error and a result object that explicitly acknowledges
  with \<open>true\<close>.\<close>

theorem SetChannel_success_iff:
  "SetChannel rt ip channel w = (None, w') \<longleftrightarrow>
     0 \<le> channel \<and> channel \<le> 255 \<and> parse_ipv4 ip \<noteq> None
     \<and> (\<exists>status text envelope ms.
          rt (rpc_request ip (EncodeRequest MethodSetChannel (set_channel_params channel))) w
            = (Response status (Inr text), w')
          \<and> 200 \<le> status \<and> status \<le> 299
          \<and> Option.bind (parse_json (take (2 ^ 20) text)) decode_envelope = Some envelope
          \<and> env_JSONRPC envelope = ''2.0'' \<and> env_ID envelope = ''1'' \<and> env_Error envelope = None
          \<and> env_Result envelope = Some (JObj ms) \<and> acknowledged (JObj ms))"
proof (cases "ValidChannel channel \<and> parse_ipv4 ip \<noteq> None")
  case True
  obtain res v where rt: "rt (rpc_request ip (EncodeRequest MethodSetChannel (set_channel_params channel))) w = (res, v)"
    by (cases "rt (rpc_request ip (EncodeRequest MethodSetChannel (set_channel_params channel))) w")
  with True have "SetChannel rt ip channel w = (None, w') \<longleftrightarrow>
      (\<exists>j. rpc_response res = Inr j \<and> acknowledged j \<and> v = w')"
    by (auto simp: SetChannel_def rpc_def split: sum.splits)
  with rt True show ?thesis
    by (auto simp: rpc_response_Inr_iff ValidChannel_iff)
next
  case False
  then show ?thesis by (auto simp: SetChannel_def rpc_def ValidChannel_iff)
qed

text \<open>C34: a write is reported as ambiguous only when its request was sent and the exchange was
  cut off by the deadline or by cancellation; a device that answered, in whatever way, never
  produces an ambiguous error, nor does a request that was refused before sending.\<close>

theorem SetChannel_ambiguous_only_if_interrupted:
  assumes "SetChannel rt ip channel w = (Some err, w')" "Ambiguous err"
  shows "\<exists>res e ctxErr status.
    rt (rpc_request ip (EncodeRequest MethodSetChannel (set_channel_params channel))) w = (res, w')
    \<and> (res = DoFailed e ctxErr \<or> res = Response status (Inl (e, ctxErr)))
    \<and> (errors_is e DeadlineExceeded \<or> ctxErr = Some DeadlineExceeded
       \<or> errors_is e Canceled \<or> ctxErr = Some Canceled)"
proof -
  obtain res v where rt: "rt (rpc_request ip (EncodeRequest MethodSetChannel (set_channel_params channel))) w = (res, v)"
    by (cases "rt (rpc_request ip (EncodeRequest MethodSetChannel (set_channel_params channel))) w")
  have "rpc_response res = Inl err" "v = w'"
    using assms rt
    by (auto simp: SetChannel_def rpc_def newError_def split: sum.splits if_splits)
  then show ?thesis using rpc_response_Ambiguous [OF _ assms(2)] rt by metis
qed

theorem SetChannel_ambiguous_only_if_interrupted_witness:
  "\<exists>res e ctxErr status.
    (\<lambda>_ w. (DoFailed (OtherError ''Post'' (Some DeadlineExceeded)) None, w))
      (rpc_request ''192.168.1.5'' (EncodeRequest MethodSetChannel (set_channel_params 4))) () = (res, ())
    \<and> (res = DoFailed e ctxErr \<or> res = Response status (Inl (e, ctxErr)))
    \<and> (errors_is e DeadlineExceeded \<or> ctxErr = Some DeadlineExceeded
       \<or> errors_is e Canceled \<or> ctxErr = Some Canceled)"
proof (rule SetChannel_ambiguous_only_if_interrupted)
  let ?err = "interrupted None (OtherError ''Post'' (Some DeadlineExceeded))
    ''could not complete the device HTTP request''"
  show "SetChannel (\<lambda>_ w. (DoFailed (OtherError ''Post'' (Some DeadlineExceeded)) None, w))
      ''192.168.1.5'' 4 () = (Some ?err, ())"
    by (simp add: SetChannel_def rpc_def rpc_response_def ValidChannel_iff parses_192_168_1_5)
  show "Ambiguous ?err" by (simp add: interrupted_Ambiguous errors_is_def)
qed

text \<open>The text on the wire of a channel change, for every channel.\<close>

theorem set_channel_wire_format:
  \<open>EncodeRequest MethodSetChannel (set_channel_params channel) =
     ''{"jsonrpc":"2.0","method":"set_channel_id","params":{"channel_id":'' @ itoa channel
       @ '',"pswd":""},"id":1}''\<close>
proof -
  have \<open>quote ''jsonrpc'' = ''"jsonrpc"''\<close> \<open>quote ''2.0'' = ''"2.0"''\<close>
    \<open>quote ''method'' = ''"method"''\<close> \<open>quote ''set_channel_id'' = ''"set_channel_id"''\<close>
    \<open>quote ''params'' = ''"params"''\<close> \<open>quote ''channel_id'' = ''"channel_id"''\<close>
    \<open>quote ''pswd'' = ''"pswd"''\<close> \<open>quote [] = ''""''\<close> \<open>quote ''id'' = ''"id"''\<close>
    by code_simp+
  then show ?thesis
    by (simp add: EncodeRequest_def MethodSetChannel_def set_channel_params_def go_map_def)
qed

end
