(* ===== verification/Controller.thy ===== *)
theory Controller
  imports Publisher_View Store Config Rpc_Client
begin

text \<open>
  Package \<open>internal/controller\<close>, files \<open>types.go\<close>, \<open>probe.go\<close>, \<open>discovery.go\<close>, \<open>write.go\<close>
  and \<open>controller.go\<close>: the operations of the controller in state-passing style.  The state is
  the record \<open>controller\<close> together with a state \<open>'w\<close> of the outside world, which the device
  client, the clock, the broker session and the database driver are functions of; they are
  collected in the record \<open>env\<close>.

  An operation runs without interference from other goroutines.  The workers of \<open>forEach\<close> take
  the items in an order that is an argument of the model (\<open>ev_sched\<close>), and skip the items left
  when the context ends.  The map iteration order of \<open>RecordObservation\<close> is fixed to the order
  of the association list, which makes no difference (\<open>RecordObservation_order_irrelevant\<close>).
  The waiting of goroutines for each other is the subject of \<open>Keyed_Queue\<close> and
  \<open>Worker_Pool\<close>.
\<close>

section \<open>Types (\<open>types.go\<close>)\<close>

record Readback =
  rb_Attempts :: int
  rb_Gap :: int

definition DefaultReadback :: Readback where
  "DefaultReadback = \<lparr>rb_Attempts = 3, rb_Gap = 400 * 1000000\<rparr>"

datatype Status = StatusMatched | StatusMismatch | StatusFailed

datatype WriteStatus = WriteAccepted | WriteRejected | WriteAmbiguous

datatype FailureReason =
    ReasonDeviceNotLocated
  | ReasonUnknownRole
  | ReasonUnknownSource
  | ReasonWriteRejected
  | ReasonInvalidChannel
  | ReasonInvalidName
  | ReasonUnknownDevice
  | ReasonShuttingDown

fun reason_string :: "FailureReason \<Rightarrow> string" where
  "reason_string ReasonDeviceNotLocated = ''device_not_located''"
| "reason_string ReasonUnknownRole = ''unknown_role''"
| "reason_string ReasonUnknownSource = ''unknown_source''"
| "reason_string ReasonWriteRejected = ''write_rejected''"
| "reason_string ReasonInvalidChannel = ''invalid_channel''"
| "reason_string ReasonInvalidName = ''invalid_name''"
| "reason_string ReasonUnknownDevice = ''unknown_device''"
| "reason_string ReasonShuttingDown = ''shutting_down''"

text \<open>The zero values of \<open>Reason\<close> and \<open>Write\<close> are \<open>None\<close>.\<close>

record Outcome =
  oc_Status :: Status
  oc_MAC :: string
  oc_IP :: string
  oc_Requested :: int
  oc_Reported :: "int option"
  oc_Reason :: "FailureReason option"
  oc_Write :: "WriteStatus option"

record RejectedError =
  rj_Reason :: FailureReason
  rj_Detail :: string

definition RejectedError_Error :: "RejectedError \<Rightarrow> string" where
  "RejectedError_Error e =
     ''request rejected: '' @ reason_string (rj_Reason e) @
     (if rj_Detail e \<noteq> [] then '': '' @ rj_Detail e else [])"

abbreviation rejected :: "FailureReason \<Rightarrow> RejectedError" where
  "rejected reason \<equiv> \<lparr>rj_Reason = reason, rj_Detail = []\<rparr>"

section \<open>State (\<open>controller.go\<close>)\<close>

record 'w env =
  ev_client :: "'w client"
  ev_opts :: options
  ev_readback :: Readback
  ev_now :: "'w \<Rightarrow> gotime"
  ev_stopping :: "'w \<Rightarrow> bool"
  ev_gap_cancelled :: "'w \<Rightarrow> bool \<times> 'w"
  ev_sched :: "'w \<Rightarrow> nat \<Rightarrow> nat list"
  ev_db :: "'w \<Rightarrow> go_error option"
  ev_await :: "'w \<Rightarrow> bool \<times> 'w"
  ev_f2i :: "int \<Rightarrow> int"

record controller =
  co_registry :: registry
  co_pub :: publisher
  co_db :: adapters_table
  co_discovering :: bool
  co_runs :: nat
  co_started :: bool
  co_subscribed :: "string list list"

text \<open>\<open>New\<close>: the defaults, and an empty inventory over the given database.\<close>

definition new_readback :: "Readback \<Rightarrow> Readback" where
  "new_readback rb = (if rb_Attempts rb \<le> 0 then DefaultReadback else rb)"

definition New_controller :: "Origin \<Rightarrow> adapters_table \<Rightarrow> controller" where
  "New_controller og db =
     \<lparr>co_registry = New,
      co_pub = \<lparr>pb_origin = og, pb_lastCounts = None, pb_lastSources = [], pb_sent = []\<rparr>,
      co_db = db, co_discovering = False, co_runs = 0, co_started = False, co_subscribed = []\<rparr>"

section \<open>Observing (\<open>probe.go\<close>, \<open>discovery.go\<close>)\<close>

definition persist :: "'w env \<Rightarrow> adapter \<Rightarrow> controller \<times> 'w \<Rightarrow> controller \<times> 'w" where
  "persist e a st = (case st of (s, w) \<Rightarrow> (s\<lparr>co_db := snd (Save (ev_db e w) a (co_db s))\<rparr>, w))"

definition observe :: "'w env \<Rightarrow> string \<Rightarrow> device_info \<Rightarrow> controller \<times> 'w \<Rightarrow> controller \<times> 'w" where
  "observe e ip info st =
     (case st of (s, w) \<Rightarrow>
      (case RecordObservation (map fst (co_registry s)) (co_registry s) ip info (ev_now e w) of
         (r, None) \<Rightarrow> (s\<lparr>co_registry := r\<rparr>, w)
       | (r, Some obs) \<Rightarrow>
           let s = s\<lparr>co_registry := r, co_pub := p_observation r obs (co_pub s)\<rparr> in
           if Changed obs then persist e (ob_Adapter obs) (s, w) else (s, w)))"

datatype observeOutcome = observeVerified | observeOtherDevice | observeUnreachable

definition observeAt ::
  "'w env \<Rightarrow> string \<Rightarrow> string \<Rightarrow> controller \<times> 'w \<Rightarrow> observeOutcome \<times> controller \<times> 'w" where
  "observeAt e ip expectedMAC st =
     (case st of (s, w) \<Rightarrow>
      (case cl_GetDeviceInfo (ev_client e) ip w of
         (Inl err, w') \<Rightarrow> (observeUnreachable, (s, w'))
       | (Inr info, w') \<Rightarrow>
           if Normalize (di_LanMAC info) \<noteq> expectedMAC then (observeOtherDevice, observe e ip info (s, w'))
           else (observeVerified, observe e ip info (s, w'))))"

definition markOffline :: "'w env \<Rightarrow> string \<Rightarrow> controller \<times> 'w \<Rightarrow> controller \<times> 'w" where
  "markOffline e macAddr st =
     (case st of (s, w) \<Rightarrow>
      (case MarkOffline (co_registry s) macAddr of
         (r, None) \<Rightarrow> (s\<lparr>co_registry := r\<rparr>, w)
       | (r, Some offline) \<Rightarrow>
           persist e offline (s\<lparr>co_registry := r, co_pub := p_offline r offline (co_pub s)\<rparr>, w)))"

text \<open>\<open>forEach\<close>: \<open>ended\<close> is \<open>ctx.Err() != nil\<close>, \<open>order\<close> the order in which items are taken.\<close>

definition forEach :: "('s \<Rightarrow> bool) \<Rightarrow> nat list \<Rightarrow> 'a list \<Rightarrow> ('a \<Rightarrow> 's \<Rightarrow> 's) \<Rightarrow> 's \<Rightarrow> 's" where
  "forEach ended order items fn st =
     fold (\<lambda>i st. if ended st \<or> i \<ge> length items then st else fn (items ! i) st) order st"

definition Probe ::
  "'w env \<Rightarrow> ('w \<Rightarrow> bool) \<Rightarrow> string list \<Rightarrow> (string \<Rightarrow> device_info \<Rightarrow> controller \<times> 'w \<Rightarrow> controller \<times> 'w)
   \<Rightarrow> controller \<times> 'w \<Rightarrow> controller \<times> 'w" where
  "Probe e ctx ips onHit st =
     forEach (\<lambda>(s, w). ctx w) (ev_sched e (snd st) (length ips)) ips
       (\<lambda>ip (s, w).
          case cl_GetDeviceInfo (ev_client e) ip w of
            (Inl err, w') \<Rightarrow> (s, w')
          | (Inr info, w') \<Rightarrow> onHit ip info (s, w')) st"

definition scan :: "'w env \<Rightarrow> ('w \<Rightarrow> bool) \<Rightarrow> controller \<times> 'w \<Rightarrow> controller \<times> 'w" where
  "scan e ctx st =
     (case st of (s, w) \<Rightarrow>
      (case Probe e ctx (ScanHosts (ev_opts e)) (observe e) (s\<lparr>co_runs := Suc (co_runs s)\<rparr>, w) of
         (s, w) \<Rightarrow> (s\<lparr>co_pub := p_scanFinished (co_registry s) (co_pub s)\<rparr>, w)))"

text \<open>
  \<open>RunDiscovery\<close>: a second call while a scan runs only waits for it, so alone it changes
  nothing.
\<close>

definition RunDiscovery :: "'w env \<Rightarrow> ('w \<Rightarrow> bool) \<Rightarrow> controller \<times> 'w \<Rightarrow> controller \<times> 'w" where
  "RunDiscovery e ctx st =
     (case st of (s, w) \<Rightarrow>
      if co_discovering s then (s, w)
      else if ev_stopping e w then (s, w)
      else case scan e ctx (s\<lparr>co_discovering := True\<rparr>, w) of (s, w) \<Rightarrow> (s\<lparr>co_discovering := False\<rparr>, w))"

definition ProbeKnownAddresses :: "'w env \<Rightarrow> ('w \<Rightarrow> bool) \<Rightarrow> controller \<times> 'w \<Rightarrow> controller \<times> 'w" where
  "ProbeKnownAddresses e ctx st =
     (let candidates = filter (\<lambda>a. ad_IP a \<noteq> []) (All (co_registry (fst st))) in
      if candidates = [] then st
      else forEach (\<lambda>(s, w). ctx w) (ev_sched e (snd st) (length candidates)) candidates
        (\<lambda>a st. snd (observeAt e (ad_IP a) (ad_MAC a) st)) st)"

text \<open>The body of the poll for one adapter; the flag is \<open>needsRediscovery\<close>.\<close>

definition poll_one :: "'w env \<Rightarrow> adapter \<Rightarrow> bool \<times> controller \<times> 'w \<Rightarrow> bool \<times> controller \<times> 'w" where
  "poll_one e a fst_st =
     (case fst_st of (needs, st) \<Rightarrow>
      if ad_IP a = [] then (needs, st)
      else
        (case observeAt e (ad_IP a) (ad_MAC a) st of
           (observeVerified, st) \<Rightarrow> (needs, st)
         | (observeOtherDevice, st) \<Rightarrow> (True, st)
         | (observeUnreachable, st) \<Rightarrow> (needs \<or> ad_Online a, markOffline e (ad_MAC a) st)))"

definition PollKnownDevices :: "'w env \<Rightarrow> ('w \<Rightarrow> bool) \<Rightarrow> controller \<times> 'w \<Rightarrow> controller \<times> 'w" where
  "PollKnownDevices e ctx st =
     (if ev_stopping e (snd st) then st
      else
        let adapters = All (co_registry (fst st)) in
        if adapters = [] then st
        else
          (case forEach (\<lambda>(needs, s, w). ctx w) (ev_sched e (snd st) (length adapters)) adapters (poll_one e) (False, st) of
             (needs, s, w) \<Rightarrow> if needs \<and> \<not> ev_stopping e w then RunDiscovery e ctx (s, w) else (s, w)))"

section \<open>Changing a channel (\<open>write.go\<close>)\<close>

definition writableRole :: "role \<Rightarrow> bool" where
  "writableRole role \<longleftrightarrow> role = RoleReceiver \<or> role = RoleTransmitter"

text \<open>
  \<open>ChangeChannel\<close> and \<open>ChangeSource\<close> either refuse a request or claim a place in the queue of
  the device; the result is the job that is queued, the MAC and the channel.
\<close>

definition ChangeChannel :: "'w env \<Rightarrow> string \<Rightarrow> int \<Rightarrow> controller \<times> 'w \<Rightarrow> RejectedError + string \<times> int" where
  "ChangeChannel e macAddr channel st =
     (case st of (s, w) \<Rightarrow>
      if ev_stopping e w then Inl (rejected ReasonShuttingDown)
      else if \<not> ValidChannel channel then Inl (rejected ReasonInvalidChannel)
      else
        (case Lookup (co_registry s) (Normalize macAddr) of
           None \<Rightarrow> Inl (rejected ReasonUnknownDevice)
         | Some adapter \<Rightarrow>
             if \<not> writableRole (ad_Role adapter) then Inl (rejected ReasonUnknownRole)
             else Inr (ad_MAC adapter, channel)))"

definition ChangeSource :: "'w env \<Rightarrow> string \<Rightarrow> string \<Rightarrow> controller \<times> 'w \<Rightarrow> RejectedError + string \<times> int" where
  "ChangeSource e macAddr label st =
     (case Lookup (co_registry (fst st)) (Normalize macAddr) of
        None \<Rightarrow> Inl (rejected ReasonUnknownDevice)
      | Some adapter \<Rightarrow>
          if ad_Role adapter \<noteq> RoleReceiver then Inl (rejected ReasonUnknownRole)
          else
            (case ByLabel (Sources (co_registry (fst st))) label of
               None \<Rightarrow> Inl (rejected ReasonUnknownSource)
             | Some source \<Rightarrow> ChangeChannel e (ad_MAC adapter) (src_Channel source) st))"

definition verifiedIP ::
  "'w env \<Rightarrow> ('w \<Rightarrow> bool) \<Rightarrow> string \<Rightarrow> controller \<times> 'w \<Rightarrow> string option \<times> controller \<times> 'w" where
  "verifiedIP e ctx macAddr st =
     (case Lookup (co_registry (fst st)) macAddr of
        None \<Rightarrow> (None, st)
      | Some adapter \<Rightarrow>
          let locate = (\<lambda>st. let st = RunDiscovery e ctx st in
                (case Lookup (co_registry (fst st)) macAddr of
                   Some located \<Rightarrow> if ad_Online located then (Some (ad_IP located), st) else (None, st)
                 | None \<Rightarrow> (None, st)))
          in
          if ad_IP adapter \<noteq> [] then
            (case observeAt e (ad_IP adapter) macAddr st of
               (observeVerified, st) \<Rightarrow> (Some (ad_IP adapter), st)
             | (observeUnreachable, st) \<Rightarrow> locate (markOffline e macAddr st)
             | (observeOtherDevice, st) \<Rightarrow> locate st)
          else locate st)"

definition ctl_write :: "'w env \<Rightarrow> string \<Rightarrow> int \<Rightarrow> controller \<times> 'w \<Rightarrow> WriteStatus \<times> controller \<times> 'w" where
  "ctl_write e ip channel st =
     (case st of (s, w) \<Rightarrow>
      (case cl_SetChannel (ev_client e) ip channel w of
         (None, w') \<Rightarrow> (WriteAccepted, s, w')
       | (Some err, w') \<Rightarrow> (if Ambiguous err then WriteAmbiguous else WriteRejected, s, w')))"

text \<open>The readback loop; \<open>left\<close> counts the attempts that remain, \<open>retry\<close> says that this is not the first.\<close>

fun readBack_loop ::
  "'w env \<Rightarrow> string \<Rightarrow> string \<Rightarrow> int \<Rightarrow> bool \<Rightarrow> nat \<Rightarrow> int option \<Rightarrow> controller \<times> 'w \<Rightarrow> int option \<times> controller \<times> 'w" where
  "readBack_loop e macAddr ip requested retry 0 reported st = (reported, st)"
| "readBack_loop e macAddr ip requested retry (Suc left) reported st =
     (case st of (s, w0) \<Rightarrow>
      (case (if retry \<and> rb_Gap (ev_readback e) > 0 then ev_gap_cancelled e w0 else (False, w0)) of
         (True, w) \<Rightarrow> (reported, s, w)
       | (False, w) \<Rightarrow>
           (case cl_GetDeviceInfo (ev_client e) ip w of
              (Inl err, w') \<Rightarrow> readBack_loop e macAddr ip requested True left reported (s, w')
            | (Inr info, w') \<Rightarrow>
                if Normalize (di_LanMAC info) \<noteq> macAddr then (None, observe e ip info (s, w'))
                else
                  let st = observe e ip info (s, w'); channel = di_ChannelID info in
                  if channel = requested then (Some channel, st)
                  else readBack_loop e macAddr ip requested True left (Some channel) st)))"

definition readBack ::
  "'w env \<Rightarrow> string \<Rightarrow> string \<Rightarrow> int \<Rightarrow> controller \<times> 'w \<Rightarrow> int option \<times> controller \<times> 'w" where
  "readBack e macAddr ip requested st =
     readBack_loop e macAddr ip requested False (nat (rb_Attempts (ev_readback e))) None st"

definition changeChannel ::
  "'w env \<Rightarrow> ('w \<Rightarrow> bool) \<Rightarrow> string \<Rightarrow> int \<Rightarrow> controller \<times> 'w \<Rightarrow> Outcome \<times> controller \<times> 'w" where
  "changeChannel e ctx macAddr requested st =
     (case verifiedIP e ctx macAddr st of
        (None, st) \<Rightarrow>
          (\<lparr>oc_Status = StatusFailed, oc_MAC = macAddr, oc_IP = [], oc_Requested = requested, oc_Reported = None,
            oc_Reason = Some ReasonDeviceNotLocated, oc_Write = None\<rparr>, st)
      | (Some ip, st) \<Rightarrow>
          let (role, channel) = (case Lookup (co_registry (fst st)) macAddr of
                None \<Rightarrow> ([], None) | Some adapter \<Rightarrow> (ad_Role adapter, ad_Channel adapter)) in
          if \<not> writableRole role then
            (\<lparr>oc_Status = StatusFailed, oc_MAC = macAddr, oc_IP = ip, oc_Requested = requested, oc_Reported = channel,
              oc_Reason = Some ReasonUnknownRole, oc_Write = None\<rparr>, st)
          else
            (case ctl_write e ip requested st of (wr, st) \<Rightarrow>
             (case readBack e macAddr ip requested st of (reported, st) \<Rightarrow>
                (\<lparr>oc_Status =
                    (if wr = WriteRejected then StatusFailed
                     else if reported = Some requested then StatusMatched else StatusMismatch),
                  oc_MAC = macAddr, oc_IP = ip, oc_Requested = requested, oc_Reported = reported,
                  oc_Reason = (if wr = WriteRejected then Some ReasonWriteRejected else None),
                  oc_Write = Some wr\<rparr>, st))))"

section \<open>Names, start and stop (\<open>controller.go\<close>)\<close>

definition name_error_text :: "name_error \<Rightarrow> string" where
  "name_error_text err =
     (case err of
        NameTooLong \<Rightarrow> ''name longer than '' @ itoa (int MaxNameLength) @ '' characters''
      | NameControlChars \<Rightarrow> ''name contains control characters'')"

definition zero_adapter :: adapter where
  "zero_adapter =
     \<lparr>ad_MAC = [], ad_ID = [], ad_Role = [], ad_IP = [], ad_Name = None, ad_ReportedName = [], ad_ProductName = [],
      ad_Model = [], ad_Firmware = [], ad_Channel = None, ad_Online = False, ad_FirstSeenAt = zero_time,
      ad_LastSeenAt = zero_time\<rparr>"

definition Rename ::
  "'w env \<Rightarrow> string \<Rightarrow> string \<Rightarrow> controller \<times> 'w \<Rightarrow> (adapter \<times> RejectedError option) \<times> controller \<times> 'w" where
  "Rename e macAddr raw st =
     (case st of (s, w) \<Rightarrow>
      (case Lookup (co_registry s) (Normalize macAddr) of
         None \<Rightarrow> ((zero_adapter, Some (rejected ReasonUnknownDevice)), s, w)
       | Some adapter \<Rightarrow>
           (case ValidateName raw of
              Inl err \<Rightarrow>
                ((adapter, Some \<lparr>rj_Reason = ReasonInvalidName, rj_Detail = name_error_text err\<rparr>),
                 s\<lparr>co_pub := p_rejectedName adapter (co_pub s)\<rparr>, w)
            | Inr name \<Rightarrow>
                (case SetName (co_registry s) (ad_MAC adapter) name of
                   (r, found) \<Rightarrow>
                     let updated = (case found of None \<Rightarrow> zero_adapter | Some a \<Rightarrow> a) in
                     ((updated, None),
                      s\<lparr>co_registry := r,
                        co_db := snd (store_SetName (ev_db e w) (ad_MAC adapter) name (co_db s)),
                        co_pub := p_renamed r updated (co_pub s)\<rparr>, w)))))"

definition onMQTTConnected :: "controller \<times> 'w \<Rightarrow> controller \<times> 'w" where
  "onMQTTConnected st =
     (case st of (s, w) \<Rightarrow>
      (s\<lparr>co_subscribed := co_subscribed s @ [Subscriptions], co_pub := p_everything (co_registry s) (co_pub s)\<rparr>, w))"

definition Start :: "'w env \<Rightarrow> ('w \<Rightarrow> bool) \<Rightarrow> controller \<times> 'w \<Rightarrow> store_error option \<times> controller \<times> 'w" where
  "Start e ctx st =
     (case st of (s, w) \<Rightarrow>
      if co_started s then (None, s, w)
      else
        let s = s\<lparr>co_started := True\<rparr> in
        (case LoadAll (ev_db e w) (co_db s) of
           Inl err \<Rightarrow> (Some err, s, w)
         | Inr persisted \<Rightarrow>
             let s = s\<lparr>co_registry := Hydrate persisted (co_registry s)\<rparr> in
             (case ev_await e w of (connected, w) \<Rightarrow>
                let st = (if connected then onMQTTConnected (s, w) else (s, w)) in
                (None, RunDiscovery e ctx (ProbeKnownAddresses e ctx st)))))"

text \<open>\<open>Stop\<close>, after the background work has ended or the wait for it was given up.\<close>

definition Stop :: "bool \<Rightarrow> controller \<times> 'w \<Rightarrow> controller \<times> 'w" where
  "Stop connected st =
     (case st of (s, w) \<Rightarrow> if connected then (s\<lparr>co_pub := controllerOffline (co_pub s)\<rparr>, w) else (s, w))"

text \<open>The actions that \<open>New\<close> registers with the router, each with the work it queues.\<close>

definition perform :: "'w env \<Rightarrow> action \<Rightarrow> controller \<times> 'w \<Rightarrow> controller \<times> 'w" where
  "perform e act st =
     (let run = (\<lambda>job. case job of Inl err \<Rightarrow> st | Inr (m, c) \<Rightarrow> snd (changeChannel e (ev_stopping e) m c st)) in
      case act of
        ChannelCommand m channel \<Rightarrow> run (ChangeChannel e m channel st)
      | SourceCommand m label \<Rightarrow> run (ChangeSource e m label st)
      | NameCommand m raw \<Rightarrow> snd (Rename e m raw st)
      | RescanRequested \<Rightarrow> RunDiscovery e (ev_stopping e) st
      | HomeAssistantOnline \<Rightarrow> (case st of (s, w) \<Rightarrow> (s\<lparr>co_pub := p_everything (co_registry s) (co_pub s)\<rparr>, w)))"

definition on_message :: "'w env \<Rightarrow> string \<Rightarrow> string \<Rightarrow> controller \<times> 'w \<Rightarrow> controller \<times> 'w" where
  "on_message e topic payload st =
     (case NewRouter (ev_f2i e) topic payload of None \<Rightarrow> st | Some act \<Rightarrow> perform e act st)"

section \<open>Running\<close>

text \<open>
  What reaches a running controller: a message from the broker, a tick of the poll timer, a new
  broker session.
\<close>

datatype input = MessageArrived string string | PollTick | Reconnected

fun react :: "'w env \<Rightarrow> input \<Rightarrow> controller \<times> 'w \<Rightarrow> controller \<times> 'w" where
  "react e (MessageArrived topic payload) st = on_message e topic payload st"
| "react e PollTick st = PollKnownDevices e (ev_stopping e) st"
| "react e Reconnected st = onMQTTConnected st"

end
