(* ===== verification/Controller_Invariant.thy ===== *)
theory Controller_Invariant
  imports Controller
begin

text \<open>
  What every operation of the controller preserves.  The locale \<open>step_invariant\<close> is the
  interface between the operations and an invariant of them: whoever shows that the invariant
  survives one exchange with a device, one offline mark and the bookkeeping of a scan has it
  for probing, scanning and polling; \<open>full_invariant\<close> adds what writes, renames and sweeps
  need and gives it for every command that arrives from the broker.

  The interpretations are in \<open>Controller_View\<close> (the inventory stays well formed and the
  broker's retained messages stay right) and in \<open>Controller_Safety\<close> (who is ever written to).
\<close>

locale step_invariant =
  fixes e :: "'w env" and Inv :: "controller \<times> 'w \<Rightarrow> bool"
  assumes read_failed: "Inv (s, w) \<Longrightarrow> cl_GetDeviceInfo (ev_client e) ip w = (Inl err, w') \<Longrightarrow> Inv (s, w')"
    and read_observed: "Inv (s, w) \<Longrightarrow> cl_GetDeviceInfo (ev_client e) ip w = (Inr info, w') \<Longrightarrow> Inv (observe e ip info (s, w'))"
    and marked_offline: "Inv st \<Longrightarrow> Inv (markOffline e m st)"
    and runs_counted: "Inv (s, w) \<Longrightarrow> Inv (s\<lparr>co_runs := n\<rparr>, w)"
    and discovering_set: "Inv (s, w) \<Longrightarrow> Inv (s\<lparr>co_discovering := b\<rparr>, w)"
    and scan_finished: "Inv (s, w) \<Longrightarrow> Inv (s\<lparr>co_pub := p_scanFinished (co_registry s) (co_pub s)\<rparr>, w)"
begin

lemma forEach_preserves:
  assumes "\<And>x st. Q st \<Longrightarrow> Q (fn x st)" "Q st"
  shows "Q (forEach ended order items fn st)"
proof -
  have "Q (fold (\<lambda>i st. if ended st \<or> i \<ge> length items then st else fn (items ! i) st) order st)"
    using assms(2) by (induction order arbitrary: st) (simp_all add: assms(1))
  then show ?thesis by (simp add: forEach_def)
qed

lemma observeAt_preserves: "Inv st \<Longrightarrow> Inv (snd (observeAt e ip m st))"
  using read_failed read_observed by (cases st) (auto simp: observeAt_def split: sum.splits prod.splits)

lemma Probe_preserves:
  assumes "Inv st"
  shows "Inv (Probe e ctx ips (observe e) st)"
  unfolding Probe_def
  by (rule forEach_preserves [where Q = Inv, OF _ assms])
    (auto split: sum.splits prod.splits intro: read_failed read_observed)

lemma scan_preserves: "Inv st \<Longrightarrow> Inv (scan e ctx st)"
proof (cases st)
  case (Pair s w)
  assume "Inv st"
  then have "Inv (Probe e ctx (ScanHosts (ev_opts e)) (observe e) (s\<lparr>co_runs := Suc (co_runs s)\<rparr>, w))"
    unfolding Pair by (intro Probe_preserves runs_counted)
  then show ?thesis unfolding Pair scan_def by (auto split: prod.splits intro: scan_finished)
qed

lemma RunDiscovery_preserves: "Inv st \<Longrightarrow> Inv (RunDiscovery e ctx st)"
proof (cases st)
  case (Pair s w)
  assume "Inv st"
  moreover from this have "Inv (scan e ctx (s\<lparr>co_discovering := True\<rparr>, w))"
    unfolding Pair by (intro scan_preserves discovering_set)
  ultimately show ?thesis unfolding Pair RunDiscovery_def by (auto split: prod.splits intro: discovering_set)
qed

lemma ProbeKnownAddresses_preserves: "Inv st \<Longrightarrow> Inv (ProbeKnownAddresses e ctx st)"
  unfolding ProbeKnownAddresses_def Let_def
  by (auto intro!: forEach_preserves [where Q = Inv] observeAt_preserves)

lemma poll_one_preserves:
  assumes "Inv (snd p)"
  shows "Inv (snd (poll_one e a p))"
proof -
  obtain needs st where p: "p = (needs, st)" by (rule prod.exhaust)
  with assms have st: "Inv st" by simp
  obtain out st' where o: "observeAt e (ad_IP a) (ad_MAC a) st = (out, st')" by (cases "observeAt e (ad_IP a) (ad_MAC a) st")
  then have "Inv st'" using observeAt_preserves [OF st] by (metis snd_conv)
  then show ?thesis using o st marked_offline by (cases out) (simp_all add: p poll_one_def)
qed

lemma PollKnownDevices_preserves:
  assumes "Inv st"
  shows "Inv (PollKnownDevices e ctx st)"
proof -
  have "Inv (snd (forEach ended order as (poll_one e) (False, st)))" for ended order as
    by (rule forEach_preserves [where Q = "\<lambda>p. Inv (snd p)"]) (simp_all add: poll_one_preserves assms)
  then show ?thesis using assms RunDiscovery_preserves
    unfolding PollKnownDevices_def Let_def by (auto split: prod.splits) (metis snd_conv)+
qed

lemma verifiedIP_preserves:
  assumes "Inv st"
  shows "Inv (snd (verifiedIP e ctx m st))"
proof (cases "Lookup (co_registry (fst st)) m")
  case (Some a)
  obtain out st' where o: "observeAt e (ad_IP a) m st = (out, st')" by (cases "observeAt e (ad_IP a) m st")
  then have "Inv st'" using observeAt_preserves [OF assms] by (metis snd_conv)
  then show ?thesis using Some o assms RunDiscovery_preserves marked_offline
    by (cases out) (auto simp: verifiedIP_def Let_def split: option.splits)
qed (simp add: verifiedIP_def assms)

end

locale full_invariant = step_invariant +
  assumes written: "Inv (s, w) \<Longrightarrow> cl_SetChannel (ev_client e) ip c w = (r, w') \<Longrightarrow> Inv (s, w')"
    and waited: "Inv (s, w) \<Longrightarrow> ev_gap_cancelled e w = (b, w') \<Longrightarrow> Inv (s, w')"
    and renamed: "Inv st \<Longrightarrow> Inv (snd (Rename e m raw st))"
    and swept: "Inv (s, w) \<Longrightarrow> Inv (s\<lparr>co_pub := p_everything (co_registry s) (co_pub s)\<rparr>, w)"
    and subscribed: "Inv (s, w) \<Longrightarrow> Inv (s\<lparr>co_subscribed := subs\<rparr>, w)"
begin

lemma ctl_write_preserves: "Inv st \<Longrightarrow> Inv (snd (ctl_write e ip c st))"
  using written by (cases st) (auto simp: ctl_write_def split: prod.splits option.splits)

lemma readBack_loop_preserves: "Inv st \<Longrightarrow> Inv (snd (readBack_loop e m ip c retry n rep st))"
proof (induction n arbitrary: retry rep st)
  case (Suc n)
  obtain s w where st: "st = (s, w)" by (cases st)
  obtain b w1 where g: "(if retry \<and> rb_Gap (ev_readback e) > 0 then ev_gap_cancelled e w else (False, w)) = (b, w1)"
    by (metis surj_pair)
  then have i: "Inv (s, w1)" using Suc.prems st waited by (auto split: if_splits)
  show ?case using g i Suc.IH read_failed [OF i] read_observed [OF i] unfolding st
    by (auto simp: Let_def split: bool.splits prod.splits sum.splits)
qed simp

lemma changeChannel_preserves:
  assumes "Inv st"
  shows "Inv (snd (changeChannel e ctx m c st))"
proof -
  obtain ip st1 where v: "verifiedIP e ctx m st = (ip, st1)" by (cases "verifiedIP e ctx m st")
  then have 1: "Inv st1" using verifiedIP_preserves [OF assms] by (metis snd_conv)
  obtain wr st2 where w: "ctl_write e (the ip) c st1 = (wr, st2)" by (cases "ctl_write e (the ip) c st1")
  then have 2: "Inv st2" using ctl_write_preserves [OF 1] by (metis snd_conv)
  obtain rep st3 where r: "readBack e m (the ip) c st2 = (rep, st3)" by (cases "readBack e m (the ip) c st2")
  then have "Inv st3" using readBack_loop_preserves [OF 2] unfolding readBack_def by (metis snd_conv)
  then show ?thesis using v w r 1
    by (cases ip) (auto simp: changeChannel_def Let_def split: prod.splits option.splits)
qed

lemma perform_preserves: "Inv st \<Longrightarrow> Inv (perform e act st)"
  using changeChannel_preserves renamed RunDiscovery_preserves swept
  by (cases act) (auto simp: perform_def Let_def split: sum.splits prod.splits)

lemma on_message_preserves: "Inv st \<Longrightarrow> Inv (on_message e topic payload st)"
  using perform_preserves by (auto simp: on_message_def split: option.splits)

lemma onMQTTConnected_preserves: "Inv st \<Longrightarrow> Inv (onMQTTConnected st)"
  using swept subscribed by (cases st) (fastforce simp: onMQTTConnected_def)

lemma react_preserves: "Inv st \<Longrightarrow> Inv (react e i st)"
  by (cases i) (simp_all add: on_message_preserves PollKnownDevices_preserves onMQTTConnected_preserves)

lemma run_preserves: "Inv st \<Longrightarrow> Inv (fold (react e) inputs st)"
  by (induction inputs arbitrary: st) (simp_all add: react_preserves)

end

end
