(* ===== verification/Controller_View.thy ===== *)
theory Controller_View
  imports Controller_Invariant
begin

text \<open>
  The controller keeps the inventory well formed and the broker's retained messages right,
  through start-up and every sequence of commands, polls and reconnections.  The invariant is
  \<open>ha_inv\<close> of \<open>Publisher_View\<close> on the registry and the publisher; it needs a client whose
  answers carry channels in range, which is the interface \<open>valid_client\<close>, and the HTTP client
  is one.
\<close>

section \<open>The interface to the device client\<close>

locale valid_client =
  fixes e :: "'w env"
  assumes answers_valid: "cl_GetDeviceInfo (ev_client e) ip w = (Inr info, w') \<Longrightarrow> ValidChannel (di_ChannelID info)"

text \<open>A predicate on the inventory and the publisher that their updates preserve.\<close>

definition over :: "(registry \<times> publisher \<Rightarrow> bool) \<Rightarrow> controller \<times> 'w \<Rightarrow> bool" where
  "over Q st \<longleftrightarrow> Q (co_registry (fst st), co_pub (fst st))"

locale ha_invariant = valid_client e for e :: "'w env" +
  fixes Q :: "registry \<times> publisher \<Rightarrow> bool"
  assumes Q_wf: "Q (r, p) \<Longrightarrow> reg_wf r"
    and Q_step: "Q (r, p) \<Longrightarrow> ev_ok r ev \<Longrightarrow> Q (ha_step ev (r, p))"

lemma observe_ha:
  "(let st' = observe e ip info (s, w) in (co_registry (fst st'), co_pub (fst st'))) =
     ha_step (EvObserve (map fst (co_registry s)) ip info (ev_now e w)) (co_registry s, co_pub s)"
  by (auto simp: observe_def persist_def Let_def split: prod.splits option.splits)

lemma markOffline_ha:
  "(let st' = markOffline e m (s, w) in (co_registry (fst st'), co_pub (fst st'))) =
     ha_step (EvOffline m) (co_registry s, co_pub s)"
  by (auto simp: markOffline_def persist_def Let_def split: prod.splits option.splits)

lemma Rename_ha:
  assumes "reg_wf (co_registry s)"
  shows "(let st' = snd (Rename e m raw (s, w)) in (co_registry (fst st'), co_pub (fst st'))) =
     (case ValidateName raw of
        Inl err \<Rightarrow> ha_step (EvRejectName (Normalize m)) (co_registry s, co_pub s)
      | Inr n \<Rightarrow> ha_step (EvRename (Normalize m) n) (co_registry s, co_pub s))"
proof (cases "Lookup (co_registry s) (Normalize m)")
  case (Some a)
  then have "ad_MAC a = Normalize m" using reg_wfD [OF assms] by (simp add: Lookup_def)
  then show ?thesis using Some
    by (auto simp: Rename_def SetName_def Lookup_def Let_def split: sum.splits)
qed (auto simp: Rename_def SetName_def Lookup_def split: sum.splits)

lemma ha_step_over:
  "ha_invariant e Q \<Longrightarrow> over Q (s, w) \<Longrightarrow> ev_ok (co_registry s) ev \<Longrightarrow>
   (co_registry s', co_pub s') = ha_step ev (co_registry s, co_pub s) \<Longrightarrow> over Q (s', w')"
  unfolding over_def by (simp add: ha_invariant.Q_step)

sublocale ha_invariant \<subseteq> view: full_invariant e "over Q"
proof (unfold_locales, goal_cases)
  note step = ha_step_over [OF ha_invariant_axioms]
  case (2 s w ip info w')
  then have "ev_ok (co_registry s) (EvObserve (map fst (co_registry s)) ip info (ev_now e w'))"
    using answers_valid by simp
  from step [OF 2(1) this] observe_ha [of e ip info s w'] show ?case
    by (cases "observe e ip info (s, w')") (simp add: Let_def del: ha_step.simps)
next
  note step = ha_step_over [OF ha_invariant_axioms]
  case (3 st m)
  then show ?case using markOffline_ha [of e m "fst st" "snd st"] step [of "fst st" "snd st" "EvOffline m"]
    by (cases "markOffline e m st") (simp add: Let_def)
next
  note step = ha_step_over [OF ha_invariant_axioms]
  case (9 st m raw)
  have "reg_wf (co_registry (fst st))" using 9 Q_wf by (auto simp: over_def)
  from Rename_ha [OF this, of e m raw "snd st"] 9
  show ?case using step [of "fst st" "snd st" "EvRejectName (Normalize m)"] step [of "fst st" "snd st" "EvRename (Normalize m) _"]
    by (cases "snd (Rename e m raw st)") (auto simp: Let_def split: sum.splits)
next
  case (6 s w)
  show ?case by (rule ha_step_over [OF ha_invariant_axioms 6, of EvScanFinished]) simp_all
next
  case (10 s w)
  show ?case by (rule ha_step_over [OF ha_invariant_axioms 10, of EvSweep]) simp_all
qed (simp_all add: over_def)

text \<open>
  The two invariants.  \<open>ha_since\<close> is \<open>ha_inv\<close> counted from a moment at which the calls \<open>P\<close> had
  already been attempted; \<open>ha_wf\<close> says nothing of the broker.
\<close>

definition since :: "publish_call list \<Rightarrow> publisher \<Rightarrow> publisher" where
  "since P p = p\<lparr>pb_sent := P @ pb_sent p\<rparr>"

definition ha_since :: "publish_call list \<Rightarrow> Origin \<Rightarrow> (string \<Rightarrow> string option) \<Rightarrow> registry \<times> publisher \<Rightarrow> bool" where
  "ha_since P og b0 rp \<longleftrightarrow> (\<exists>q. snd rp = since P q \<and> ha_inv b0 (fst rp, q) \<and> pb_origin q = og)"

definition ha_wf :: "Origin \<Rightarrow> registry \<times> publisher \<Rightarrow> bool" where
  "ha_wf og rp \<longleftrightarrow> reg_wf (fst rp) \<and> one_online_per_ip (fst rp) \<and> pb_origin (snd rp) = og"

definition view_inv :: "Origin \<Rightarrow> (string \<Rightarrow> string option) \<Rightarrow> controller \<times> 'w \<Rightarrow> bool" where
  "view_inv og b0 st \<longleftrightarrow> ha_inv b0 (co_registry (fst st), co_pub (fst st)) \<and> pb_origin (co_pub (fst st)) = og"

lemma since_simps [simp]:
  "pb_origin (since P p) = pb_origin p" "pb_lastCounts (since P p) = pb_lastCounts p"
  "pb_lastSources (since P p) = pb_lastSources p" "pb_sent (since P p) = P @ pb_sent p" "since [] p = p"
  "(since P p)\<lparr>pb_lastCounts := c\<rparr> = since P (p\<lparr>pb_lastCounts := c\<rparr>)"
  "(since P p)\<lparr>pb_lastSources := t\<rparr> = since P (p\<lparr>pb_lastSources := t\<rparr>)"
  "emit cs (since P p) = since P (emit cs p)"
  by (simp_all add: since_def emit_def)

lemma view_since: "view_inv og b0 st \<longleftrightarrow> over (ha_since [] og b0) st"
  by (auto simp: view_inv_def over_def ha_since_def)

lemmas ha_step_emits = p_observation_step pub_step_def p_offline_def p_counts_emit refreshSources_emit
  p_availability_emit p_renamed_def p_discovery_def p_discoveryWith_emit p_name_emit p_rejectedName_def
  p_scanFinished_def p_everything_emit

lemma ha_step_since: "ha_step ev (r, since P p) = map_prod id (since P) (ha_step ev (r, p))"
  by (cases ev) (simp_all add: ha_step_emits Let_def split: prod.splits option.splits)

lemma ha_step_origin: "pb_origin (snd (ha_step ev (r, p))) = pb_origin p"
  by (cases ev) (simp_all add: ha_step_emits Let_def split: prod.splits option.splits)

lemma ha_step_registry: "fst (ha_step ev (r, p)) = fst (ha_step ev (r, q))"
  by (cases ev) (simp_all split: prod.splits option.splits)

lemma sweep_inv_at: "reg_wf r \<Longrightarrow> one_online_per_ip r \<Longrightarrow> pb_sent p = [] \<Longrightarrow> ha_inv b0 (r, p_everything r p)"
  by (simp add: ha_inv_def everything_in_view quiet_def)

lemma ha_since_step:
  assumes "ha_since P og b0 (r, p)" "ev_ok r ev" shows "ha_since P og b0 (ha_step ev (r, p))"
proof -
  obtain q where "p = since P q" "ha_inv b0 (r, q)" "pb_origin q = og" using assms(1) by (auto simp: ha_since_def)
  then show ?thesis using ha_step_inv [OF _ assms(2)] ha_step_origin [of ev r q]
    by (auto simp: ha_since_def ha_step_since)
qed

lemma ha_wf_step:
  assumes "ha_wf og (r, p)" "ev_ok r ev" shows "ha_wf og (ha_step ev (r, p))"
proof -
  let ?q = "p_everything r (p\<lparr>pb_sent := []\<rparr>)"
  have "ha_inv Map.empty (ha_step ev (r, ?q))"
    using ha_step_inv [OF _ assms(2)] sweep_inv_at assms(1) by (simp add: ha_wf_def)
  then show ?thesis using assms(1) ha_step_registry [of ev r p ?q] ha_step_origin [of ev r p]
    by (simp add: ha_wf_def ha_inv_def)
qed

sublocale valid_client \<subseteq> since: ha_invariant e "ha_since P og b0" for P og b0
  by unfold_locales (auto simp: ha_since_step, auto simp: ha_since_def ha_inv_def)

sublocale valid_client \<subseteq> unseen: ha_invariant e "ha_wf og" for og
  by unfold_locales (auto simp: ha_wf_step, auto simp: ha_wf_def)

text \<open>The HTTP client only returns decoded reports, and decoding checks the channel.\<close>

definition http_env :: "'w round_tripper \<Rightarrow> 'w env \<Rightarrow> 'w env" where
  "http_env rt e = e\<lparr>ev_client := NewHTTPClient rt\<rparr>"

lemma rpc_report_valid:
  assumes "rpc rt ip body w = (Inr j, w')" "UnmarshalJSON j = Inr info"
  shows "ValidChannel (di_ChannelID info)"
proof -
  from assms(1) obtain res where "rpc_response res = Inr j" by (auto simp: rpc_def split: if_splits prod.splits)
  from rpc_response_object [OF this] obtain ms where "j = JObj ms" by blast
  with assms(2) UnmarshalJSON_Inr [of ms info] obtain c where "decode_channel c = Inr (di_ChannelID info)" by blast
  from decode_channel_Inr [OF this] show ?thesis by blast
qed

lemma http_env_frame [simp]: "ev_db (http_env rt e) = ev_db e" "ev_await (http_env rt e) = ev_await e"
  by (simp_all add: http_env_def)

interpretation http: valid_client "http_env rt e" for rt e
  by unfold_locales
    (auto simp: http_env_def NewHTTPClient_def GetDeviceInfo_def split: sum.splits prod.splits dest: rpc_report_valid)

section \<open>Start-up\<close>

text \<open>A database whose rows were written by this program, or by nobody.\<close>

definition table_wf :: "adapters_table \<Rightarrow> bool" where
  "table_wf t \<longleftrightarrow> distinct (map fst t) \<and> (\<forall>(m, c) \<in> set t. adapter_wf (scanned_adapter m c))"

lemma LoadAll_wf:
  assumes "table_wf t" "LoadAll io t = Inr adapters"
  shows "list_all adapter_wf (map (ad_Online_update (\<lambda>_. False)) adapters)"
  using assms by (auto simp: LoadAll_def table_wf_def list_all_iff intro!: adapter_wf_offline split: option.splits)

lemma hydrated_wf:
  assumes "table_wf t" "LoadAll io t = Inr adapters"
  shows "reg_wf (Hydrate adapters New) \<and> one_online_per_ip (Hydrate adapters New)"
  using Hydrate_wf Hydrate_one_online New_wf LoadAll_wf [OF assms] by blast

text \<open>The state after \<open>Hydrate\<close> and the wait for the broker, from which \<open>Start\<close> goes on.\<close>

definition loaded :: "Origin \<Rightarrow> adapters_table \<Rightarrow> adapter list \<Rightarrow> controller" where
  "loaded og db adapters = (New_controller og db)\<lparr>co_started := True, co_registry := Hydrate adapters New\<rparr>"

lemma loaded_simps [simp]:
  "co_registry (loaded og db adapters) = Hydrate adapters New" "co_db (loaded og db adapters) = db"
  "pb_origin (co_pub (loaded og db adapters)) = og" "pb_sent (co_pub (loaded og db adapters)) = []"
  by (simp_all add: loaded_def New_controller_def quiet_def)

lemma Start_eq:
  "Start e ctx (New_controller og db, w) =
     (case LoadAll (ev_db e w) db of
        Inl err \<Rightarrow> (Some err, (New_controller og db)\<lparr>co_started := True\<rparr>, w)
      | Inr adapters \<Rightarrow>
          (None, RunDiscovery e ctx (ProbeKnownAddresses e ctx
            ((if fst (ev_await e w) then onMQTTConnected else id) (loaded og db adapters, snd (ev_await e w))))))"
  by (auto simp: Start_def New_controller_def loaded_def Let_def split: sum.splits prod.splits)

lemma loaded_wf:
  assumes "table_wf db" "LoadAll io db = Inr adapters"
  shows "over (ha_wf og) (loaded og db adapters, w)"
  using hydrated_wf [OF assms] by (simp add: over_def ha_wf_def)

text \<open>A running system: start-up, then any inputs.\<close>

definition system_run :: "'w env \<Rightarrow> Origin \<Rightarrow> adapters_table \<Rightarrow> input list \<Rightarrow> 'w \<Rightarrow> controller \<times> 'w" where
  "system_run e og db inputs w =
     fold (react e) inputs (snd (Start e (ev_stopping e) (New_controller og db, w)))"

text \<open>
  The moments at which the controller publishes everything: at start-up when the broker is there
  in time, on every new session, and when Home Assistant says that it is back.  \<open>swept\<close> says that
  one of them came after \<open>k\<close> attempts to publish.
\<close>

definition sweeps :: "'w env \<Rightarrow> input \<Rightarrow> bool" where
  "sweeps e i \<longleftrightarrow>
     (case i of
        Reconnected \<Rightarrow> True
      | PollTick \<Rightarrow> False
      | MessageArrived topic payload \<Rightarrow> NewRouter (ev_f2i e) topic payload = Some HomeAssistantOnline)"

definition attempts :: "controller \<times> 'w \<Rightarrow> nat" where
  "attempts st = length (pb_sent (co_pub (fst st)))"

definition swept :: "'w env \<Rightarrow> Origin \<Rightarrow> adapters_table \<Rightarrow> input list \<Rightarrow> 'w \<Rightarrow> nat \<Rightarrow> bool" where
  "swept e og db inputs w k \<longleftrightarrow>
     fst (ev_await e w) \<and> k = 0 \<or>
     (\<exists>n < length inputs. sweeps e (inputs ! n) \<and> k = attempts (system_run e og db (take n inputs) w))"

lemma sweep_since:
  assumes "over (ha_wf og) (s, w)"
    and "co_registry s' = co_registry s" "co_pub s' = p_everything (co_registry s) (co_pub s)"
  shows "over (ha_since (pb_sent (co_pub s)) og b0) (s', w')"
proof -
  let ?q = "(co_pub s)\<lparr>pb_sent := []\<rparr>"
  have "co_pub s = since (pb_sent (co_pub s)) ?q" by (simp add: since_def)
  then have "p_everything (co_registry s) (co_pub s) = since (pb_sent (co_pub s)) (p_everything (co_registry s) ?q)"
    using ha_step_since [of EvSweep "co_registry s" "pb_sent (co_pub s)" ?q] by (metis ha_step.simps(6) map_prod_simp prod.inject)
  moreover have "pb_origin (p_everything (co_registry s) ?q) = pb_origin (co_pub s)"
    using ha_step_origin [of EvSweep] by simp
  ultimately show ?thesis using assms sweep_inv_at [of "co_registry s" ?q b0]
    by (auto simp: over_def ha_wf_def ha_since_def)
qed

lemma react_sweep:
  assumes "over (ha_wf og) st" "sweeps e i"
  shows "over (ha_since (pb_sent (co_pub (fst st))) og b0) (react e i st)"
proof (cases st)
  case (Pair s w)
  then show ?thesis using assms
    by (cases i) (auto simp: sweeps_def on_message_def perform_def onMQTTConnected_def intro: sweep_since)
qed

context valid_client
begin

lemma system_run_split:
  assumes "n < length inputs"
  shows "system_run e og db inputs w =
    fold (react e) (drop (Suc n) inputs) (react e (inputs ! n) (system_run e og db (take n inputs) w))"
proof -
  have "fold (react e) inputs st = fold (react e) (take n inputs @ inputs ! n # drop (Suc n) inputs) st" for st
    using id_take_nth_drop [OF assms] by simp
  then show ?thesis by (simp add: system_run_def)
qed

lemma system_run_wf:
  assumes "table_wf db" "ev_db e w = None"
  shows "over (ha_wf og) (system_run e og db inputs w)"
proof -
  obtain adapters where load: "LoadAll (ev_db e w) db = Inr adapters" using assms(2) by (simp add: LoadAll_def)
  note start = unseen.view.onMQTTConnected_preserves [OF loaded_wf [OF assms(1) load]] loaded_wf [OF assms(1) load]
  have "over (ha_wf og) (snd (Start e (ev_stopping e) (New_controller og db, w)))"
    unfolding Start_eq load
    using unseen.view.RunDiscovery_preserves [OF unseen.view.ProbeKnownAddresses_preserves [OF start(1)]]
      unseen.view.RunDiscovery_preserves [OF unseen.view.ProbeKnownAddresses_preserves [OF start(2)]] by simp
  then show ?thesis unfolding system_run_def by (rule unseen.view.run_preserves)
qed

lemma system_run_view:
  assumes "table_wf db" "ev_db e w = None" "fst (ev_await e w)"
  shows "view_inv og b0 (system_run e og db inputs w)"
proof -
  obtain adapters where load: "LoadAll (ev_db e w) db = Inr adapters" using assms(2) by (simp add: LoadAll_def)
  have sweep: "over (ha_since [] og b0) (onMQTTConnected (loaded og db adapters, w'))" for w'
    using sweep_since [OF loaded_wf [OF assms(1) load], of _ og b0 w'] by (simp add: onMQTTConnected_def)
  have "over (ha_since [] og b0) (snd (Start e (ev_stopping e) (New_controller og db, w)))"
    unfolding Start_eq load
    using since.view.RunDiscovery_preserves [OF since.view.ProbeKnownAddresses_preserves [OF sweep]] assms(3)
    by simp
  then show ?thesis unfolding system_run_def view_since by (rule since.view.run_preserves)
qed

lemma swept_since:
  assumes "table_wf db" "ev_db e w = None" "swept e og db inputs w k"
  shows "\<exists>P. length P = k \<and> over (ha_since P og b0) (system_run e og db inputs w)"
  using assms(3) unfolding swept_def
proof (elim disjE conjE exE)
  assume "fst (ev_await e w)" "k = 0"
  then show ?thesis using system_run_view [OF assms(1,2)] by (auto simp: view_since)
next
  fix n
  assume n: "n < length inputs" "sweeps e (inputs ! n)" "k = attempts (system_run e og db (take n inputs) w)"
  let ?st = "system_run e og db (take n inputs) w"
  have "over (ha_since (pb_sent (co_pub (fst ?st))) og b0) (react e (inputs ! n) ?st)"
    by (rule react_sweep [OF system_run_wf [OF assms(1,2)] n(2)])
  then have "over (ha_since (pb_sent (co_pub (fst ?st))) og b0) (system_run e og db inputs w)"
    unfolding system_run_split [OF n(1)] by (rule since.view.run_preserves)
  then show ?thesis using n(3) by (auto simp: attempts_def)
qed

end

text \<open>What was lost before the sweep does not matter, when nothing is lost after it.\<close>

lemma received_append: "received ok (xs @ ys) = received ok xs @ received (\<lambda>n. ok (length xs + n)) ys"
  by (induction xs arbitrary: ok) (simp_all add: comp_def)

lemma received_all: "(\<And>n. n < length cs \<Longrightarrow> ok n) \<Longrightarrow> received ok cs = cs"
proof (induction cs arbitrary: ok)
  case (Cons c cs)
  from Cons.prems [of 0] Cons.prems [of "Suc _"] show ?case by (simp add: Cons.IH)
qed simp

lemma since_shown:
  assumes "\<And>b. over (ha_since P og b) st " "\<forall>n. length P \<le> n \<and> n < attempts st \<longrightarrow> ok n"
  shows "shown (co_registry (fst st)) og (broker (received ok (pb_sent (co_pub (fst st)))) b0)"
proof -
  let ?b = "broker (received ok P) b0"
  obtain q where q: "co_pub (fst st) = since P q" "ha_inv ?b (co_registry (fst st), q)" "pb_origin q = og"
    using assms(1) [of ?b] by (auto simp: over_def ha_since_def)
  have "received (\<lambda>n. ok (length P + n)) (pb_sent q) = pb_sent q"
    by (rule received_all) (use assms(2) q(1) in \<open>simp add: attempts_def\<close>)
  then show ?thesis using q by (simp add: received_append broker_append ha_inv_def in_view_def) 
qed

section \<open>Properties\<close>

text \<open>A house where no device answers.\<close>

definition silent :: "unit round_tripper" where
  "silent = (\<lambda>rq w. (DoFailed (OtherError ''no route to host'' None) None, w))"

definition house :: "unit env" where
  "house =
     \<lparr>ev_client = NewHTTPClient silent,
      ev_opts = \<lparr>op_ScanRanges = [], op_PollInterval = 30000000000, op_ProbeTimeout = 1000000000,
                 op_DiscoveryConcurrency = 64, op_LogLevel = 0\<rparr>,
      ev_readback = DefaultReadback, ev_now = (\<lambda>_. 5000000000), ev_stopping = (\<lambda>_. False),
      ev_gap_cancelled = (\<lambda>w. (False, w)), ev_sched = (\<lambda>_ n. [0..<n]), ev_db = (\<lambda>_. None),
      ev_await = (\<lambda>w. (True, w)), ev_f2i = id\<rparr>"

definition house_origin :: Origin where
  "house_origin = \<lparr>og_Version = ''2.1.0'', og_SupportURL = ''https://example.org''\<rparr>"

definition house_db :: adapters_table where
  "house_db = upsert (new_adapter ''fc:19:28:6c:d6:d8'' ''10.0.0.1'' rx_info 0) []"

lemma house_db_wf: "table_wf house_db"
  by code_simp

text \<open>C1: over the HTTP client, whatever the devices answer, whatever the database driver does after
  the inventory was loaded and whatever arrives from the broker: the inventory stays well formed
  and no two adapters are online at one address.  And after any full sweep (the one of a start-up
  that finds the broker, of a new session, or of Home Assistant's return), if the broker gets every message
  attempted from then on, its retained messages show exactly the inventory, no matter which of the
  messages before that were lost and what the broker held.\<close>

theorem controller_view_correct:
  assumes "table_wf db" "ev_db e w = None"
    and "system_run (http_env rt e) og db inputs w = (s, w')"
  shows "reg_wf (co_registry s) \<and> one_online_per_ip (co_registry s)
    \<and> (\<forall>k ok b0. swept (http_env rt e) og db inputs w k \<and> (\<forall>n. k \<le> n \<and> n < length (pb_sent (co_pub s)) \<longrightarrow> ok n) \<longrightarrow>
        shown (co_registry s) og (broker (received ok (pb_sent (co_pub s))) b0))"
proof (intro conjI allI impI)
  note run = assms(3) and db = assms(1)
  have free: "ev_db (http_env rt e) w = None" using assms(2) by simp
  show "reg_wf (co_registry s)" "one_online_per_ip (co_registry s)"
    using http.system_run_wf [OF db free, of og inputs] run by (simp_all add: over_def ha_wf_def)
  fix k ok b0
  assume k: "swept (http_env rt e) og db inputs w k \<and> (\<forall>n. k \<le> n \<and> n < length (pb_sent (co_pub s)) \<longrightarrow> ok n)"
  let ?P = "take k (pb_sent (co_pub s))"
  have "length ?P = k \<and> over (ha_since ?P og b) (s, w')" for b
    using http.swept_since [OF db free, of og inputs k b] k run by (auto simp: over_def ha_since_def)
  then show "shown (co_registry s) og (broker (received ok (pb_sent (co_pub s))) b0)"
    using since_shown [of ?P og "(s, w')" ok b0] k by (simp add: attempts_def)
qed

lemma house_unreachable: "observeAt (http_env silent house) ''10.0.0.1'' m (s, ()) = (observeUnreachable, (s, ()))"
  by (simp add: observeAt_def http_env_def NewHTTPClient_def GetDeviceInfo_def rpc_def silent_def
      rpc_response_def parse_ipv4_def)

definition house_adapter :: adapter where
  "house_adapter = sqlite_persisted (new_adapter ''fc:19:28:6c:d6:d8'' ''10.0.0.1'' rx_info 0)"

lemma house_adapter_simps [simp]:
  "ad_MAC house_adapter = ''fc:19:28:6c:d6:d8''" "ad_IP house_adapter = ''10.0.0.1''" "\<not> ad_Online house_adapter"
  by (simp_all add: house_adapter_def sqlite_persisted_def)

lemma house_loaded: "LoadAll None house_db = Inr [house_adapter]" "Hydrate [house_adapter] New = [(''fc:19:28:6c:d6:d8'', house_adapter)]"
  by code_simp+

lemma house_renamed:
  "co_registry (fst (system_run (http_env silent house) house_origin house_db
     [MessageArrived ''dt241m/device/fc19286cd6d8/name/set'' ''Lobby''] ())) =
   [(''fc:19:28:6c:d6:d8'', house_adapter\<lparr>ad_Name := Some ''Lobby''\<rparr>)]"
proof -
  let ?e = "http_env silent house"
  have env: "ev_sched ?e = (\<lambda>_ n. [0..<n])" "ev_stopping ?e = (\<lambda>_. False)" "ScanHosts (ev_opts ?e) = []"
    "ev_db house = (\<lambda>_. None)" "ev_await house = (\<lambda>w. (True, w))"
    by (simp_all add: house_def http_env_def ScanHosts_def)
  have all: "All [(''fc:19:28:6c:d6:d8'', house_adapter)] = [house_adapter]" by (simp add: All_def)
  have "co_registry (fst (snd (Start ?e (ev_stopping ?e) (New_controller house_origin house_db, ())))) =
     [(''fc:19:28:6c:d6:d8'', house_adapter)]"
    by (simp add: Start_eq env house_loaded onMQTTConnected_def ProbeKnownAddresses_def forEach_def all
        house_unreachable RunDiscovery_def scan_def Probe_def Let_def split: prod.splits)
  moreover have "NewRouter (ev_f2i ?e) ''dt241m/device/fc19286cd6d8/name/set'' ''Lobby'' = Some (NameCommand ''fc:19:28:6c:d6:d8'' ''Lobby'')"
    by code_simp
  moreover have "Normalize ''fc:19:28:6c:d6:d8'' = ''fc:19:28:6c:d6:d8''" "ValidateName ''Lobby'' = Inr (Some ''Lobby'')"
    by code_simp+
  ultimately show ?thesis
    by (cases "snd (Start ?e (ev_stopping ?e) (New_controller house_origin house_db, ()))")
      (simp add: system_run_def on_message_def perform_def Rename_def Lookup_def SetName_def env Let_def)
qed

text \<open>
  No broker at start-up, a new name, then a session: everything sent before it is lost.
\<close>

definition late_house :: "unit env" where
  "late_house = house\<lparr>ev_await := (\<lambda>w. (False, w))\<rparr>"

abbreviation lobby :: input where
  "lobby \<equiv> MessageArrived ''dt241m/device/fc19286cd6d8/name/set'' ''Lobby''"

lemma late_house_renamed:
  "co_registry (fst (system_run (http_env silent late_house) house_origin house_db [lobby] ())) =
     [(''fc:19:28:6c:d6:d8'', house_adapter\<lparr>ad_Name := Some ''Lobby''\<rparr>)] \<and>
   0 < attempts (system_run (http_env silent late_house) house_origin house_db [lobby] ())"
proof -
  let ?e = "http_env silent late_house"
  have env: "ev_sched ?e = (\<lambda>_ n. [0..<n])" "ev_stopping ?e = (\<lambda>_. False)" "ScanHosts (ev_opts ?e) = []"
    "ev_db late_house = (\<lambda>_. None)" "ev_await late_house = (\<lambda>w. (False, w))"
    by (simp_all add: late_house_def house_def http_env_def ScanHosts_def)
  have all: "All [(''fc:19:28:6c:d6:d8'', house_adapter)] = [house_adapter]" by (simp add: All_def)
  have down: "observeAt ?e ''10.0.0.1'' m (s, ()) = (observeUnreachable, (s, ()))" for m s
    by (simp add: observeAt_def http_env_def NewHTTPClient_def GetDeviceInfo_def rpc_def silent_def rpc_response_def parse_ipv4_def)
  have "co_registry (fst (snd (Start ?e (ev_stopping ?e) (New_controller house_origin house_db, ())))) =
     [(''fc:19:28:6c:d6:d8'', house_adapter)]"
    by (simp add: Start_eq env house_loaded ProbeKnownAddresses_def forEach_def all
        down RunDiscovery_def scan_def Probe_def Let_def split: prod.splits)
  moreover have "NewRouter (ev_f2i ?e) ''dt241m/device/fc19286cd6d8/name/set'' ''Lobby'' = Some (NameCommand ''fc:19:28:6c:d6:d8'' ''Lobby'')"
    by code_simp
  moreover have "Normalize ''fc:19:28:6c:d6:d8'' = ''fc:19:28:6c:d6:d8''" "ValidateName ''Lobby'' = Inr (Some ''Lobby'')"
    by code_simp+
  ultimately show ?thesis
    by (cases "snd (Start ?e (ev_stopping ?e) (New_controller house_origin house_db, ()))")
      (simp add: system_run_def on_message_def perform_def Rename_def Lookup_def SetName_def env attempts_def
        p_renamed_def p_name_emit c_name_def p_discovery_def p_discoveryWith_emit refreshSources_emit Let_def)
qed

theorem controller_view_correct_witness:
  "let run = (\<lambda>inputs. system_run (http_env silent late_house) house_origin house_db inputs ());
       s = fst (run [lobby, Reconnected]); k = attempts (run [lobby])
   in 0 < k \<and> shown (co_registry s) house_origin (broker (received (\<lambda>n. k \<le> n) (pb_sent (co_pub s))) (\<lambda>_. Some ''stale'')) \<and>
      map ad_Name (All (co_registry s)) = [Some ''Lobby'']"
proof -
  let ?run = "\<lambda>inputs. system_run (http_env silent late_house) house_origin house_db inputs ()"
  let ?s = "fst (?run [lobby, Reconnected])" and ?k = "attempts (?run [lobby])"
  have step: "?run [lobby, Reconnected] = onMQTTConnected (?run [lobby])" by (simp add: system_run_def)
  have names: "map ad_Name (All (co_registry ?s)) = [Some ''Lobby'']"
    unfolding step using late_house_renamed
    by (cases "?run [lobby]") (simp add: onMQTTConnected_def All_def)
  have swept: "swept (http_env silent late_house) house_origin house_db [lobby, Reconnected] () ?k"
    unfolding swept_def by (rule disjI2) (rule exI [of _ 1], simp add: sweeps_def)
  have "ev_db late_house () = None" by (simp add: late_house_def house_def)
  note claim = controller_view_correct [OF house_db_wf this surjective_pairing, of silent house_origin "[lobby, Reconnected]"]
  have "shown (co_registry ?s) house_origin (broker (received (\<lambda>n. ?k \<le> n) (pb_sent (co_pub ?s))) (\<lambda>_. Some ''stale''))"
    by (rule claim [THEN conjunct2, THEN conjunct2, rule_format], rule conjI [OF swept]) blast
  then show ?thesis using late_house_renamed names unfolding Let_def by blast
qed

end
