(* ===== verification/Controller_Store.thy ===== *)
theory Controller_Store
  imports Controller_View
begin

text \<open>
  The controller and its database.  Every operation saves what it changed, so that as long as
  the driver does not fail the database holds the same inventory as the registry, up to what
  is not stored (who is online), what is only refreshed on other changes (the last-seen time)
  and the millisecond precision of times.  A controller started again on that database
  therefore begins with the same adapters under the same names.
\<close>

section \<open>What the database keeps of an adapter\<close>

definition kept :: "adapter \<Rightarrow> adapter" where
  "kept a = a\<lparr>ad_Online := False, ad_LastSeenAt := zero_time,
     ad_FirstSeenAt := of_unix_milli (unix_milli (ad_FirstSeenAt a))\<rparr>"

definition synced :: "registry \<Rightarrow> adapters_table \<Rightarrow> bool" where
  "synced r t \<longleftrightarrow> (\<forall>m. map_option kept (Lookup r m) = map_option kept (sqlite_stored t m))"

lemma kept_simps [simp]:
  "kept (a\<lparr>ad_Online := b\<rparr>) = kept a" "kept (a\<lparr>ad_LastSeenAt := t\<rparr>) = kept a"
  "kept (a\<lparr>ad_Name := n\<rparr>) = (kept a)\<lparr>ad_Name := n\<rparr>"
  by (simp_all add: kept_def)

lemma kept_eqD: "kept a = kept b \<Longrightarrow> ad_Name a = ad_Name b \<and> ad_MAC a = ad_MAC b"
  by (cases a; cases b) (simp add: kept_def)

lemma kept_persisted: "adapter_wf a \<Longrightarrow> kept (sqlite_persisted a) = kept a"
  by (cases a) (simp add: kept_def sqlite_persisted_def adapter_wf_def unix_milli_def of_unix_milli_def)

lemma synced_upsert:
  assumes "synced r t" "adapter_wf a" "Lookup r' (ad_MAC a) = Some a"
    and "\<And>n. n \<noteq> ad_MAC a \<Longrightarrow> map_option kept (Lookup r' n) = map_option kept (Lookup r n)"
    and "\<And>e. Lookup r (ad_MAC a) = Some e \<Longrightarrow> ad_Name a = ad_Name e"
  shows "synced r' (upsert a t)"
  unfolding synced_def
proof
  fix m
  show "map_option kept (Lookup r' m) = map_option kept (sqlite_stored (upsert a t) m)"
  proof (cases "m = ad_MAC a")
    case False
    then show ?thesis using assms(1,4) by (simp add: synced_def sqlite.stored_save)
  next
    case True
    have "ad_Name b = ad_Name a" if "sqlite_stored t m = Some b" for b
    proof -
      have "map_option kept (Lookup r m) = Some (kept b)" using assms(1) that unfolding synced_def by simp
      then obtain e where e: "Lookup r m = Some e" "kept e = kept b" by (cases "Lookup r m") simp_all
      then show ?thesis using kept_eqD [OF e(2)] assms(5) True by simp
    qed
    moreover have "(kept a)\<lparr>ad_Name := ad_Name a\<rparr> = kept a" by (cases a) (simp add: kept_def)
    ultimately show ?thesis
      using True assms(3) kept_persisted [OF assms(2)] by (simp add: sqlite.stored_save split: option.splits)
  qed
qed

section \<open>The invariant\<close>

lemma table_wf_stored:
  "table_wf t \<longleftrightarrow> distinct (map fst t) \<and> (\<forall>m a. sqlite_stored t m = Some a \<longrightarrow> adapter_wf a)"
  by (fastforce simp: table_wf_def sqlite_stored_def)

lemma adapter_wf_persisted: "adapter_wf a \<Longrightarrow> adapter_wf (sqlite_persisted a)"
  by (simp add: adapter_wf_def sqlite_persisted_def)

lemma table_wf_upsert: "table_wf t \<Longrightarrow> adapter_wf a \<Longrightarrow> table_wf (upsert a t)"
  by (auto simp: table_wf_stored upsert_distinct sqlite.stored_save adapter_wf_persisted
      intro!: adapter_wf_name split: if_splits option.splits)

lemma table_wf_SetName: "table_wf t \<Longrightarrow> table_wf (snd (store_SetName None m n t))"
proof (cases "sqlite_stored t m")
  case (Some b)
  assume wf: "table_wf t"
  have "distinct (map fst (snd (store_SetName None m n t)))"
    using wf by (auto simp: table_wf_def store_SetName_def distinct_update split: option.splits)
  then show ?thesis using wf sqlite.set_name_known [OF Some, of n] Some
    by (auto simp: table_wf_stored intro!: adapter_wf_name split: if_splits)
qed (simp add: sqlite.set_name_unknown)

definition store_inv :: "'w env \<Rightarrow> controller \<times> 'w \<Rightarrow> bool" where
  "store_inv e st \<longleftrightarrow> reg_wf (co_registry (fst st)) \<and> one_online_per_ip (co_registry (fst st)) \<and> table_wf (co_db (fst st))
     \<and> ((\<forall>w. ev_db e w = None) \<longrightarrow> synced (co_registry (fst st)) (co_db (fst st)))"

lemma persist_inv:
  assumes "store_inv e (s, w)" "reg_wf r" "one_online_per_ip r" "Lookup r (ad_MAC a) = Some a"
    and "\<And>n. n \<noteq> ad_MAC a \<Longrightarrow> map_option kept (Lookup r n) = map_option kept (Lookup (co_registry s) n)"
    and "\<And>b. Lookup (co_registry s) (ad_MAC a) = Some b \<Longrightarrow> ad_Name a = ad_Name b"
  shows "store_inv e (persist e a (s\<lparr>co_registry := r, co_pub := p\<rparr>, w))"
proof -
  have wf: "adapter_wf a" using reg_wfD [OF assms(2)] assms(4) by (simp add: Lookup_def)
  have "synced r (upsert a (co_db s))" if "\<forall>w. ev_db e w = None"
    using synced_upsert [OF _ wf assms(4-6)] assms(1) that by (simp add: store_inv_def)
  then show ?thesis using assms(1-3) table_wf_upsert [OF _ wf]
    by (auto simp: store_inv_def persist_def Save_def split: option.splits)
qed

lemma quiet_inv:
  assumes "store_inv e (s, w)" "reg_wf r" "one_online_per_ip r"
    and "\<And>n. map_option kept (Lookup r n) = map_option kept (Lookup (co_registry s) n)"
  shows "store_inv e (s\<lparr>co_registry := r, co_pub := p\<rparr>, w')"
  using assms by (simp add: store_inv_def synced_def)

text \<open>What an observation and an offline mark do to what is kept.\<close>

lemma observation_kept:
  assumes wf: "reg_wf r" "one_online_per_ip r" "fst ` set r \<subseteq> set order" and valid: "ValidChannel (di_ChannelID info)"
    and rec: "RecordObservation order r ip info now = (r', Some obs)"
  shows "reg_wf r'" "one_online_per_ip r'" "Lookup r' (ad_MAC (ob_Adapter obs)) = Some (ob_Adapter obs)"
    and "n \<noteq> ad_MAC (ob_Adapter obs) \<Longrightarrow> map_option kept (Lookup r' n) = map_option kept (Lookup r n)"
    and "Lookup r (ad_MAC (ob_Adapter obs)) = Some b \<Longrightarrow> ad_Name (ob_Adapter obs) = ad_Name b"
    and "\<not> Changed obs \<Longrightarrow> map_option kept (Lookup r' m) = map_option kept (Lookup r m)"
proof -
  let ?m = "Normalize (di_LanMAC info)"
  have ne: "?m \<noteq> []" using rec by (auto simp: RecordObservation_invalid)
  obtain q ob where eff: "RecordObservation order r ip info now = (q, Some ob)" "ob_Adapter ob = observed r ?m ip info now"
      "Lookup q ?m = Some (observed r ?m ip info now)"
    and others: "\<And>n. n \<noteq> ?m \<Longrightarrow> Lookup q n = map_option (\<lambda>b. if occupies r ?m ip n then b\<lparr>ad_Online := False\<rparr> else b) (Lookup r n)"
    by (rule RecordObservation_effect [OF wf refl ne, of ip now]) (rule that)
  have q: "q = r'" "ob = obs" using rec eff(1) by simp_all
  show r': "reg_wf r'" "one_online_per_ip r'"
    using RecordObservation_wf [OF wf(1) valid, of order ip now] RecordObservation_one_online [OF wf valid, of ip now] rec
    by simp_all
  have mac: "ad_MAC (ob_Adapter obs) = ?m" using eff(2,3) reg_wfD [OF r'(1)] unfolding q by (simp add: Lookup_def)
  then show self: "Lookup r' (ad_MAC (ob_Adapter obs)) = Some (ob_Adapter obs)" using eff(2,3) unfolding q by simp
  show frame: "map_option kept (Lookup r' n) = map_option kept (Lookup r n)" if "n \<noteq> ad_MAC (ob_Adapter obs)" for n
    using others [of n] that unfolding q mac by (cases "Lookup r n") simp_all
  show "ad_Name (ob_Adapter obs) = ad_Name b" if "Lookup r (ad_MAC (ob_Adapter obs)) = Some b"
    using eff(2) that unfolding q mac by (simp add: observed_def)
  assume unchanged: "\<not> Changed obs"
  have "map_option kept (Lookup r' ?m) = map_option kept (Lookup r ?m)"
  proof (cases "Lookup r ?m")
    case None
    then have "ob_Created obs" using rec ne displace_lookup_self [OF wf(1)]
      by (auto simp: RecordObservation_def Let_def Lookup_def split: prod.splits option.splits)
    then show ?thesis using unchanged by (simp add: Changed_def)
  next
    case (Some b)
    then show ?thesis using change_detection_eq [OF wf(1) Some refl rec] unchanged self mac by simp
  qed
  then show "map_option kept (Lookup r' m) = map_option kept (Lookup r m)" using frame mac by (cases "m = ?m") simp_all
qed

lemma offline_kept:
  assumes "reg_wf r" "MarkOffline r m = (r', Some a)"
  shows "Lookup r' (ad_MAC a) = Some a" "ad_MAC a = m" "map_option kept (Lookup r' n) = map_option kept (Lookup r n)"
    and "Lookup r (ad_MAC a) = Some b \<Longrightarrow> ad_Name a = ad_Name b"
proof -
  obtain e where e: "Lookup r m = Some e" "a = e\<lparr>ad_Online := False\<rparr>" "r' = AList.update m a r"
    using assms(2) by (auto simp: MarkOffline_def Lookup_def Let_def split: option.splits if_splits)
  then show m: "ad_MAC a = m" using reg_wfD [OF assms(1)] by (simp add: Lookup_def)
  show "Lookup r' (ad_MAC a) = Some a" "map_option kept (Lookup r' n) = map_option kept (Lookup r n)"
    using e m by (simp_all add: Lookup_update)
  show "ad_Name a = ad_Name b" if "Lookup r (ad_MAC a) = Some b" using that e m by simp
qed

lemma observe_inv:
  assumes inv: "store_inv e (s, w)" and valid: "ValidChannel (di_ChannelID info)"
  shows "store_inv e (observe e ip info (s, w'))"
proof -
  let ?r = "co_registry s"
  have wf: "reg_wf ?r" "one_online_per_ip ?r" "fst ` set ?r \<subseteq> set (map fst ?r)" using inv by (simp_all add: store_inv_def)
  obtain r' res where rec: "RecordObservation (map fst ?r) ?r ip info (ev_now e w') = (r', res)"
    by (cases "RecordObservation (map fst ?r) ?r ip info (ev_now e w')")
  show ?thesis
  proof (cases res)
    case None
    then have "r' = ?r" using rec by (auto simp: RecordObservation_def Let_def split: if_splits prod.splits option.splits)
    then show ?thesis using inv rec None by (simp add: observe_def store_inv_def)
  next
    case (Some obs)
    note kept = observation_kept [OF wf valid rec [unfolded Some]]
    show ?thesis
    proof (cases "Changed obs")
      case True
      then show ?thesis using persist_inv [of e s w' r' "ob_Adapter obs"] inv kept(1-5) rec Some
        by (simp add: observe_def Let_def store_inv_def)
    next
      case False
      then show ?thesis using quiet_inv [OF inv kept(1,2,6)] rec Some by (simp add: observe_def Let_def)
    qed
  qed
qed

lemma markOffline_inv:
  assumes "store_inv e (s, w)"
  shows "store_inv e (markOffline e m (s, w))"
proof -
  let ?r = "co_registry s"
  have wf: "reg_wf ?r" "one_online_per_ip ?r" using assms by (simp_all add: store_inv_def)
  obtain r' res where off: "MarkOffline ?r m = (r', res)" by (cases "MarkOffline ?r m")
  have r': "reg_wf r'" "one_online_per_ip r'"
    using MarkOffline_wf [OF wf(1), of m] MarkOffline_one_online [OF wf, of m] off by simp_all
  show ?thesis
  proof (cases res)
    case None
    then have "r' = ?r" using off by (auto simp: MarkOffline_def Let_def split: option.splits if_splits)
    then show ?thesis using None off assms by (simp add: markOffline_def store_inv_def)
  next
    case (Some a)
    then show ?thesis using persist_inv [OF assms r', of a] offline_kept [OF wf(1), of m r' a] off
      by (simp add: markOffline_def)
  qed
qed

lemma synced_SetName:
  assumes "synced r t" "Lookup r m = Some a"
  shows "synced (AList.update m (a\<lparr>ad_Name := n\<rparr>) r) (snd (store_SetName None m n t))"
proof -
  have "map_option kept (sqlite_stored t m) = Some (kept a)" using assms by (metis option.simps(9) synced_def)
  then obtain b where b: "sqlite_stored t m = Some b" "kept b = kept a" by (cases "sqlite_stored t m") simp_all
  then show ?thesis using assms(1) sqlite.set_name_known [OF b(1), of n] by (simp add: synced_def Lookup_update)
qed

lemma Rename_inv:
  assumes "store_inv e (s, w)"
  shows "store_inv e (snd (Rename e m raw (s, w)))"
proof (cases "Lookup (co_registry s) (Normalize m)")
  case (Some a)
  let ?r = "co_registry s" and ?m = "Normalize m"
  have wf: "reg_wf ?r" "one_online_per_ip ?r" "table_wf (co_db s)" using assms by (simp_all add: store_inv_def)
  have mac: "ad_MAC a = ?m" using reg_wfD [OF wf(1)] Some by (simp add: Lookup_def)
  show ?thesis
  proof (cases "ValidateName raw")
    case (Inl err)
    then show ?thesis using assms Some by (simp add: Rename_def store_inv_def)
  next
    case (Inr n)
    have set: "SetName ?r ?m n = (AList.update ?m (a\<lparr>ad_Name := n\<rparr>) ?r, Some (a\<lparr>ad_Name := n\<rparr>))"
      using Some by (simp add: SetName_def Lookup_def Let_def)
    have "synced (AList.update ?m (a\<lparr>ad_Name := n\<rparr>) ?r) (snd (store_SetName None ?m n (co_db s)))" if "\<forall>w. ev_db e w = None"
      using synced_SetName [OF _ Some] assms that by (simp add: store_inv_def)
    moreover have "table_wf (snd (store_SetName (ev_db e w) ?m n (co_db s)))"
      using wf(3) table_wf_SetName [of "co_db s" ?m n] by (cases "ev_db e w") (simp_all add: store_SetName_def [of "Some _"])
    ultimately show ?thesis
      using SetName_wf [OF wf(1), of ?m n] SetName_one_online [OF wf(1,2), of ?m n] Some Inr set mac
      by (auto simp: Rename_def store_inv_def Let_def)
  qed
qed (use assms in \<open>simp add: Rename_def store_inv_def\<close>)

sublocale valid_client \<subseteq> persistence: full_invariant e "store_inv e"
proof (unfold_locales, goal_cases)
  case (2 s w ip info w')
  then show ?case by (rule observe_inv [OF _ answers_valid])
next
  case (3 st m)
  then show ?case using markOffline_inv by (cases st) simp
next
  case (9 st m raw)
  then show ?case using Rename_inv by (cases st) simp
qed (simp_all add: store_inv_def)

section \<open>Starting again\<close>

lemma Hydrate_lookup:
  assumes "distinct (map ad_MAC adapters)"
  shows "Lookup (Hydrate adapters r) m =
    (case find (\<lambda>a. ad_MAC a = m) adapters of Some a \<Rightarrow> Some (a\<lparr>ad_Online := False\<rparr>) | None \<Rightarrow> Lookup r m)"
  using assms
proof (induction adapters arbitrary: r)
  case Nil
  then show ?case by (simp add: Hydrate_def)
next
  case (Cons a adapters)
  have "find (\<lambda>b. ad_MAC b = ad_MAC a) adapters = None" using Cons.prems by (auto simp: find_None_iff image_iff)
  then show ?case using Cons by (auto simp: Hydrate_def Lookup_update split: option.splits)
qed

lemma loaded_synced:
  assumes "table_wf t" "LoadAll io t = Inr adapters"
  shows "synced (Hydrate adapters New) t"
  unfolding synced_def
proof
  fix m
  have d: "distinct (map fst t)" using assms(1) by (simp add: table_wf_def)
  have as: "adapters = map (\<lambda>(mac, c). scanned_adapter mac c) (sort_key fst t)"
    using assms(2) by (auto simp: LoadAll_def split: option.splits)
  then have dm: "distinct (map ad_MAC adapters)" using d by (simp add: map_MAC_loaded del: map_map) (metis distinct_map distinct_sort set_sort)
  show "map_option kept (Lookup (Hydrate adapters New) m) = map_option kept (sqlite_stored t m)"
  proof (cases "find (\<lambda>a. ad_MAC a = m) adapters")
    case None
    have "sqlite_stored t m = None"
    proof (rule ccontr)
      assume "sqlite_stored t m \<noteq> None"
      then obtain a where "sqlite_stored t m = Some a" by blast
      moreover from this have "ad_MAC a = m" by (auto simp: sqlite_stored_def)
      ultimately show False using None loaded_iff [OF d, of a] as by (auto simp: find_None_iff)
    qed
    then show ?thesis unfolding Hydrate_lookup [OF dm] None by (simp add: New_def Lookup_def)
  next
    case (Some a)
    then have "a \<in> set adapters" "ad_MAC a = m" by (auto simp: find_Some_iff)
    then have "sqlite_stored t m = Some a" using loaded_iff [OF d, of a] as by simp
    then show ?thesis unfolding Hydrate_lookup [OF dm] Some by simp
  qed
qed

context valid_client
begin

lemma system_run_store:
  assumes "table_wf db" "ev_db e w = None"
  shows "store_inv e (system_run e og db inputs w)"
proof -
  obtain adapters where load: "LoadAll (ev_db e w) db = Inr adapters" using assms(2) by (simp add: LoadAll_def)
  have "store_inv e (loaded og db adapters, snd (ev_await e w))"
    using hydrated_wf [OF assms(1) load] loaded_synced [OF assms(1) load] assms(1) by (simp add: store_inv_def)
  then have "store_inv e (snd (Start e (ev_stopping e) (New_controller og db, w)))"
    unfolding Start_eq load
    using persistence.RunDiscovery_preserves [OF persistence.ProbeKnownAddresses_preserves] persistence.onMQTTConnected_preserves
    by simp
  then show ?thesis unfolding system_run_def by (rule persistence.run_preserves)
qed

end

section \<open>Properties\<close>

text \<open>C2: while the database driver does not fail, the database follows the inventory through every
  start-up, scan, poll, write and rename: a controller that starts on it later begins with the
  same adapters, the same user names, addresses, roles, channels and device texts, and the
  first-seen times to the millisecond; only the last-seen times may be older.\<close>

theorem inventory_survives_restart:
  assumes "table_wf db" "\<forall>w. ev_db e w = None"
    and "system_run (http_env rt e) og db inputs w = (s, w')"
    and "LoadAll None (co_db s) = Inr adapters"
  shows "table_wf (co_db s) \<and>
    (\<forall>m. map_option kept (Lookup (Hydrate adapters New) m) = map_option kept (Lookup (co_registry s) m))"
proof -
  have "store_inv (http_env rt e) (s, w')"
    using http.system_run_store [where rt = rt and e = e and db = db and w = w] assms(1-3) by (metis http_env_frame(1))
  then have "table_wf (co_db s)" "synced (co_registry s) (co_db s)" using assms(2) by (simp_all add: store_inv_def)
  then show ?thesis using loaded_synced [OF _ assms(4)] by (simp add: synced_def)
qed

theorem inventory_survives_restart_witness:
  "let s = fst (system_run (http_env silent house) house_origin house_db
             [MessageArrived ''dt241m/device/fc19286cd6d8/name/set'' ''Lobby''] ())
   in \<exists>adapters. LoadAll None (co_db s) = Inr adapters \<and>
        map_option ad_Name (Lookup (Hydrate adapters New) ''fc:19:28:6c:d6:d8'') = Some (Some ''Lobby'')"
proof -
  let ?run = "system_run (http_env silent house) house_origin house_db
             [MessageArrived ''dt241m/device/fc19286cd6d8/name/set'' ''Lobby''] ()"
  obtain adapters where load: "LoadAll None (co_db (fst ?run)) = Inr adapters" by (simp add: LoadAll_def)
  have "\<forall>w. ev_db house w = None" by (simp add: house_def)
  from inventory_survives_restart [OF house_db_wf this surjective_pairing load]
  have "map_option kept (Lookup (Hydrate adapters New) ''fc:19:28:6c:d6:d8'') =
      Some (kept (house_adapter\<lparr>ad_Name := Some ''Lobby''\<rparr>))"
    by (simp add: house_renamed Lookup_def del: kept_simps)
  then have "map_option ad_Name (Lookup (Hydrate adapters New) ''fc:19:28:6c:d6:d8'') = Some (Some ''Lobby'')"
    by (cases "Lookup (Hydrate adapters New) ''fc:19:28:6c:d6:d8''") (auto dest: kept_eqD simp del: kept_simps)
  then show ?thesis using load unfolding Let_def by blast
qed

end
