(* ===== verification/Controller_Safety.thy ===== *)
theory Controller_Safety
  imports Controller_Store
begin

text \<open>
  What the controller sends to devices.  A trace records every exchange with a device; the
  interface \<open>logged\<close> says how the operations of a client extend it, and \<open>traced\<close> adds a trace
  to any environment.  On it: reading operations never write, a channel change writes at most
  once, and only to an address that has just identified itself as the adapter in question, or
  that has answered with a MAC that cannot be normalised.  The latter is a finding, shown by an
  example at the end.
\<close>

section \<open>Traces\<close>

datatype dev_event = ReadAnswered string device_info | ReadUnanswered string | WriteSent string int

fun last_answer :: "string \<Rightarrow> dev_event list \<Rightarrow> device_info option" where
  "last_answer ip [] = None"
| "last_answer ip (ev # t) =
     (case last_answer ip t of
        Some info \<Rightarrow> Some info
      | None \<Rightarrow> (case ev of ReadAnswered ip' info \<Rightarrow> if ip' = ip then Some info else None | _ \<Rightarrow> None))"

fun writes :: "dev_event list \<Rightarrow> (string \<times> int) list" where
  "writes [] = []"
| "writes (WriteSent ip c # t) = (ip, c) # writes t"
| "writes (ev # t) = writes t"

lemma last_answer_append:
  "last_answer ip (t @ u) = (case last_answer ip u of Some info \<Rightarrow> Some info | None \<Rightarrow> last_answer ip t)"
  by (induction t) (auto split: option.splits)

lemma last_answer_snoc [simp]:
  "last_answer ip (t @ [ReadAnswered ip' info]) = (if ip' = ip then Some info else last_answer ip t)"
  "last_answer ip (t @ [ReadUnanswered ip']) = last_answer ip t"
  "last_answer ip (t @ [WriteSent ip' c]) = last_answer ip t"
  by (simp_all add: last_answer_append split: option.splits)

lemma writes_append [simp]: "writes (t @ u) = writes t @ writes u"
  by (induction t rule: writes.induct) simp_all

text \<open>An environment whose world also carries the trace.\<close>

definition traced :: "'w env \<Rightarrow> ('w \<times> dev_event list) env" where
  "traced e =
     \<lparr>ev_client =
        \<lparr>cl_GetDeviceInfo = (\<lambda>ip (w, t). case cl_GetDeviceInfo (ev_client e) ip w of
             (Inl err, w') \<Rightarrow> (Inl err, w', t @ [ReadUnanswered ip])
           | (Inr info, w') \<Rightarrow> (Inr info, w', t @ [ReadAnswered ip info])),
         cl_SetChannel = (\<lambda>ip c (w, t). case cl_SetChannel (ev_client e) ip c w of (r, w') \<Rightarrow> (r, w', t @ [WriteSent ip c]))\<rparr>,
      ev_opts = ev_opts e, ev_readback = ev_readback e, ev_now = (\<lambda>(w, t). ev_now e w),
      ev_stopping = (\<lambda>(w, t). ev_stopping e w),
      ev_gap_cancelled = (\<lambda>(w, t). case ev_gap_cancelled e w of (b, w') \<Rightarrow> (b, w', t)),
      ev_sched = (\<lambda>(w, t). ev_sched e w), ev_db = (\<lambda>(w, t). ev_db e w),
      ev_await = (\<lambda>(w, t). case ev_await e w of (b, w') \<Rightarrow> (b, w', t)), ev_f2i = ev_f2i e\<rparr>"

locale logged =
  fixes e :: "'w env" and log :: "'w \<Rightarrow> dev_event list"
  assumes log_answered: "cl_GetDeviceInfo (ev_client e) ip w = (Inr info, w') \<Longrightarrow> log w' = log w @ [ReadAnswered ip info]"
    and log_failed: "cl_GetDeviceInfo (ev_client e) ip w = (Inl err, w') \<Longrightarrow> log w' = log w @ [ReadUnanswered ip]"
    and log_written: "cl_SetChannel (ev_client e) ip c w = (r, w') \<Longrightarrow> log w' = log w @ [WriteSent ip c]"
    and log_waited: "ev_gap_cancelled e w = (b, w') \<Longrightarrow> log w' = log w"

interpretation traced: logged "traced e" snd for e
  by unfold_locales (auto simp: traced_def split: prod.splits sum.splits)

section \<open>Reading operations\<close>

text \<open>The world has only been read from since the trace was \<open>t0\<close>.\<close>

definition only_read :: "('w \<Rightarrow> dev_event list) \<Rightarrow> dev_event list \<Rightarrow> controller \<times> 'w \<Rightarrow> bool" where
  "only_read log t0 st \<longleftrightarrow> (\<exists>u. log (snd st) = t0 @ u \<and> writes u = [])"

lemma snd_persist [simp]: "snd (persist e a st) = snd st"
  by (cases st) (simp add: persist_def)

lemma snd_observe [simp]: "snd (observe e ip info st) = snd st"
  by (cases st) (simp add: observe_def Let_def split: prod.splits option.splits)

lemma snd_markOffline [simp]: "snd (markOffline e m st) = snd st"
  by (cases st) (simp add: markOffline_def split: prod.splits option.splits)

lemma snd_Rename [simp]: "snd (snd (Rename e m raw st)) = snd st"
  by (cases st) (simp add: Rename_def Let_def split: prod.splits option.splits sum.splits)

sublocale logged \<subseteq> reading: step_invariant e "only_read log t0" for t0
proof (unfold_locales, goal_cases)
  case (1 s w ip err w')
  then show ?case using log_failed [of ip w err w'] by (fastforce simp: only_read_def)
next
  case (2 s w ip info w')
  then show ?case using log_answered [of ip w info w'] by (fastforce simp: only_read_def)
qed (simp_all add: only_read_def)

section \<open>Who is online, and who said so\<close>

text \<open>
  \<open>confirmed log t0 on0\<close>: since the trace was \<open>t0\<close>, every adapter that is online either was
  online there before (\<open>on0\<close>) and nobody answered at its address since, or the last answer at
  its address was its own, or one with a MAC that cannot be normalised.
\<close>

definition speaks_for :: "device_info \<Rightarrow> string \<Rightarrow> bool" where
  "speaks_for info m \<longleftrightarrow> Normalize (di_LanMAC info) = m \<or> Normalize (di_LanMAC info) = []"

definition confirmed :: "('w \<Rightarrow> dev_event list) \<Rightarrow> dev_event list \<Rightarrow> (string \<times> string) set \<Rightarrow> controller \<times> 'w \<Rightarrow> bool" where
  "confirmed log t0 on0 st \<longleftrightarrow>
     reg_wf (co_registry (fst st)) \<and> one_online_per_ip (co_registry (fst st)) \<and>
     (\<exists>u. log (snd st) = t0 @ u \<and> writes u = [] \<and>
       (\<forall>m a. Lookup (co_registry (fst st)) m = Some a \<and> ad_Online a \<longrightarrow>
          (case last_answer (ad_IP a) u of
             Some info \<Rightarrow> speaks_for info m
           | None \<Rightarrow> (m, ad_IP a) \<in> on0)))"

definition online_at :: "registry \<Rightarrow> (string \<times> string) set" where
  "online_at r = {(m, ip). \<exists>a. Lookup r m = Some a \<and> ad_Online a \<and> ad_IP a = ip}"

lemma confirmed_start:
  "reg_wf (co_registry s) \<Longrightarrow> one_online_per_ip (co_registry s) \<Longrightarrow> confirmed log (log w) (online_at (co_registry s)) (s, w)"
  by (auto simp: confirmed_def online_at_def)

lemma co_registry_observe:
  "co_registry (fst (observe e ip info (s, w))) = fst (RecordObservation (map fst (co_registry s)) (co_registry s) ip info (ev_now e w))"
  by (auto simp: observe_def persist_def Let_def split: prod.splits option.splits)

lemma co_registry_markOffline: "co_registry (fst (markOffline e m (s, w))) = fst (MarkOffline (co_registry s) m)"
  by (auto simp: markOffline_def persist_def split: prod.splits option.splits)

lemma MarkOffline_lookup:
  "Lookup (fst (MarkOffline r m)) n = (if n = m then map_option (ad_Online_update (\<lambda>_. False)) (Lookup r n) else Lookup r n)"
  by (cases "map_of r m") (auto simp: MarkOffline_def Lookup_def update_conv' Let_def)

text \<open>The interface to the devices: nobody answers at the empty address.\<close>

locale addressed_devices = logged e log + valid_client e for e :: "'w env" and log :: "'w \<Rightarrow> dev_event list" +
  assumes address_used: "cl_GetDeviceInfo (ev_client e) ip w = (Inr info, w') \<Longrightarrow> ip \<noteq> []"

lemma observed_online:
  assumes "reg_wf r" "one_online_per_ip r" "Normalize (di_LanMAC info) = m" "m \<noteq> []"
    and "Lookup (fst (RecordObservation (map fst r) r ip info now)) n = Some a" "ad_Online a"
  shows "n = m \<and> ad_IP a = ip \<or> n \<noteq> m \<and> ad_IP a \<noteq> ip \<and> Lookup r n = Some a"
proof -
  have keys: "fst ` set r \<subseteq> set (map fst r)" by simp
  obtain r' obs where "RecordObservation (map fst r) r ip info now = (r', Some obs)"
    "Lookup r' m = Some (observed r m ip info now)"
    "\<And>k. k \<noteq> m \<Longrightarrow> Lookup r' k = map_option (\<lambda>b. if occupies r m ip k then b\<lparr>ad_Online := False\<rparr> else b) (Lookup r k)"
    by (rule RecordObservation_effect [OF assms(1,2) keys assms(3,4), where ip = ip and now = now]) (rule that)
  with assms(5,6) show ?thesis
    by (cases "n = m"; cases "Lookup r n")
      (auto simp: occupies_iff [OF assms(1)] observed_def split: option.splits if_splits)
qed

sublocale addressed_devices \<subseteq> known: step_invariant e "confirmed log t0 on0" for t0 on0
proof (unfold_locales, goal_cases)
  case (1 s w ip err w')
  from 1(1) obtain u where "reg_wf (co_registry s)" "one_online_per_ip (co_registry s)" "log w = t0 @ u" "writes u = []"
    "\<And>m a. Lookup (co_registry s) m = Some a \<Longrightarrow> ad_Online a \<Longrightarrow>
      (case last_answer (ad_IP a) u of Some info \<Rightarrow> speaks_for info m | None \<Rightarrow> (m, ad_IP a) \<in> on0)"
    by (auto simp: confirmed_def)
  then show ?case using log_failed [OF 1(2)] by (auto simp: confirmed_def intro!: exI [of _ "u @ [ReadUnanswered ip]"])
next
  case (2 s w ip info w')
  let ?r = "co_registry s" and ?m = "Normalize (di_LanMAC info)"
  let ?r' = "fst (RecordObservation (map fst ?r) ?r ip info (ev_now e w'))"
  from 2(1) obtain u where wf: "reg_wf ?r" "one_online_per_ip ?r" and u: "log w = t0 @ u" "writes u = []"
    and conf: "\<And>m a. Lookup ?r m = Some a \<Longrightarrow> ad_Online a \<Longrightarrow>
      (case last_answer (ad_IP a) u of Some info \<Rightarrow> speaks_for info m | None \<Rightarrow> (m, ad_IP a) \<in> on0)"
    by (auto simp: confirmed_def)
  have valid: "ValidChannel (di_ChannelID info)" using answers_valid 2(2) by blast
  have wf': "reg_wf ?r'" "one_online_per_ip ?r'"
    using RecordObservation_wf [OF wf(1) valid] RecordObservation_one_online [OF wf _ valid] by simp_all
  have "(case last_answer (ad_IP a) (u @ [ReadAnswered ip info]) of
      Some i \<Rightarrow> speaks_for i n | None \<Rightarrow> (n, ad_IP a) \<in> on0)"
    if a: "Lookup ?r' n = Some a" "ad_Online a" for n a
  proof (cases "?m = []")
    case True
    then show ?thesis using conf [of n a] a by (auto simp: RecordObservation_invalid speaks_for_def)
  next
    case False
    then show ?thesis using observed_online [OF wf refl False a] conf [of n a] a(2) by (auto simp: speaks_for_def)
  qed
  then show ?case using wf' log_answered [OF 2(2)] u
    by (auto simp: confirmed_def co_registry_observe intro!: exI [of _ "u @ [ReadAnswered ip info]"])
next
  case (3 st m)
  then show ?case
    using MarkOffline_wf [of "co_registry (fst st)" m] MarkOffline_one_online [of "co_registry (fst st)" m]
    by (cases st) (fastforce simp: confirmed_def co_registry_markOffline MarkOffline_lookup split: if_splits)
qed (simp_all add: confirmed_def)

section \<open>The address of a write\<close>

text \<open>
  \<open>identified log w w' ip m\<close>: between the worlds \<open>w\<close> and \<open>w'\<close> nothing was written, somebody
  answered at \<open>ip\<close>, and the last answer there speaks for the adapter \<open>m\<close>.
\<close>

definition identified :: "('w \<Rightarrow> dev_event list) \<Rightarrow> 'w \<Rightarrow> 'w \<Rightarrow> string \<Rightarrow> string \<Rightarrow> bool" where
  "identified log w w' ip m \<longleftrightarrow> (\<exists>u info. log w' = log w @ u \<and> writes u = [] \<and>
     last_answer ip u = Some info \<and> speaks_for info m)"

definition locatable :: "registry \<Rightarrow> bool" where
  "locatable r \<longleftrightarrow> reg_wf r \<and> one_online_per_ip r \<and> (\<forall>m a. Lookup r m = Some a \<and> ad_Online a \<longrightarrow> ad_IP a \<noteq> [])"

definition locate :: "'w env \<Rightarrow> ('w \<Rightarrow> bool) \<Rightarrow> string \<Rightarrow> controller \<times> 'w \<Rightarrow> string option \<times> controller \<times> 'w" where
  "locate e ctx macAddr st =
     (let st = RunDiscovery e ctx st in
      (case Lookup (co_registry (fst st)) macAddr of
         Some located \<Rightarrow> if ad_Online located then (Some (ad_IP located), st) else (None, st)
       | None \<Rightarrow> (None, st)))"

lemma verifiedIP_eq:
  "verifiedIP e ctx m st =
     (case Lookup (co_registry (fst st)) m of
        None \<Rightarrow> (None, st)
      | Some adapter \<Rightarrow>
          if ad_IP adapter \<noteq> [] then
            (case observeAt e (ad_IP adapter) m st of
               (observeVerified, st) \<Rightarrow> (Some (ad_IP adapter), st)
             | (observeUnreachable, st) \<Rightarrow> locate e ctx m (markOffline e m st)
             | (observeOtherDevice, st) \<Rightarrow> locate e ctx m st)
          else locate e ctx m st)"
  unfolding verifiedIP_def locate_def Let_def by (rule refl)

context addressed_devices
begin

lemma locate_confirmed:
  assumes conf: "confirmed log t0 on0 st" and found: "locate e ctx m st = (Some ip, s', w')"
  obtains u v where "log w' = t0 @ u" "writes u = []" "log w' = log (snd st) @ v"
    "case last_answer ip u of Some info \<Rightarrow> speaks_for info m | None \<Rightarrow> (m, ip) \<in> on0"
proof -
  let ?st = "RunDiscovery e ctx st"
  from found obtain a where a: "Lookup (co_registry (fst ?st)) m = Some a" "ad_Online a" "ip = ad_IP a" "w' = snd ?st"
    by (auto simp: locate_def Let_def split: option.splits if_splits)
  from known.RunDiscovery_preserves [OF conf] obtain u where u: "log w' = t0 @ u" "writes u = []"
    and "\<forall>n b. Lookup (co_registry (fst ?st)) n = Some b \<and> ad_Online b \<longrightarrow>
      (case last_answer (ad_IP b) u of Some info \<Rightarrow> speaks_for info n | None \<Rightarrow> (n, ad_IP b) \<in> on0)"
    unfolding confirmed_def a(4) by blast
  then have "case last_answer ip u of Some info \<Rightarrow> speaks_for info m | None \<Rightarrow> (m, ip) \<in> on0"
    using a by blast
  moreover obtain v where "log w' = log (snd st) @ v"
    using reading.RunDiscovery_preserves [of "log (snd st)" st ctx] a(4) by (auto simp: only_read_def)
  ultimately show thesis using that u by blast
qed

lemma verifiedIP_direct:
  assumes "Lookup (co_registry s) m = Some a" "ad_IP a \<noteq> []"
    and "cl_GetDeviceInfo (ev_client e) (ad_IP a) w = (Inr info, w1)" "Normalize (di_LanMAC info) = m"
    and "verifiedIP e ctx m (s, w) = (Some ip, s', w')"
  shows "identified log w w' ip m"
proof -
  have "ad_IP a = ip \<and> observe e (ad_IP a) info (s, w1) = (s', w')"
    using assms by (auto simp: verifiedIP_eq observeAt_def)
  then have "ip = ad_IP a" "w' = w1" using snd_observe [of e "ad_IP a" info "(s, w1)"] by (auto simp del: snd_observe)
  then show ?thesis using log_answered [OF assms(3)] assms(4) by (auto simp: identified_def speaks_for_def)
qed

lemma verifiedIP_other:
  assumes "reg_wf (co_registry s)" "one_online_per_ip (co_registry s)" "Lookup (co_registry s) m = Some a" "ad_IP a \<noteq> []"
    and "cl_GetDeviceInfo (ev_client e) (ad_IP a) w = (Inr info, w1)" "Normalize (di_LanMAC info) \<noteq> m"
    and "verifiedIP e ctx m (s, w) = (Some ip, s', w')"
  shows "identified log w w' ip m"
proof -
  let ?on0 = "online_at (co_registry s)" and ?st = "observe e (ad_IP a) info (s, w1)"
  have conf: "confirmed log (log w) ?on0 ?st"
    by (rule known.read_observed [OF confirmed_start [OF assms(1,2)] assms(5)])
  moreover have "locate e ctx m ?st = (Some ip, s', w')" using assms by (simp add: verifiedIP_eq observeAt_def)
  ultimately obtain u v where u: "log w' = log w @ u" "writes u = []" "log w' = log w1 @ v"
    and ans: "case last_answer ip u of Some i \<Rightarrow> speaks_for i m | None \<Rightarrow> (m, ip) \<in> ?on0"
    using locate_confirmed by (metis snd_observe snd_conv)
  then have "u = ReadAnswered (ad_IP a) info # v" using log_answered [OF assms(5)] by simp
  then have "last_answer (ad_IP a) u \<noteq> None" by (simp split: option.splits)
  moreover have "ip = ad_IP a" if "(m, ip) \<in> ?on0" using that assms(3) by (auto simp: online_at_def)
  ultimately show ?thesis using ans u unfolding identified_def by (cases "last_answer ip u") auto
qed

lemma verifiedIP_silent:
  assumes "reg_wf (co_registry s)" "one_online_per_ip (co_registry s)" "Lookup (co_registry s) m = Some a" "ad_IP a \<noteq> []"
    and "cl_GetDeviceInfo (ev_client e) (ad_IP a) w = (Inl err, w1)"
    and "verifiedIP e ctx m (s, w) = (Some ip, s', w')"
  shows "identified log w w' ip m"
proof -
  obtain s1 where s1: "markOffline e m (s, w1) = (s1, w1)"
    using snd_markOffline [of e m "(s, w1)"] by (cases "markOffline e m (s, w1)") simp
  have r1: "co_registry s1 = fst (MarkOffline (co_registry s) m)" using co_registry_markOffline [of e m s w1] s1 by simp
  have "confirmed log (log w1) (online_at (co_registry s1)) (s1, w1)"
    by (rule confirmed_start) (simp_all add: r1 MarkOffline_wf MarkOffline_one_online assms(1,2))
  moreover have "locate e ctx m (s1, w1) = (Some ip, s', w')" using assms s1 by (simp add: verifiedIP_eq observeAt_def)
  ultimately obtain u where u: "log w' = log w1 @ u" "writes u = []"
    and ans: "case last_answer ip u of Some i \<Rightarrow> speaks_for i m | None \<Rightarrow> (m, ip) \<in> online_at (co_registry s1)"
    using locate_confirmed by blast
  have "(m, ip) \<notin> online_at (co_registry s1)" unfolding r1 by (auto simp: online_at_def MarkOffline_lookup)
  then obtain i where "last_answer ip u = Some i" "speaks_for i m" using ans by (cases "last_answer ip u") auto
  then show ?thesis using u log_failed [OF assms(5)] unfolding identified_def
    by (intro exI [of _ "ReadUnanswered (ad_IP a) # u"] exI [of _ i]) simp
qed

lemma verifiedIP_identified:
  assumes loc: "locatable (co_registry s)" and ver: "verifiedIP e ctx m (s, w) = (Some ip, s', w')"
  shows "identified log w w' ip m"
proof -
  have wf: "reg_wf (co_registry s)" "one_online_per_ip (co_registry s)" using loc by (simp_all add: locatable_def)
  obtain a where a: "Lookup (co_registry s) m = Some a" using ver by (auto simp: verifiedIP_eq split: option.splits)
  show ?thesis
  proof (cases "ad_IP a = []")
    case True
    then have off: "(m, ip) \<notin> online_at (co_registry s)" using loc a by (auto simp: locatable_def online_at_def)
    have "locate e ctx m (s, w) = (Some ip, s', w')" using ver a True by (simp add: verifiedIP_eq)
    from locate_confirmed [OF confirmed_start [OF wf] this] off show ?thesis
      unfolding identified_def by (metis (no_types, lifting) option.case_eq_if option.collapse)
  next
    case False
    then show ?thesis
      using verifiedIP_direct [OF a False _ _ ver] verifiedIP_other [OF wf a False _ _ ver] verifiedIP_silent [OF wf a False _ ver]
      by (cases "cl_GetDeviceInfo (ev_client e) (ad_IP a) w"; cases "fst (cl_GetDeviceInfo (ev_client e) (ad_IP a) w)") auto
  qed
qed

end

section \<open>The readback\<close>

definition reads_at :: "string \<Rightarrow> dev_event list \<Rightarrow> bool" where
  "reads_at ip u \<longleftrightarrow> (\<forall>ev \<in> set u. case ev of ReadAnswered ip' info \<Rightarrow> ip' = ip | ReadUnanswered ip' \<Rightarrow> ip' = ip | WriteSent ip' c \<Rightarrow> False)"

text \<open>What the controller reports after the reads \<open>u\<close>: the channel in the last answer, if it was the adapter's.\<close>

definition reported_by :: "string \<Rightarrow> string \<Rightarrow> dev_event list \<Rightarrow> int option \<Rightarrow> int option" where
  "reported_by m ip u before =
     (case last_answer ip u of
        None \<Rightarrow> before
      | Some info \<Rightarrow> if Normalize (di_LanMAC info) = m then Some (di_ChannelID info) else None)"

lemma reads_at_simps [simp]:
  "reads_at ip []" "reads_at ip (ReadAnswered ip info # u) = reads_at ip u" "reads_at ip (ReadUnanswered ip # u) = reads_at ip u"
  by (simp_all add: reads_at_def)

lemma reported_by_Cons [simp]:
  "reported_by m ip (ReadUnanswered ip' # u) before = reported_by m ip u before"
  "reported_by m ip (ReadAnswered ip info # u) before =
     reported_by m ip u (if Normalize (di_LanMAC info) = m then Some (di_ChannelID info) else None)"
  "reported_by m ip [] before = before"
  by (simp_all add: reported_by_def split: option.splits)

lemma reads_at_writes: "reads_at ip u \<Longrightarrow> writes u = []"
  by (induction u rule: writes.induct) (auto simp: reads_at_def)

context logged
begin

lemma readBack_loop_trace:
  assumes "readBack_loop e m ip c retry n rep (s, w) = (rep', s', w')"
  shows "\<exists>u. log w' = log w @ u \<and> reads_at ip u \<and> length u \<le> n \<and> rep' = reported_by m ip u rep"
  using assms
proof (induction n arbitrary: retry rep s w)
  case (Suc n)
  obtain b w0 where g: "(if retry \<and> rb_Gap (ev_readback e) > 0 then ev_gap_cancelled e w else (False, w)) = (b, w0)"
    by (metis surj_pair)
  then have l0: "log w0 = log w" using log_waited by (auto split: if_splits)
  obtain res w1 where get: "cl_GetDeviceInfo (ev_client e) ip w0 = (res, w1)" by (cases "cl_GetDeviceInfo (ev_client e) ip w0")
  show ?case
  proof (cases b)
    case True
    then show ?thesis using Suc.prems g l0 by (intro exI [of _ "[]"]) auto
  next
    case False
    show ?thesis
    proof (cases res)
      case (Inl err)
      have "readBack_loop e m ip c True n rep (s, w1) = (rep', s', w')" using Suc.prems g False get Inl by simp
      from Suc.IH [OF this] obtain u where "log w' = log w1 @ u" "reads_at ip u" "length u \<le> n" "rep' = reported_by m ip u rep"
        by blast
      then show ?thesis using log_failed [OF get [unfolded Inl]] l0 by (intro exI [of _ "ReadUnanswered ip # u"]) simp
    next
      case (Inr info)
      note ans = log_answered [OF get [unfolded Inr]]
      obtain s1 where s1: "observe e ip info (s, w1) = (s1, w1)"
        using snd_observe [of e ip info "(s, w1)"] by (cases "observe e ip info (s, w1)") simp
      show ?thesis
      proof (cases "Normalize (di_LanMAC info) = m \<and> di_ChannelID info \<noteq> c")
        case True
        then have "readBack_loop e m ip c True n (Some (di_ChannelID info)) (s1, w1) = (rep', s', w')"
          using Suc.prems g False get Inr s1 by simp
        from Suc.IH [OF this] obtain u where "log w' = log w1 @ u" "reads_at ip u" "length u \<le> n"
            "rep' = reported_by m ip u (Some (di_ChannelID info))"
          by blast
        then show ?thesis using ans l0 True by (intro exI [of _ "ReadAnswered ip info # u"]) simp
      next
        case stop: False
        then have "w' = w1" "rep' = (if Normalize (di_LanMAC info) = m then Some (di_ChannelID info) else None)"
          using Suc.prems g False get Inr s1 by (auto split: if_splits)
        then show ?thesis using ans l0 by (intro exI [of _ "[ReadAnswered ip info]"]) simp
      qed
    qed
  qed
qed auto

end

section \<open>Channel changes\<close>

text \<open>
  The contract of a channel change: what is sent, to whom, and what the outcome says about it.
\<close>

definition change_contract ::
  "Readback \<Rightarrow> string \<Rightarrow> int \<Rightarrow> dev_event list \<Rightarrow> Outcome \<Rightarrow> bool" where
  "change_contract rb m c u oc \<longleftrightarrow>
     oc_MAC oc = m \<and> oc_Requested oc = c \<and>
     (case oc_Write oc of
        None \<Rightarrow> writes u = [] \<and> oc_Status oc = StatusFailed \<and> oc_Reason oc \<noteq> None
      | Some wr \<Rightarrow>
          (\<exists>before info after. u = before @ WriteSent (oc_IP oc) c # after \<and> writes before = [] \<and>
             last_answer (oc_IP oc) before = Some info \<and> speaks_for info m \<and>
             reads_at (oc_IP oc) after \<and> length after \<le> nat (rb_Attempts rb) \<and>
             oc_Reported oc = reported_by m (oc_IP oc) after None) \<and>
          (oc_Status oc = StatusFailed \<longleftrightarrow> wr = WriteRejected) \<and>
          (oc_Status oc = StatusMatched \<longleftrightarrow> wr \<noteq> WriteRejected \<and> oc_Reported oc = Some c))"

context addressed_devices
begin

lemma changeChannel_contract:
  assumes loc: "locatable (co_registry s)" and ch: "changeChannel e ctx m c (s, w) = (oc, s', w')"
  shows "\<exists>u. log w' = log w @ u \<and> change_contract (ev_readback e) m c u oc"
proof -
  obtain found s1 w1 where ver: "verifiedIP e ctx m (s, w) = (found, s1, w1)" by (cases "verifiedIP e ctx m (s, w)")
  have read: "\<exists>u. log w1 = log w @ u \<and> writes u = []"
    using reading.verifiedIP_preserves [of "log w" "(s, w)" ctx m] ver by (simp add: only_read_def)
  show ?thesis
  proof (cases "oc_Write oc")
    case None
    then have "w' = w1" "oc_MAC oc = m" "oc_Requested oc = c" "oc_Status oc = StatusFailed" "oc_Reason oc \<noteq> None"
      using ch ver by (auto simp: changeChannel_def Let_def split: option.splits prod.splits if_splits)
    then show ?thesis using read None by (auto simp: change_contract_def)
  next
    case (Some wr)
    then obtain ip where found: "found = Some ip" using ch ver by (cases found) (auto simp: changeChannel_def)
    obtain wr' s2 w2 where wr: "ctl_write e ip c (s1, w1) = (wr', s2, w2)" by (cases "ctl_write e ip c (s1, w1)")
    obtain rep s3 w3 where rb: "readBack e m ip c (s2, w2) = (rep, s3, w3)" by (cases "readBack e m ip c (s2, w2)")
    have oc: "oc = \<lparr>oc_Status = (if wr = WriteRejected then StatusFailed else if rep = Some c then StatusMatched else StatusMismatch),
        oc_MAC = m, oc_IP = ip, oc_Requested = c, oc_Reported = rep,
        oc_Reason = (if wr = WriteRejected then Some ReasonWriteRejected else None), oc_Write = Some wr\<rparr>" "w' = w3" "wr' = wr"
      using ch ver found wr rb Some by (auto simp: changeChannel_def Let_def split: option.splits prod.splits if_splits)
    have "log w2 = log w1 @ [WriteSent ip c]"
      using wr log_written [of ip c w1] by (auto simp: ctl_write_def split: prod.splits option.splits)
    moreover obtain after where "log w3 = log w2 @ after" "reads_at ip after" "length after \<le> nat (rb_Attempts (ev_readback e))"
      "rep = reported_by m ip after None"
      using readBack_loop_trace [OF rb [unfolded readBack_def]] by blast
    moreover obtain before info where "log w1 = log w @ before" "writes before = []" "last_answer ip before = Some info" "speaks_for info m"
      using verifiedIP_identified [OF loc] ver found unfolding identified_def by blast
    ultimately have "\<exists>u. log w3 = log w @ u \<and> (\<exists>before info after. u = before @ WriteSent ip c # after \<and> writes before = [] \<and>
        last_answer ip before = Some info \<and> speaks_for info m \<and> reads_at ip after \<and>
        length after \<le> nat (rb_Attempts (ev_readback e)) \<and> rep = reported_by m ip after None)"
      by (intro exI [of _ "before @ WriteSent ip c # after"]) auto
    then show ?thesis unfolding oc by (simp add: change_contract_def) (intro impI, simp)
  qed
qed

end

section \<open>The whole system\<close>

sublocale addressed_devices \<subseteq> located: full_invariant e "\<lambda>st. locatable (co_registry (fst st))"
proof (unfold_locales, goal_cases)
  case (2 s w ip info w')
  let ?r = "co_registry s"
  have valid: "ValidChannel (di_ChannelID info)" "ip \<noteq> []" using answers_valid address_used 2(2) by blast+
  have wf: "reg_wf ?r" "one_online_per_ip ?r" using 2(1) by (simp_all add: locatable_def)
  show ?case
  proof (cases "Normalize (di_LanMAC info) = []")
    case True
    then show ?thesis using 2(1) by (simp add: co_registry_observe RecordObservation_invalid)
  next
    case False
    then show ?thesis
      using RecordObservation_wf [OF wf(1) valid(1)] RecordObservation_one_online [OF wf _ valid(1)]
        observed_online [OF wf refl False] 2(1) valid(2)
      by (auto simp: co_registry_observe locatable_def) metis
  qed
next
  case (3 st m)
  then show ?case
    by (cases st) (auto simp: co_registry_markOffline locatable_def MarkOffline_wf MarkOffline_one_online MarkOffline_lookup split: if_splits)
next
  case (9 st m raw)
  have "Lookup (fst (SetName r k n)) j = Some a \<Longrightarrow> \<exists>b. Lookup r j = Some b \<and> ad_Online b = ad_Online a \<and> ad_IP b = ad_IP a" for r k n j a
    by (cases "map_of r k") (auto simp: SetName_def Lookup_def update_conv' Let_def split: if_splits)
  moreover have "co_registry (fst (snd (Rename e m raw st))) = co_registry (fst st) \<or>
      (\<exists>k n. co_registry (fst (snd (Rename e m raw st))) = fst (SetName (co_registry (fst st)) k n))"
    by (cases st) (auto simp: Rename_def Let_def split: option.splits sum.splits prod.splits, metis fst_conv)
  ultimately show ?case using 9 SetName_wf SetName_one_online unfolding locatable_def by metis
qed simp_all

lemma hydrated_locatable:
  assumes "table_wf t" "LoadAll io t = Inr adapters"
  shows "locatable (Hydrate adapters New)"
proof -
  have h: "Lookup (Hydrate as r) m = Some a \<Longrightarrow> ad_Online a \<Longrightarrow> Lookup r m = Some a" for as r m a
  proof (induction as arbitrary: r)
    case (Cons b as)
    from Cons.IH [of "AList.update (ad_MAC b) (b\<lparr>ad_Online := False\<rparr>) r"] Cons.prems show ?case
      by (auto simp: Hydrate_def Lookup_update split: if_splits)
  qed (simp add: Hydrate_def)
  have "Lookup New m = None" for m by (simp add: New_def Lookup_def)
  then have "\<not> ad_Online a" if "Lookup (Hydrate adapters New) m = Some a" for m a using h [OF that] by auto
  then show ?thesis using hydrated_wf [OF assms] by (auto simp: locatable_def)
qed

context addressed_devices
begin

lemma system_run_locatable:
  assumes "table_wf db" "ev_db e w = None"
  shows "locatable (co_registry (fst (system_run e og db inputs w)))"
proof -
  obtain adapters where load: "LoadAll (ev_db e w) db = Inr adapters" using assms(2) by (simp add: LoadAll_def)
  have "locatable (co_registry (fst (snd (Start e (ev_stopping e) (New_controller og db, w)))))"
    unfolding Start_eq load
    using located.RunDiscovery_preserves [OF located.ProbeKnownAddresses_preserves]
      located.onMQTTConnected_preserves hydrated_locatable [OF assms(1) load]
    by simp
  then show ?thesis unfolding system_run_def by (rule located.run_preserves)
qed

end

lemma traced_valid: "valid_client e \<Longrightarrow> valid_client (traced e)"
  by (auto simp: valid_client_def traced_def split: prod.splits sum.splits)

lemma parse_ipv4_Nil [simp]: "parse_ipv4 [] = None"
  by (simp add: parse_ipv4_def split: option.split)

interpretation traced_http: addressed_devices "traced (http_env rt e)" snd for rt e
proof (intro addressed_devices.intro)
  show "logged (traced (http_env rt e)) snd" by unfold_locales
  show "valid_client (traced (http_env rt e))" by (rule traced_valid) unfold_locales
  show "addressed_devices_axioms (traced (http_env rt e))"
    by unfold_locales (auto simp: traced_def http_env_def NewHTTPClient_def GetDeviceInfo_def rpc_def
        split: prod.splits sum.splits if_splits)
qed

section \<open>Writes happen on command only\<close>

text \<open>
  What a message asks for, stated on its bytes and the inventory, apart from the code that handles
  it: the topic is the channel topic of a known adapter that can be tuned and the payload is an
  optionally signed decimal integer, possibly with an all-zero fraction; or the topic is the source topic
  of a known receiver and the payload names a known transmitter, by its name or with its channel
  in brackets, and that transmitter reports the channel.
\<close>

definition number_of :: "string \<Rightarrow> int \<Rightarrow> bool" where
  "number_of payload c \<longleftrightarrow>
     (case channelPayload (trim_space payload) of
        Some (neg, ds) \<Rightarrow> c = (if neg then - int (nat_of_digits ds) else int (nat_of_digits ds))
      | None \<Rightarrow> False)"

definition names_source :: "registry \<Rightarrow> string \<Rightarrow> int \<Rightarrow> bool" where
  "names_source r payload c \<longleftrightarrow>
     (\<exists>tx. Lookup r (ad_MAC tx) = Some tx \<and> ad_Role tx = RoleTransmitter \<and> ad_Channel tx = Some c \<and>
        trim_space payload \<in> {DisplayName tx, DisplayName tx @ channel_suffix c})"

definition commanded :: "registry \<Rightarrow> input \<Rightarrow> string \<Rightarrow> int \<Rightarrow> bool" where
  "commanded r i m c \<longleftrightarrow>
     (\<exists>topic payload a. i = MessageArrived topic payload \<and> Lookup r m = Some a \<and>
        (topic = tp_ChannelSet (ForDevice m) \<and> ad_Role a \<in> {RoleReceiver, RoleTransmitter} \<and> number_of payload c \<or>
         topic = tp_SourceSet (ForDevice m) \<and> ad_Role a = RoleReceiver \<and> names_source r payload c))"

lemma ChangeChannel_Inr:
  "ChangeChannel e m c st = Inr (m', c') \<Longrightarrow> c' = c \<and> ValidChannel c \<and> \<not> ev_stopping e (snd st) \<and>
     (\<exists>a. Lookup (co_registry (fst st)) (Normalize m) = Some a \<and> ad_MAC a = m' \<and> writableRole (ad_Role a))"
  by (auto simp: ChangeChannel_def split: prod.splits if_splits option.splits)

lemma ByLabel_names:
  assumes "reg_wf r" "ByLabel (Sources r) (trim_space payload) = Some src"
  shows "names_source r payload (src_Channel src)"
proof -
  have "src \<in> set (Sources r)" "src_Label src = trim_space payload"
    using assms(2) by (auto simp: ByLabel_def find_Some_iff)
  then obtain tx c where "(tx, c) \<in> set (transmitters r)" "src_Channel src = c"
    "trim_space payload = source_label (transmitters r) (tx, c)"
    by (auto simp: Sources_set source_of_def)
  then show ?thesis
    by (auto simp: names_source_def transmitters_iff [OF assms(1)] source_label_def Let_def intro!: exI [of _ tx])
qed

text \<open>A message that makes the controller change a channel commands that channel of that device.\<close>

lemma accepted_commanded:
  assumes wf: "reg_wf (co_registry (fst st))" and route: "NewRouter (ev_f2i e) topic payload = Some act"
    and job: "act = ChannelCommand m c \<and> ChangeChannel e m c st = Inr (m', c') \<or>
      act = SourceCommand m label \<and> ChangeSource e m label st = Inr (m', c')"
  shows "commanded (co_registry (fst st)) (MessageArrived topic payload) m' c' \<and> ValidChannel c' \<and> \<not> ev_stopping e (snd st)"
proof -
  let ?r = "co_registry (fst st)"
  have own: "ad_MAC a = k" if "Lookup ?r k = Some a" for k a using reg_wfD [OF wf] that by (simp add: Lookup_def)
  show ?thesis
    using route
  proof (cases rule: NewRouter_SomeE)
    case (channel n d)
    with job have "ChangeChannel e n d st = Inr (m', c')" by simp
    from ChangeChannel_Inr [OF this] obtain a where a: "Lookup ?r n = Some a" "ad_MAC a = m'" "writableRole (ad_Role a)"
      and c: "c' = d" "ValidChannel d" "\<not> ev_stopping e (snd st)"
      using Normalize_canonical_id [OF channel(1)] by auto
    have "number_of payload d" using channel(3) by (auto simp: ParseChannelPayload_iff number_of_def)
    then show ?thesis using a c own [OF a(1)] channel(2) by (auto simp: commanded_def writableRole_def)
  next
    case (source n)
    with job have ch: "ChangeSource e n (trim_space payload) st = Inr (m', c')" by simp
    then obtain a src where a: "Lookup ?r n = Some a" "ad_Role a = RoleReceiver"
      and src: "ByLabel (Sources ?r) (trim_space payload) = Some src" "ChangeChannel e (ad_MAC a) (src_Channel src) st = Inr (m', c')"
      using Normalize_canonical_id [OF source(1)] by (auto simp: ChangeSource_def split: option.splits if_splits)
    have "ad_MAC a = n" by (rule own [OF a(1)])
    then have "c' = src_Channel src" "ValidChannel c'" "\<not> ev_stopping e (snd st)" "m' = n"
      using ChangeChannel_Inr [OF src(2)] a(1) Normalize_canonical_id [OF source(1)] by auto
    then show ?thesis using a source(2) ByLabel_names [OF wf src(1)] by (auto simp: commanded_def)
  qed (use job in auto)
qed

context addressed_devices
begin

lemma react_commanded:
  assumes loc: "locatable (co_registry s)"
  shows "\<exists>u. log (snd (react e i (s, w))) = log w @ u \<and>
     (writes u = [] \<or> (\<exists>m c oc. commanded (co_registry s) i m c \<and> ValidChannel c \<and> \<not> ev_stopping e w \<and>
        change_contract (ev_readback e) m c u oc))"
proof (cases i)
  case (MessageArrived topic payload)
  have wf: "reg_wf (co_registry (fst (s, w)))" using loc by (simp add: locatable_def)
  have change: "\<exists>u oc. log (snd (snd (changeChannel e (ev_stopping e) m c (s, w)))) = log w @ u \<and> change_contract (ev_readback e) m c u oc" for m c
    using changeChannel_contract [OF loc] by (cases "changeChannel e (ev_stopping e) m c (s, w)") fastforce
  show ?thesis
  proof (cases "NewRouter (ev_f2i e) topic payload")
    case None
    then show ?thesis using MessageArrived by (simp add: on_message_def)
  next
    case (Some act)
    note job = accepted_commanded [OF wf Some]
    have scan: "\<exists>u. log (snd (RunDiscovery e (ev_stopping e) (s, w))) = log w @ u \<and> writes u = []"
      using reading.RunDiscovery_preserves [of "log w" "(s, w)" "ev_stopping e"] by (auto simp: only_read_def)
    show ?thesis
    proof (cases act)
      case (ChannelCommand m c)
      then show ?thesis using MessageArrived Some job change
        by (cases "ChangeChannel e m c (s, w)") (fastforce simp: on_message_def perform_def Let_def)+
    next
      case (SourceCommand m label)
      then show ?thesis using MessageArrived Some job change
        by (cases "ChangeSource e m label (s, w)") (fastforce simp: on_message_def perform_def Let_def)+
    qed (use MessageArrived Some scan in \<open>auto simp: on_message_def perform_def Let_def\<close>)
  qed
next
  case PollTick
  then show ?thesis using reading.PollKnownDevices_preserves [of "log w" "(s, w)" "ev_stopping e"] by (auto simp: only_read_def)
qed (simp add: onMQTTConnected_def)

end

lemma running_locatable:
  assumes "table_wf db" "ev_db e w0 = None"
    and "system_run (traced (http_env rt e)) og db inputs (w0, []) = (s, w, t)"
  shows "locatable (co_registry s)"
proof -
  have "locatable (co_registry (fst (system_run (traced (http_env rt e)) og db inputs (w0, []))))"
    by (rule traced_http.system_run_locatable [OF assms(1)]) (simp add: traced_def assms(2))
  then show ?thesis using assms(3) by simp
qed

lemma last_answer_in: "last_answer ip u = Some info \<Longrightarrow> ReadAnswered ip info \<in> set u"
  by (induction u) (auto split: option.splits dev_event.splits if_splits)

section \<open>A house with one device\<close>

text \<open>
  The device at \<open>10.0.0.1\<close> answers every read with the channel 7 and acknowledges every write.
\<close>

definition info_text :: string where
  "info_text = marshal (JObj [(''jsonrpc'', JStr ''2.0''), (''id'', JNum ''1''), (''result'',
        JObj [(''product_name'', JStr ''ProAVRx ER01''), (''lan_mac_addr'', JStr ''FC:19:28:6C:D6:D8''), (''channel_id'', JNum ''7'')])])"
definition ack_text :: string where
  "ack_text = marshal (JObj [(''jsonrpc'', JStr ''2.0''), (''id'', JNum ''1''), (''result'', JObj [(''result'', JBool True)])])"
definition answering :: "unit round_tripper" where
  "answering = (\<lambda>rq w. (Response 200 (Inr
     (if rq_Form rq = [(RPCFormField, EncodeRequest MethodGetDeviceInfo [])] then info_text else ack_text)), w))"

definition tuned_info :: device_info where
  "tuned_info = \<lparr>di_DevName = [], di_ProductName = ''ProAVRx ER01'', di_Model = [], di_Version = [],
      di_LanMAC = ''FC:19:28:6C:D6:D8'', di_ChannelID = 7, di_Capability = [],
      di_Raw = [(''product_name'', JStr ''ProAVRx ER01''), (''lan_mac_addr'', JStr ''FC:19:28:6C:D6:D8''), (''channel_id'', JNum ''7'')]\<rparr>"

lemma text_lengths: "length info_text \<le> 200 \<and> length ack_text \<le> 200" by code_simp
lemma texts_whole: "take (2 ^ 20) info_text = info_text" "take (2 ^ 20) ack_text = ack_text"
  using text_lengths by simp_all
lemma itoa_1: "itoa 1 = ''1''" by code_simp
lemma live_response: "rpc_response (Response 200 (Inr info_text)) = Inr (JObj [(''product_name'', JStr ''ProAVRx ER01''), (''lan_mac_addr'', JStr ''FC:19:28:6C:D6:D8''), (''channel_id'', JNum ''7'')])"
proof -
  have "Option.bind (parse_json info_text) decode_envelope = Some \<lparr>env_JSONRPC = ''2.0'', env_ID = ''1'', 
     env_Result = Some (JObj [(''product_name'', JStr ''ProAVRx ER01''), (''lan_mac_addr'', JStr ''FC:19:28:6C:D6:D8''), (''channel_id'', JNum ''7'')]), env_Error = None\<rparr>"
    by code_simp
  then show ?thesis using texts_whole(1) by (simp add: rpc_response_def RPCID_def itoa_1) 
qed
lemma info_decoded: "UnmarshalJSON (JObj [(''product_name'', JStr ''ProAVRx ER01''), (''lan_mac_addr'', JStr ''FC:19:28:6C:D6:D8''), (''channel_id'', JNum ''7'')]) = Inr tuned_info" by code_simp
lemma requests_differ: "EncodeRequest MethodSetChannel (set_channel_params 7) \<noteq> EncodeRequest MethodGetDeviceInfo []" by code_simp

lemma ack_response: "rpc_response (Response 200 (Inr ack_text)) = Inr (JObj [(''result'', JBool True)])"
proof -
  have "Option.bind (parse_json ack_text) decode_envelope = Some \<lparr>env_JSONRPC = ''2.0'', env_ID = ''1'', 
     env_Result = Some (JObj [(''result'', JBool True)]), env_Error = None\<rparr>"
    by code_simp
  then show ?thesis using texts_whole(2) by (simp add: rpc_response_def RPCID_def itoa_1) 
qed
lemma live_checks: "acknowledged (JObj [(''result'', JBool True)])" "parse_ipv4 ''10.0.0.1'' \<noteq> None" "ValidChannel 7"
proof -
  show "acknowledged (JObj [(''result'', JBool True)])" by code_simp
  show "parse_ipv4 ''10.0.0.1'' \<noteq> None"
    by (simp add: parse_ipv4_def parse_octet_def nat_of_digits_def digit_val_def is_digit_def less_eq_char_def)
  show "ValidChannel 7" by (simp add: ValidChannel_iff)
qed

abbreviation live_env :: "(unit \<times> dev_event list) env" where "live_env \<equiv> traced (http_env answering house)"

lemma answering_client:
  "cl_GetDeviceInfo (ev_client live_env) ''10.0.0.1'' ((), t) = (Inr tuned_info, (), t @ [ReadAnswered ''10.0.0.1'' tuned_info])"
  "cl_SetChannel (ev_client live_env) ''10.0.0.1'' 7 ((), t) = (None, (), t @ [WriteSent ''10.0.0.1'' 7])"
  using live_checks by (simp_all add: traced_def http_env_def NewHTTPClient_def GetDeviceInfo_def SetChannel_def rpc_def
      rpc_request_def answering_def live_response info_decoded requests_differ ack_response)

definition live :: registry where
  "live = [(''fc:19:28:6c:d6:d8'', refreshed_adapter house_adapter ''10.0.0.1'' tuned_info 5000000000)]"

lemma live_again:
  "r = [(''fc:19:28:6c:d6:d8'', house_adapter)] \<or> r = live \<Longrightarrow>
   fst (RecordObservation (map fst r) r ''10.0.0.1'' tuned_info 5000000000) = live"
proof -
  have "fst (RecordObservation [''fc:19:28:6c:d6:d8''] [(''fc:19:28:6c:d6:d8'', house_adapter)] ''10.0.0.1'' tuned_info 5000000000) = live"
    by code_simp
  moreover have "fst (RecordObservation [''fc:19:28:6c:d6:d8''] live ''10.0.0.1'' tuned_info 5000000000) = live"
    by code_simp
  moreover have "map fst live = [''fc:19:28:6c:d6:d8'']" by (simp add: live_def)
  ultimately show "r = [(''fc:19:28:6c:d6:d8'', house_adapter)] \<or> r = live \<Longrightarrow>
   fst (RecordObservation (map fst r) r ''10.0.0.1'' tuned_info 5000000000) = live"
    by (elim disjE) (simp only: list.map fst_conv)+
qed

lemma observed_live:
  assumes "co_registry s = [(''fc:19:28:6c:d6:d8'', house_adapter)] \<or> co_registry s = live"
  shows "\<exists>s'. observe live_env ''10.0.0.1'' tuned_info (s, w) = (s', w) \<and> co_registry s' = live"
proof -
  obtain s' where s': "observe live_env ''10.0.0.1'' tuned_info (s, w) = (s', w)"
    using snd_observe [of live_env "''10.0.0.1''" tuned_info "(s, w)"] by (cases "observe live_env ''10.0.0.1'' tuned_info (s, w)") simp
  have "ev_now live_env w = 5000000000" by (simp add: traced_def http_env_def house_def split: prod.splits)
  then show ?thesis using co_registry_observe [of live_env "''10.0.0.1''" tuned_info s w] live_again [OF assms] s' by simp
qed

lemma live_keys: "Normalize ''fc:19:28:6c:d6:d8'' = ''fc:19:28:6c:d6:d8''"
    "ad_MAC (refreshed_adapter house_adapter ''10.0.0.1'' tuned_info 5000000000) = ''fc:19:28:6c:d6:d8''"
  by code_simp+

lemma live_facts:
  "Lookup live ''fc:19:28:6c:d6:d8'' = Some (refreshed_adapter house_adapter ''10.0.0.1'' tuned_info 5000000000)"
  "ad_IP (refreshed_adapter house_adapter ''10.0.0.1'' tuned_info 5000000000) = ''10.0.0.1''"
  "writableRole (ad_Role (refreshed_adapter house_adapter ''10.0.0.1'' tuned_info 5000000000))"
  "writableRole (Classify tuned_info)"
  "Normalize (di_LanMAC tuned_info) = ''fc:19:28:6c:d6:d8''" "di_ChannelID tuned_info = 7"
  by code_simp+

definition live_trace :: "dev_event list" where
  "live_trace = [ReadAnswered ''10.0.0.1'' tuned_info, WriteSent ''10.0.0.1'' 7, ReadAnswered ''10.0.0.1'' tuned_info]"

lemma live_change:
  assumes "co_registry s = live"
  shows "\<exists>oc s'. changeChannel live_env ctx ''fc:19:28:6c:d6:d8'' 7 (s, (), t) = (oc, s', (), t @ live_trace)
    \<and> oc_Write oc = Some WriteAccepted"
proof -
  obtain s1 where s1: "observe live_env ''10.0.0.1'' tuned_info (s, (), t @ [ReadAnswered ''10.0.0.1'' tuned_info]) = (s1, (), t @ [ReadAnswered ''10.0.0.1'' tuned_info])"
    "co_registry s1 = live" using observed_live assms by blast
  have ver: "verifiedIP live_env ctx ''fc:19:28:6c:d6:d8'' (s, (), t) = (Some ''10.0.0.1'', s1, (), t @ [ReadAnswered ''10.0.0.1'' tuned_info])"
    using s1 by (simp add: verifiedIP_eq assms live_facts observeAt_def answering_client)
  obtain s2 where s2: "observe live_env ''10.0.0.1'' tuned_info (s1, (), t @ live_trace) = (s2, (), t @ live_trace)"
    using observed_live s1(2) by blast
  have "rb_Attempts (ev_readback live_env) = 3" by (simp add: traced_def http_env_def house_def DefaultReadback_def)
  then have "readBack live_env ''fc:19:28:6c:d6:d8'' ''10.0.0.1'' 7 (s1, (), t @ [ReadAnswered ''10.0.0.1'' tuned_info, WriteSent ''10.0.0.1'' 7]) =
      (Some 7, s2, (), t @ live_trace)"
    using s2 by (simp add: readBack_def answering_client live_facts live_trace_def numeral_3_eq_3)
  then show ?thesis using s1 ver
    by (simp add: changeChannel_def live_facts ctl_write_def answering_client Let_def)
qed

lemma live_run:
  "\<exists>s t. system_run live_env house_origin house_db [] ((), []) = (s, (), t) \<and> co_registry s = live"
proof -
  let ?s = "fst (onMQTTConnected (loaded house_origin house_db [house_adapter], (), [] :: dev_event list))"
  have env: "ev_sched live_env = (\<lambda>_ n. [0..<n])" "ev_stopping live_env = (\<lambda>_. False)" "ScanHosts (ev_opts live_env) = []"
    "ev_db live_env = (\<lambda>_. None)" "ev_await live_env = (\<lambda>w. (True, w))"
    by (auto simp: traced_def house_def http_env_def ScanHosts_def fun_eq_iff)
  have all: "All [(''fc:19:28:6c:d6:d8'', house_adapter)] = [house_adapter]" by (simp add: All_def)
  have s: "onMQTTConnected (loaded house_origin house_db [house_adapter], (), [] :: dev_event list) = (?s, (), [])"
    "co_registry ?s = [(''fc:19:28:6c:d6:d8'', house_adapter)]"
    by (simp_all add: onMQTTConnected_def house_loaded)
  from observed_live [of ?s] s(2) obtain s1 where
    s1: "observe live_env ''10.0.0.1'' tuned_info (?s, (), [ReadAnswered ''10.0.0.1'' tuned_info]) = (s1, (), [ReadAnswered ''10.0.0.1'' tuned_info])"
      "co_registry s1 = live" by blast
  have "ProbeKnownAddresses live_env (ev_stopping live_env) (?s, (), []) = (s1, (), [ReadAnswered ''10.0.0.1'' tuned_info])"
    using s(2) s1 by (simp add: ProbeKnownAddresses_def forEach_def all env observeAt_def answering_client live_facts)
  then have "ProbeKnownAddresses live_env (ev_stopping live_env) (onMQTTConnected (loaded house_origin house_db [house_adapter], (), [])) =
      (s1, (), [ReadAnswered ''10.0.0.1'' tuned_info])"
    by (subst s(1))
  moreover have "\<exists>s2. RunDiscovery live_env (ev_stopping live_env) (s1, w) = (s2, w) \<and> co_registry s2 = co_registry s1" for w
    by (simp add: RunDiscovery_def scan_def Probe_def forEach_def env Let_def)
  then obtain s2 where "RunDiscovery live_env (ev_stopping live_env) (s1, (), [ReadAnswered ''10.0.0.1'' tuned_info]) =
      (s2, (), [ReadAnswered ''10.0.0.1'' tuned_info])" "co_registry s2 = co_registry s1" by blast
  ultimately show ?thesis using s1(2) by (simp add: system_run_def Start_eq env house_loaded(1))
qed

section \<open>Properties\<close>

text \<open>C5: a device is written to only because a command asks for it.  Whatever reaches a running
  controller, it writes at most once; and then what arrived was a message that commands a known adapter,
  on that adapter's own topic, to take a channel (as a number, or by naming a transmitter that
  reports that channel), while the controller was not stopping; that valid channel is the one written, and
  it is written to an address whose last answer in this reaction came from the commanded adapter,
  or carried a MAC that cannot be normalised.  Polls, reconnections, renames, rescans and
  sweeps never write.\<close>

theorem writes_only_on_command:
  assumes "table_wf db" "ev_db e w0 = None"
    and "system_run (traced (http_env rt e)) og db inputs (w0, []) = (s, w, t)"
  shows "\<exists>u. snd (snd (react (traced (http_env rt e)) i (s, w, t))) = t @ u \<and>
     (writes u = [] \<or>
      (\<exists>m c ip before after info. commanded (co_registry s) i m c \<and> ValidChannel c \<and> \<not> ev_stopping e w \<and>
         u = before @ WriteSent ip c # after \<and> writes before = [] \<and> writes after = [] \<and>
         last_answer ip before = Some info \<and> (Normalize (di_LanMAC info) = m \<or> Normalize (di_LanMAC info) = [])))"
proof -
  have stop: "ev_stopping (traced (http_env rt e)) (w, t) = ev_stopping e w" by (simp add: traced_def http_env_def)
  obtain u where u: "snd (snd (react (traced (http_env rt e)) i (s, w, t))) = t @ u"
    "writes u = [] \<or> (\<exists>m c oc. commanded (co_registry s) i m c \<and> ValidChannel c \<and> \<not> ev_stopping e w \<and>
        change_contract (ev_readback (traced (http_env rt e))) m c u oc)"
    using traced_http.react_commanded [OF running_locatable [OF assms], of rt e i "(w, t)"] stop by auto
  then show ?thesis
  proof (intro exI conjI)
    show "writes u = [] \<or> (\<exists>m c ip before after info. commanded (co_registry s) i m c \<and> ValidChannel c \<and> \<not> ev_stopping e w \<and>
         u = before @ WriteSent ip c # after \<and> writes before = [] \<and> writes after = [] \<and>
         last_answer ip before = Some info \<and> (Normalize (di_LanMAC info) = m \<or> Normalize (di_LanMAC info) = []))"
      using u(2) reads_at_writes unfolding change_contract_def speaks_for_def by (fastforce split: option.splits)
  qed simp
qed

theorem writes_only_on_command_witness:
  "\<exists>s t u. system_run live_env house_origin house_db [] ((), []) = (s, (), t)
     \<and> snd (snd (react live_env (MessageArrived ''dt241m/device/fc19286cd6d8/channel/set'' ''7'') (s, (), t))) = t @ u
     \<and> writes u = [(''10.0.0.1'', 7)]
     \<and> commanded (co_registry s) (MessageArrived ''dt241m/device/fc19286cd6d8/channel/set'' ''7'') ''fc:19:28:6c:d6:d8'' 7"
proof -
  let ?i = "MessageArrived ''dt241m/device/fc19286cd6d8/channel/set'' ''7''" and ?m = "''fc:19:28:6c:d6:d8''"
  obtain s t where run: "system_run live_env house_origin house_db [] ((), []) = (s, (), t)" "co_registry s = live"
    using live_run by blast
  obtain oc s' where ch: "changeChannel live_env (ev_stopping live_env) ?m 7 (s, (), t) = (oc, s', (), t @ live_trace)"
    using live_change [OF run(2)] by blast
  have stop: "\<not> ev_stopping live_env ((), t)" by (simp add: traced_def http_env_def house_def)
  have "channelPayload (trim_space ''7'') = Some (False, ''7'') \<and> nat_of_digits ''7'' = 7"
    "ParseDeviceCommand ''dt241m/device/fc19286cd6d8/channel/set'' = Some (?m, ''channel'')"
    by code_simp+
  then have "NewRouter (ev_f2i live_env) ''dt241m/device/fc19286cd6d8/channel/set'' ''7'' = Some (ChannelCommand ?m 7)"
    using ParseChannelPayload_iff [of "ev_f2i live_env" "''7''" 7] live_checks by (auto simp: NewRouter_def)
  moreover have "ChangeChannel live_env ?m 7 (s, (), t) = Inr (?m, 7)"
    using stop by (simp add: ChangeChannel_def run(2) live_checks live_keys live_facts)
  ultimately have log: "snd (snd (react live_env ?i (s, (), t))) = t @ live_trace"
    using ch by (simp add: on_message_def perform_def)
  have "ev_db house () = None" by (simp add: house_def)
  from writes_only_on_command [OF house_db_wf this run(1), of ?i] log
  obtain m c ip before after info where w: "commanded (co_registry s) ?i m c"
    "live_trace = before @ WriteSent ip c # after" "last_answer ip before = Some info"
    "Normalize (di_LanMAC info) = m \<or> Normalize (di_LanMAC info) = []"
    by (auto simp: live_trace_def)
  then have "before = [ReadAnswered ''10.0.0.1'' tuned_info]" "ip = ''10.0.0.1''" "c = 7"
    by (auto simp: live_trace_def Cons_eq_append_conv)
  then have "m = ?m" using w(3,4) by (auto simp: live_facts)
  then show ?thesis using run(1) log w(1) \<open>c = 7\<close> by (auto simp: live_trace_def)
qed

text \<open>Starting the controller only reads from devices, whatever they answer.\<close>

theorem Start_only_reads:
  "\<exists>u. snd (snd (snd (Start (traced e) ctx (New_controller og db, w, t)))) = t @ u \<and> writes u = []"
proof -
  have "only_read snd t (loaded og db adapters, snd (ev_await (traced e) (w, t)))" for adapters
    by (auto simp: only_read_def traced_def split: prod.splits)
  moreover from this have "only_read snd t (onMQTTConnected (loaded og db adapters, snd (ev_await (traced e) (w, t))))" for adapters
    by (simp add: only_read_def onMQTTConnected_def)
  moreover have "only_read snd t st \<Longrightarrow> only_read snd t (RunDiscovery (traced e) ctx (ProbeKnownAddresses (traced e) ctx st))" for st
    by (intro traced.reading.RunDiscovery_preserves traced.reading.ProbeKnownAddresses_preserves)
  ultimately have "only_read snd t (snd (Start (traced e) ctx (New_controller og db, w, t)))"
    by (cases "LoadAll (ev_db (traced e) (w, t)) db") (simp_all add: Start_eq, simp add: only_read_def)
  then show ?thesis by (simp add: only_read_def)
qed

text \<open>C4: a channel change in a running system sends at most one write.  It goes to an address whose
  last answer in this operation carried the MAC of the adapter in question, or a MAC that cannot be
  normalised; when every answer of the operation has a MAC that can be normalised, it is the adapter's
  own.  (The other case does happen, see the end of the theory.)  The write is followed by at most as
  many reads as the readback policy allows, all at that address, the reported channel is the one in
  the last of their answers, and the outcome says matched exactly when the write was not refused and
  that channel is the requested one.  An outcome without a write is a failure with a reason.\<close>

theorem channel_change_contract:
  assumes "table_wf db" "ev_db e w0 = None"
    and "system_run (traced (http_env rt e)) og db inputs (w0, []) = (s, w, t)"
    and "changeChannel (traced (http_env rt e)) ctx m c (s, w, t) = (oc, s', w', t')"
  shows "\<exists>u. t' = t @ u \<and> change_contract (ev_readback e) m c u oc
    \<and> ((\<forall>ip info. ReadAnswered ip info \<in> set u \<longrightarrow> Normalize (di_LanMAC info) \<noteq> []) \<and> oc_Write oc \<noteq> None \<longrightarrow>
        (\<exists>before info after. u = before @ WriteSent (oc_IP oc) c # after \<and>
           last_answer (oc_IP oc) before = Some info \<and> Normalize (di_LanMAC info) = m))"
proof -
  from traced_http.changeChannel_contract [OF running_locatable [OF assms(1-3)] assms(4)] obtain u
    where u: "t' = t @ u" "change_contract (ev_readback e) m c u oc" by (auto simp: traced_def http_env_def)
  moreover have "\<exists>before info after. u = before @ WriteSent (oc_IP oc) c # after \<and>
      last_answer (oc_IP oc) before = Some info \<and> Normalize (di_LanMAC info) = m"
    if ans: "\<forall>ip info. ReadAnswered ip info \<in> set u \<longrightarrow> Normalize (di_LanMAC info) \<noteq> []" and sent: "oc_Write oc \<noteq> None"
  proof -
    obtain before info after where w: "u = before @ WriteSent (oc_IP oc) c # after"
      "last_answer (oc_IP oc) before = Some info" "speaks_for info m"
      using u(2) sent unfolding change_contract_def by (auto split: option.splits)
    then show ?thesis using ans last_answer_in [OF w(2)] by (auto simp: speaks_for_def)
  qed
  ultimately show ?thesis by blast
qed

theorem channel_change_contract_witness:
  "\<exists>oc s' w' t t' u. changeChannel live_env (\<lambda>_. False) ''fc:19:28:6c:d6:d8'' 7
       (system_run live_env house_origin house_db [] ((), [])) = (oc, s', w', t')
     \<and> t' = t @ u \<and> oc_Write oc = Some WriteAccepted \<and> change_contract DefaultReadback ''fc:19:28:6c:d6:d8'' 7 u oc"
proof -
  obtain s t where run: "system_run live_env house_origin house_db [] ((), []) = (s, (), t)" "co_registry s = live"
    using live_run by blast
  obtain oc s' w' t' where ch: "changeChannel live_env (\<lambda>_. False) ''fc:19:28:6c:d6:d8'' 7 (s, (), t) = (oc, s', w', t')"
    "oc_Write oc = Some WriteAccepted" using live_change [OF run(2)] by blast
  from channel_change_contract [OF house_db_wf _ run(1) ch(1)]
  obtain u where "t' = t @ u" "change_contract (ev_readback house) ''fc:19:28:6c:d6:d8'' 7 u oc" by (auto simp: house_def)
  then show ?thesis unfolding run using ch by (auto simp: house_def)
qed

section \<open>A device without a usable MAC\<close>

text \<open>
  An adapter was online at \<open>10.0.0.1\<close>; now something else answers there with a MAC text that
  cannot be normalised, and a scan finds nobody.
\<close>

definition stranger :: device_info where
  "stranger = rx_info\<lparr>di_LanMAC := ''n/a''\<rparr>"

definition stranger_env :: "unit env" where
  "stranger_env = house\<lparr>ev_client :=
     \<lparr>cl_GetDeviceInfo = (\<lambda>ip w. (Inr stranger, w)), cl_SetChannel = (\<lambda>ip c w. (None, w))\<rparr>\<rparr>"

definition stranger_state :: controller where
  "stranger_state = (New_controller house_origin [])\<lparr>co_registry := fst (RecordObservation [] New ''10.0.0.1'' rx_info 0)\<rparr>"

text \<open>\<open>verifiedIP\<close> promises an address that has just been proven to belong to the adapter.  When
  the device at the last known address reports a MAC that cannot be normalised, the observation
  is dropped, the adapter stays online, and the command is written to that unproven device.\<close>

lemma unproven_address_written:
  "let (oc, s', w', t') = changeChannel (traced stranger_env) (\<lambda>_. False) ''fc:19:28:6c:d6:d8'' 7 (stranger_state, (), [])
   in t' = [ReadAnswered ''10.0.0.1'' stranger, WriteSent ''10.0.0.1'' 7, ReadAnswered ''10.0.0.1'' stranger]
      \<and> Normalize (di_LanMAC stranger) = [] \<and> oc_Write oc = Some WriteAccepted \<and> oc_Status oc = StatusMismatch"
  by code_simp

end
