(* ===== verification/Mqtt_Session.thy ===== *)
theory Mqtt_Session
  imports Controller
begin

text \<open>
  Files \<open>internal/mqtt/conn.go\<close> and \<open>internal/mqtt/paho.go\<close>: the broker session.  The MQTT
  client library is not part of the repository; what the program hands to it (the client
  configuration, the packets and the subscription) and what it does in the library's callbacks
  are modelled, the errors the library returns are arguments.  Handlers are functions on a
  state \<open>'st\<close>; the callbacks run them in the order of registration.

  The interface \<open>Connection\<close>, as far as the controller relies on it for its inputs, is the
  locale \<open>connection\<close>.  The production session is an interpretation of it here, the recording
  double of the tests in \<open>Fake_Mqtt\<close>.
\<close>

section \<open>Configuration and packets\<close>

definition ErrNotConnected :: go_error where
  "ErrNotConnected = OtherError ''mqtt: not connected'' None"

record Will =
  wl_Topic :: string
  wl_Payload :: string

record PahoOptions =
  po_Settings :: MQTT
  po_ClientID :: string
  po_Will :: Will

record publish_packet =
  pk_Topic :: string
  pk_Payload :: string
  pk_QoS :: nat
  pk_Retain :: bool

record subscribe_options =
  so_Topic :: string
  so_QoS :: nat
  so_RetainHandling :: nat

text \<open>The fields of \<open>autopaho.ClientConfig\<close> that \<open>clientConfig\<close> sets, times in seconds.\<close>

record client_config =
  cc_ServerUrl :: string
  cc_MinTLS :: "string option"
  cc_KeepAlive :: nat
  cc_CleanStart :: bool
  cc_SessionExpiry :: nat
  cc_Backoff :: "nat \<times> nat \<times> nat \<times> nat"
  cc_ConnectTimeout :: nat
  cc_Username :: string
  cc_Password :: "string option"
  cc_WillMessage :: publish_packet
  cc_ClientID :: string

text \<open>\<open>parse_url\<close> is the verdict of \<open>url.Parse\<close> on the text of the URL.\<close>

definition clientConfig :: "(string \<Rightarrow> go_error option) \<Rightarrow> PahoOptions \<Rightarrow> go_error + client_config" where
  "clientConfig parse_url opts =
     (let m = po_Settings opts;
          (scheme, tls) = (if mq_TLS m then (''tls'', Some ''TLS1.2'') else (''mqtt'', None));
          url = scheme @ ''://'' @ mq_Host m @ '':'' @ itoa (mq_Port m) in
      case parse_url url of
        Some err \<Rightarrow> Inl err
      | None \<Rightarrow>
          let cfg = \<lparr>cc_ServerUrl = url, cc_MinTLS = tls, cc_KeepAlive = 30, cc_CleanStart = True, cc_SessionExpiry = 0,
                     cc_Backoff = (2, 60, 5, 2), cc_ConnectTimeout = 10, cc_Username = mq_Username m,
                     cc_Password = Some (mq_Password m),
                     cc_WillMessage = \<lparr>pk_Topic = wl_Topic (po_Will opts), pk_Payload = wl_Payload (po_Will opts),
                                       pk_QoS = 1, pk_Retain = True\<rparr>,
                     cc_ClientID = po_ClientID opts\<rparr>
          in Inr (if mq_Password m = [] then cfg\<lparr>cc_Password := None\<rparr> else cfg))"

definition neverReplayRetained :: nat where "neverReplayRetained = 2"

definition subscription :: "string list \<Rightarrow> subscribe_options list" where
  "subscription topics = map (\<lambda>t. \<lparr>so_Topic = t, so_QoS = 1, so_RetainHandling = neverReplayRetained\<rparr>) topics"

text \<open>\<open>down\<close> is the library's \<open>ConnectionDownError\<close>.\<close>

definition sessionError :: "go_error \<Rightarrow> go_error option \<Rightarrow> go_error option" where
  "sessionError down err =
     (case err of None \<Rightarrow> None | Some e \<Rightarrow> if errors_is e down then Some ErrNotConnected else Some e)"

definition paho_Publish ::
  "go_error \<Rightarrow> (publish_packet \<Rightarrow> go_error option) \<Rightarrow> string \<Rightarrow> string \<Rightarrow> bool \<Rightarrow> go_error option" where
  "paho_Publish down cm_publish topic payload retain =
     sessionError down (cm_publish \<lparr>pk_Topic = topic, pk_Payload = payload, pk_QoS = 1, pk_Retain = retain\<rparr>)"

definition paho_Subscribe ::
  "go_error \<Rightarrow> (subscribe_options list \<Rightarrow> go_error option) \<Rightarrow> string list \<Rightarrow> go_error option" where
  "paho_Subscribe down cm_subscribe topics = sessionError down (cm_subscribe (subscription topics))"

section \<open>The session\<close>

type_synonym 'st message_handler = "string \<Rightarrow> string \<Rightarrow> 'st \<Rightarrow> 'st"

record 'st pahoConnection =
  pc_config :: client_config
  pc_connected :: bool
  pc_cancelled :: bool
  pc_onMessage :: "'st message_handler list"
  pc_onConnect :: "('st \<Rightarrow> 'st) list"

text \<open>\<open>Connect\<close>: \<open>refused\<close> is the error of \<open>autopaho.NewConnection\<close>, if any.\<close>

definition Connect ::
  "(string \<Rightarrow> go_error option) \<Rightarrow> (client_config \<Rightarrow> go_error option) \<Rightarrow> PahoOptions \<Rightarrow> go_error + 'st pahoConnection" where
  "Connect parse_url refused opts =
     (case clientConfig parse_url opts of
        Inl err \<Rightarrow> Inl err
      | Inr cfg \<Rightarrow>
          (case refused cfg of
             Some err \<Rightarrow> Inl err
           | None \<Rightarrow> Inr \<lparr>pc_config = cfg, pc_connected = False, pc_cancelled = False, pc_onMessage = [], pc_onConnect = []\<rparr>))"

definition setConnected :: "bool \<Rightarrow> 'st pahoConnection \<Rightarrow> 'st pahoConnection" where
  "setConnected v p = p\<lparr>pc_connected := v\<rparr>"

definition connectHandlers :: "'st pahoConnection \<Rightarrow> ('st \<Rightarrow> 'st) list" where
  "connectHandlers p = pc_onConnect p"

definition messageHandlers :: "'st pahoConnection \<Rightarrow> 'st message_handler list" where
  "messageHandlers p = pc_onMessage p"

definition paho_OnMessage :: "'st message_handler \<Rightarrow> 'st pahoConnection \<Rightarrow> 'st pahoConnection" where
  "paho_OnMessage h p = p\<lparr>pc_onMessage := pc_onMessage p @ [h]\<rparr>"

definition paho_OnConnect :: "('st \<Rightarrow> 'st) \<Rightarrow> 'st pahoConnection \<Rightarrow> 'st pahoConnection" where
  "paho_OnConnect h p = p\<lparr>pc_onConnect := pc_onConnect p @ [h]\<rparr>"

definition paho_Connected :: "'st pahoConnection \<Rightarrow> bool" where
  "paho_Connected p = pc_connected p"

text \<open>The library's verdicts are arguments; \<open>Close\<close> cancels the session whatever \<open>Disconnect\<close> says.\<close>

definition paho_AwaitConnection :: "(unit \<Rightarrow> go_error option) \<Rightarrow> go_error option" where
  "paho_AwaitConnection cm_await = cm_await ()"

definition paho_Close :: "(unit \<Rightarrow> go_error option) \<Rightarrow> 'st pahoConnection \<Rightarrow> go_error option \<times> 'st pahoConnection" where
  "paho_Close cm_disconnect p = (cm_disconnect (), p\<lparr>pc_cancelled := True\<rparr>)"

text \<open>The callbacks of the configuration.\<close>

definition OnConnectionUp :: "'st pahoConnection \<times> 'st \<Rightarrow> 'st pahoConnection \<times> 'st" where
  "OnConnectionUp ps = (case ps of (p, st) \<Rightarrow>
     let p = setConnected True p in (p, fold (\<lambda>h. h) (connectHandlers p) st))"

definition OnConnectionDown :: "'st pahoConnection \<times> 'st \<Rightarrow> bool \<times> 'st pahoConnection \<times> 'st" where
  "OnConnectionDown ps = (case ps of (p, st) \<Rightarrow> (True, setConnected False p, st))"

definition OnPublishReceived :: "publish_packet \<Rightarrow> 'st pahoConnection \<times> 'st \<Rightarrow> bool \<times> 'st pahoConnection \<times> 'st" where
  "OnPublishReceived pr ps = (case ps of (p, st) \<Rightarrow>
     if pk_Retain pr then (True, p, st)
     else (True, p, fold (\<lambda>h. h (pk_Topic pr) (pk_Payload pr)) (messageHandlers p) st))"

section \<open>The interface\<close>

text \<open>
  What a connection promises: handlers are kept in order, a live message runs all message
  handlers, a new session runs all connect handlers and is connected, a lost session is not.
\<close>

locale connection =
  fixes on_msg :: "'st message_handler \<Rightarrow> 'c \<Rightarrow> 'c"
    and on_conn :: "('st \<Rightarrow> 'st) \<Rightarrow> 'c \<Rightarrow> 'c"
    and live :: "string \<Rightarrow> string \<Rightarrow> 'c \<times> 'st \<Rightarrow> 'c \<times> 'st"
    and up :: "'c \<times> 'st \<Rightarrow> 'c \<times> 'st"
    and down :: "'c \<times> 'st \<Rightarrow> 'c \<times> 'st"
    and connected :: "'c \<Rightarrow> bool"
    and msgs :: "'c \<Rightarrow> 'st message_handler list"
    and conns :: "'c \<Rightarrow> ('st \<Rightarrow> 'st) list"
  assumes registered: "msgs (on_msg h c) = msgs c @ [h]" "conns (on_msg h c) = conns c"
      "msgs (on_conn k c) = msgs c" "conns (on_conn k c) = conns c @ [k]"
    and live_runs: "live t v (c, st) = (c, fold (\<lambda>h. h t v) (msgs c) st)"
    and up_runs: "\<exists>c'. up (c, st) = (c', fold (\<lambda>k. k) (conns c) st) \<and> connected c' \<and> msgs c' = msgs c \<and> conns c' = conns c"
    and down_runs: "\<exists>c'. down (c, st) = (c', st) \<and> \<not> connected c' \<and> msgs c' = msgs c \<and> conns c' = conns c"

datatype session_event = Up | Down | Live string string | Replay string string

text \<open>What the controller makes of the events of a session; replayed messages are not an input.\<close>

fun session_input :: "session_event \<Rightarrow> input list" where
  "session_input Up = [Reconnected]"
| "session_input Down = []"
| "session_input (Live topic payload) = [MessageArrived topic payload]"
| "session_input (Replay topic payload) = []"

context connection
begin

fun on_event :: "session_event \<Rightarrow> 'c \<times> 'st \<Rightarrow> 'c \<times> 'st" where
  "on_event Up s = up s"
| "on_event Down s = down s"
| "on_event (Live topic payload) s = live topic payload s"
| "on_event (Replay topic payload) s = s"

text \<open>The state sees exactly the live messages and the connects, in order.\<close>

lemma events_run:
  assumes "msgs c = [h]" "conns c = [k]"
  shows "snd (fold on_event evs (c, st)) =
      fold (\<lambda>ev. case ev of Up \<Rightarrow> k | Live t v \<Rightarrow> h t v | _ \<Rightarrow> id) evs st
    \<and> msgs (fst (fold on_event evs (c, st))) = [h] \<and> conns (fst (fold on_event evs (c, st))) = [k]"
  using assms
proof (induction evs arbitrary: c st)
  case (Cons ev evs)
  obtain c' where "on_event ev (c, st) = (c', (case ev of Up \<Rightarrow> k | Live t v \<Rightarrow> h t v | _ \<Rightarrow> id) st)"
    "msgs c' = [h]" "conns c' = [k]"
    using up_runs [of c st] down_runs [of c st] live_runs Cons.prems by (cases ev) fastforce+
  with Cons.IH [of c'] show ?case by simp
qed simp

lemma connected_after:
  "connected (fst (on_event Up s))" "\<not> connected (fst (on_event Down s))"
  using up_runs [of "fst s" "snd s"] down_runs [of "fst s" "snd s"] by auto

end

section \<open>The production session\<close>

interpretation paho: connection paho_OnMessage paho_OnConnect
  "\<lambda>topic payload s. snd (OnPublishReceived \<lparr>pk_Topic = topic, pk_Payload = payload, pk_QoS = 1, pk_Retain = False\<rparr> s)"
  OnConnectionUp "\<lambda>s. snd (OnConnectionDown s)" pc_connected messageHandlers connectHandlers
  by unfold_locales
    (simp_all add: paho_OnMessage_def paho_OnConnect_def messageHandlers_def connectHandlers_def OnPublishReceived_def
      OnConnectionUp_def OnConnectionDown_def setConnected_def Let_def)

text \<open>The events as the callbacks of the library; a replayed message carries the retain flag.\<close>

fun paho_event :: "session_event \<Rightarrow> 'st pahoConnection \<times> 'st \<Rightarrow> 'st pahoConnection \<times> 'st" where
  "paho_event Up s = OnConnectionUp s"
| "paho_event Down s = snd (OnConnectionDown s)"
| "paho_event (Live topic payload) s =
     snd (OnPublishReceived \<lparr>pk_Topic = topic, pk_Payload = payload, pk_QoS = 1, pk_Retain = False\<rparr> s)"
| "paho_event (Replay topic payload) s =
     snd (OnPublishReceived \<lparr>pk_Topic = topic, pk_Payload = payload, pk_QoS = 1, pk_Retain = True\<rparr> s)"

lemma paho_event_eq: "paho_event ev s = paho.on_event ev s"
  by (cases ev) (simp_all only: paho.on_event.simps paho_event.simps, cases s, simp add: OnPublishReceived_def)

text \<open>The registrations that \<open>New\<close> makes with its connection.\<close>

definition wire :: "'w env \<Rightarrow> (controller \<times> 'w) pahoConnection \<Rightarrow> (controller \<times> 'w) pahoConnection" where
  "wire e p = paho_OnConnect onMQTTConnected (paho_OnMessage (on_message e) p)"

lemma wired_handlers:
  "Connect parse_url refused opts = Inr p \<Longrightarrow>
     messageHandlers (wire e p) = [on_message e] \<and> connectHandlers (wire e p) = [onMQTTConnected]"
  by (auto simp: Connect_def wire_def paho_OnMessage_def paho_OnConnect_def messageHandlers_def connectHandlers_def
      split: sum.splits option.splits)

section \<open>Properties\<close>

text \<open>C7: the controller sees of a broker session exactly the live messages and the connects, in
  their order: messages that the broker replays because they were retained, and disconnects,
  change nothing, whatever their topic and payload.\<close>

theorem session_drives_controller:
  assumes "Connect parse_url refused opts = Inr p"
  shows "snd (fold paho_event evs (wire e p, st)) = fold (react e) (concat (map session_input evs)) st"
proof -
  have "snd (fold paho_event evs (wire e p, st)) =
      fold (\<lambda>ev. case ev of Up \<Rightarrow> onMQTTConnected | Live t v \<Rightarrow> on_message e t v | _ \<Rightarrow> id) evs st"
    unfolding paho_event_eq [abs_def] by (rule conjunct1 [OF paho.events_run]) (simp_all add: wired_handlers [OF assms])
  also have "\<dots> = fold (react e) (concat (map session_input evs)) st"
  proof (induction evs arbitrary: st)
    case (Cons ev evs)
    then show ?case by (cases ev) simp_all
  qed simp
  finally show ?thesis .
qed

definition sample_options :: PahoOptions where
  "sample_options =
     \<lparr>po_Settings = \<lparr>mq_Host = ''core-mosquitto'', mq_Port = 1883, mq_Username = ''addons'', mq_Password = ''secret'', mq_TLS = False\<rparr>,
      po_ClientID = ''dt241m-controller-7'',
      po_Will = \<lparr>wl_Topic = ControllerAvailability, wl_Payload = PayloadOffline\<rparr>\<rparr>"

theorem session_drives_controller_witness:
  "\<exists>p. Connect (\<lambda>_. None) (\<lambda>_. None) sample_options = Inr p \<and> cc_ServerUrl (pc_config p) = ''mqtt://core-mosquitto:1883'' \<and>
     (\<forall>e st. snd (fold paho_event [Up, Replay ControllerRescanPress PayloadPress, Live ''x'' ''y'', Down] (wire e p, st)) =
        react e (MessageArrived ''x'' ''y'') (react e Reconnected st))"
proof -
  obtain p :: "(controller \<times> 'a) pahoConnection" where p: "Connect (\<lambda>_. None) (\<lambda>_. None) sample_options = Inr p"
    by (auto simp: Connect_def clientConfig_def sample_options_def Let_def)
  moreover have "itoa 1883 = ''1883''" by code_simp
  then have "cc_ServerUrl (pc_config p) = ''mqtt://core-mosquitto:1883''"
    using p by (auto simp: Connect_def clientConfig_def sample_options_def Let_def)
  moreover have "snd (fold paho_event [Up, Replay ControllerRescanPress PayloadPress, Live ''x'' ''y'', Down] (wire e p, st)) =
      react e (MessageArrived ''x'' ''y'') (react e Reconnected st)" for e :: "'a env" and st
    unfolding session_drives_controller [OF p] by simp
  ultimately show ?thesis by blast
qed

end
