(* ===== verification/Program.thy ===== *)
theory Program
  imports Controller_Safety Mqtt_Session
begin

text \<open>
  File \<open>main.go\<close>: the composition of the components.  A run of the program loads the
  configuration, opens the database, sets up the broker session, starts the controller, reacts
  to inputs until it is told to stop, and shuts down.  Signals, the process id and logging are
  left out; what the environment does at each step is in the record \<open>run_env\<close>.
\<close>

section \<open>Definitions\<close>

definition supportURL :: string where
  "supportURL = ''https://github.com/jacobgad/dt241m-controller''"

definition shutdownTimeout :: int where "shutdownTimeout = 10 * 1000000000"

record 'w run_env =
  re_load :: "config_error + config"
  re_fails :: "string \<Rightarrow> go_error option"
  re_parse_url :: "string \<Rightarrow> go_error option"
  re_refused :: "client_config \<Rightarrow> go_error option"
  re_transport :: "'w round_tripper"
  re_pid :: nat
  re_version :: string
  re_connected :: bool
  re_world :: "'w env"

datatype run_error = ConfigInvalid config_error | DatabaseOpenFailed store_error | MqttSetupFailed go_error | StartupFailed store_error

text \<open>The table the statements of \<open>Store\<close> work on; without it each of them fails.\<close>

definition open_table :: "sqlite_db \<Rightarrow> adapters_table" where
  "open_table db = (case db_adapters db of None \<Rightarrow> [] | Some t \<Rightarrow> t)"

definition no_such_table :: go_error where
  "no_such_table = OtherError ''no such table: adapters'' None"

text \<open>The dependencies handed to \<open>New\<close>; a zero \<open>Readback\<close> picks the default.\<close>

definition deps :: "'w run_env \<Rightarrow> config \<Rightarrow> sqlite_db \<Rightarrow> 'w env" where
  "deps re cfg db =
     http_env (re_transport re)
       ((re_world re)\<lparr>ev_opts := cf_Options cfg,
          ev_readback := new_readback \<lparr>rb_Attempts = 0, rb_Gap = 0\<rparr>,
          ev_db := (\<lambda>w. if db_adapters db = None then Some no_such_table else ev_db (re_world re) w)\<rparr>)"

definition paho_options :: "'w run_env \<Rightarrow> config \<Rightarrow> PahoOptions" where
  "paho_options re cfg =
     \<lparr>po_Settings = cf_MQTT cfg, po_ClientID = ''dt241m-controller-'' @ itoa (int (re_pid re)),
      po_Will = \<lparr>wl_Topic = ControllerAvailability, wl_Payload = PayloadOffline\<rparr>\<rparr>"

definition run_origin :: "'w run_env \<Rightarrow> Origin" where
  "run_origin re = \<lparr>og_Version = re_version re, og_SupportURL = supportURL\<rparr>"

definition close_db :: "sqlite_db \<Rightarrow> controller \<Rightarrow> sqlite_db" where
  "close_db db s = (if db_adapters db = None then db else db\<lparr>db_adapters := Some (co_db s)\<rparr>)"

definition run :: "'w run_env \<Rightarrow> input list \<Rightarrow> sqlite_db \<times> 'w \<Rightarrow> run_error option \<times> sqlite_db \<times> 'w" where
  "run re inputs dw =
     (case dw of (db, w) \<Rightarrow>
      (case re_load re of
         Inl err \<Rightarrow> (Some (ConfigInvalid err), db, w)
       | Inr cfg \<Rightarrow>
           (case Open (re_fails re) db of
              (Some err, db) \<Rightarrow> (Some (DatabaseOpenFailed err), db, w)
            | (None, db) \<Rightarrow>
                (case (Connect (re_parse_url re) (re_refused re) (paho_options re cfg)
                        :: go_error + (controller \<times> 'w) pahoConnection) of
                   Inl err \<Rightarrow> (Some (MqttSetupFailed err), db, w)
                 | Inr conn \<Rightarrow>
                     let e = deps re cfg db in
                     (case Start e (ev_stopping e) (New_controller (run_origin re) (open_table db), w) of
                        (Some err, st) \<Rightarrow>
                          (case Stop (re_connected re) st of (s, w) \<Rightarrow> (Some (StartupFailed err), close_db db s, w))
                      | (None, st) \<Rightarrow>
                          (case Stop (re_connected re) (fold (react e) inputs st) of (s, w) \<Rightarrow> (None, close_db db s, w)))))))"

section \<open>Lemmas\<close>

definition db_wf :: "sqlite_db \<Rightarrow> bool" where
  "db_wf db \<longleftrightarrow> (case db_adapters db of None \<Rightarrow> db_user_version db = 0 | Some t \<Rightarrow> table_wf t)"

lemma table_wf_Nil [simp]: "table_wf []"
  by (simp add: table_wf_def)

lemma Open_keeps:
  assumes "Open fails db = (None, db')"
  shows "(db_adapters db \<noteq> None \<longrightarrow> db_adapters db' = db_adapters db) \<and> db_user_version db' = 1
    \<and> (db_user_version db = 0 \<longrightarrow> db_adapters db' \<noteq> None)"
  using assms migrate_keeps [of fails db None db'] by (auto simp: Open_def split: option.splits)

lemma Open_fresh:
  assumes "Open fails db = (None, db')" "db_adapters db = None"
  shows "db_adapters db' = None \<or> db_adapters db' = Some []"
proof -
  have "migrate fails db = (None, db')" using assms(1) by (auto simp: Open_def split: option.splits)
  then show ?thesis using assms(2) run_migrations_cases [of fails "db_user_version db" db]
    by (cases "db_user_version db = 0")
      (auto simp: migrate_def adoptLegacySchema_def Let_def split: option.splits if_splits)
qed

lemma Open_wf:
  assumes "Open fails db = (None, db')" "db_wf db"
  shows "db_adapters db' \<noteq> None \<and> table_wf (open_table db')"
proof (cases "db_adapters db")
  case None
  then have "db_adapters db' = Some []"
    using Open_keeps [OF assms(1)] Open_fresh [OF assms(1) None] assms(2) by (auto simp: db_wf_def)
  then show ?thesis by (simp add: open_table_def)
next
  case (Some t)
  then have "db_adapters db' = Some t" using Open_keeps [OF assms(1)] by simp
  then show ?thesis using assms(2) Some by (simp add: open_table_def db_wf_def)
qed

text \<open>The state of the controller when the inputs have been handled, before it is stopped.\<close>

definition final_state :: "'w run_env \<Rightarrow> input list \<Rightarrow> config \<Rightarrow> sqlite_db \<Rightarrow> 'w \<Rightarrow> controller \<times> 'w" where
  "final_state re inputs cfg db w = system_run (deps re cfg db) (run_origin re) (open_table db) inputs w"

lemma co_db_Stop [simp]: "co_db (fst (Stop b st)) = co_db (fst st)"
  by (cases st) (simp add: Stop_def)

lemma run_None:
  assumes "run re inputs (db, w) = (None, db', w')"
  obtains cfg db1 where "re_load re = Inr cfg" "Open (re_fails re) db = (None, db1)"
    "db' = close_db db1 (fst (final_state re inputs cfg db1 w))"
proof -
  from assms obtain cfg db1 where c: "re_load re = Inr cfg" "Open (re_fails re) db = (None, db1)"
    by (auto simp: run_def split: sum.splits prod.splits option.splits)
  let ?e = "deps re cfg db1"
  obtain err st where st: "Start ?e (ev_stopping ?e) (New_controller (run_origin re) (open_table db1), w) = (err, st)"
    by (cases "Start ?e (ev_stopping ?e) (New_controller (run_origin re) (open_table db1), w)")
  have "err = None \<and> db' = close_db db1 (fst (Stop (re_connected re) (fold (react ?e) inputs st)))"
    using assms c st by (auto simp: run_def Let_def split: sum.splits option.splits prod.splits)
  then have "db' = close_db db1 (fst (final_state re inputs cfg db1 w))"
    using st by (simp add: final_state_def system_run_def close_db_def)
  with c show thesis by (rule that)
qed

section \<open>Properties\<close>

text \<open>C3: the inventory survives the end of the program: when a run of the program on a database of
  its own (of any schema version, or none) has ended normally and its driver did not fail, the
  next run opens the database it left and starts from the same adapters, with the same user
  names, addresses, roles and channels, up to who is online and last-seen times.\<close>

theorem program_restart:
  assumes "db_wf db" "\<forall>w. ev_db (re_world re) w = None" "run re inputs (db, w) = (None, db', w')"
    and "Open fails db' = (None, db'')" "LoadAll None (open_table db'') = Inr adapters"
  shows "db_wf db'' \<and> (\<exists>cfg db1. re_load re = Inr cfg \<and> Open (re_fails re) db = (None, db1) \<and>
    (\<forall>m. map_option kept (Lookup (Hydrate adapters New) m) =
       map_option kept (Lookup (co_registry (fst (final_state re inputs cfg db1 w))) m)))"
proof -
  obtain cfg db1 where c: "re_load re = Inr cfg" "Open (re_fails re) db = (None, db1)"
    and db': "db' = close_db db1 (fst (final_state re inputs cfg db1 w))"
    by (rule run_None [OF assms(3)]) (rule that)
  let ?s = "fst (final_state re inputs cfg db1 w)" and ?e = "deps re cfg db1"
  have t1: "db_adapters db1 \<noteq> None" "table_wf (open_table db1)" using Open_wf [OF c(2) assms(1)] by simp_all
  have free: "\<forall>w. ev_db ?e w = None" using t1(1) assms(2) by (simp add: deps_def)
  have "store_inv ?e (final_state re inputs cfg db1 w)"
    unfolding final_state_def deps_def
    by (rule http.system_run_store [OF t1(2)]) (use free in \<open>simp add: deps_def\<close>)
  then have s: "table_wf (co_db ?s)" "synced (co_registry ?s) (co_db ?s)" using free by (simp_all add: store_inv_def)
  have "db_adapters db' = Some (co_db ?s)" using t1(1) by (simp add: db' close_db_def)
  then have t2: "db_adapters db'' = Some (co_db ?s)" using Open_keeps [OF assms(4)] by simp
  then have "db_wf db''" "synced (Hydrate adapters New) (co_db ?s)"
    using s(1) loaded_synced [OF s(1), of None] assms(5) by (simp_all add: db_wf_def open_table_def)
  then show ?thesis using c s(2) by (auto simp: synced_def)
qed

definition house_config :: config where
  "house_config =
     \<lparr>cf_Options = ev_opts house,
      cf_MQTT = \<lparr>mq_Host = ''core-mosquitto'', mq_Port = 1883, mq_Username = [], mq_Password = [], mq_TLS = False\<rparr>,
      cf_DatabasePath = ''/data/dt241m.sqlite''\<rparr>"

definition house_run :: "unit run_env" where
  "house_run =
     \<lparr>re_load = Inr house_config, re_fails = (\<lambda>_. None), re_parse_url = (\<lambda>_. None), re_refused = (\<lambda>_. None),
      re_transport = silent, re_pid = 7, re_version = ''2.1.0'', re_connected = True, re_world = house\<rparr>"

lemma legacy_db_opens:
  "Open (\<lambda>_. None) legacy_db = (None, legacy_db\<lparr>db_user_version := 1\<rparr>)"
  by (simp add: Open_def pragmas_def migrate_def adoptLegacySchema_def legacy_db_def schemaVersion_def run_migrations_done)

lemma run_ends:
  assumes "re_load re = Inr cfg" "Open (re_fails re) db = (None, db1)"
    and "(Connect (re_parse_url re) (re_refused re) (paho_options re cfg) :: go_error + (controller \<times> 'w) pahoConnection) = Inr conn"
    and "LoadAll (ev_db (deps re cfg db1) w) (open_table db1) = Inr adapters"
  shows "fst (run (re :: 'w run_env) inputs (db, w)) = None"
  using assms by (simp add: run_def Start_eq Let_def split: prod.splits)

lemma Connect_accepted: "\<exists>conn. Connect (\<lambda>_. None) (\<lambda>_. None) opts = Inr conn"
  by (cases "mq_TLS (po_Settings opts)"; cases "mq_Password (po_Settings opts) = []")
    (simp_all add: Connect_def clientConfig_def Let_def)

lemma house_run_ends: "fst (run house_run inputs (legacy_db, ())) = None"
proof -
  let ?db = "legacy_db\<lparr>db_user_version := 1\<rparr>"
  have o: "re_load house_run = Inr house_config" "Open (re_fails house_run) legacy_db = (None, ?db)"
    by (simp_all add: house_run_def legacy_db_opens)
  have l: "LoadAll (ev_db (deps house_run house_config ?db) ()) (open_table ?db)
      = Inr (map (\<lambda>(mac, c). scanned_adapter mac c) (sort_key fst (open_table ?db)))"
    by (simp add: deps_def house_run_def house_def legacy_db_def LoadAll_ok)
  obtain conn :: "(controller \<times> unit) pahoConnection" where
    "Connect (re_parse_url house_run) (re_refused house_run) (paho_options house_run house_config) = Inr conn"
    using Connect_accepted by (auto simp: house_run_def)
  from run_ends [OF o this l] show ?thesis .
qed

theorem program_restart_witness:
  "\<exists>db' w' db'' adapters. run house_run [PollTick, Reconnected] (legacy_db, ()) = (None, db', w') \<and> db_wf db'' \<and>
     Open (\<lambda>_. None) db' = (None, db'') \<and> LoadAll None (open_table db'') = Inr adapters"
proof -
  obtain db' w' where r: "run house_run [PollTick, Reconnected] (legacy_db, ()) = (None, db', w')"
    using house_run_ends [of "[PollTick, Reconnected]"] by (cases "run house_run [PollTick, Reconnected] (legacy_db, ())") auto
  have v: "db_user_version db' = 1"
  proof (rule run_None [OF r])
    fix cfg db1 assume "Open (re_fails house_run) legacy_db = (None, db1)"
      "db' = close_db db1 (fst (final_state house_run [PollTick, Reconnected] cfg db1 ()))"
    then show ?thesis using Open_keeps by (auto simp: close_db_def)
  qed
  then have o: "Open (\<lambda>_. None) db' = (None, db')"
    by (simp add: Open_def pragmas_def migrate_def schemaVersion_def run_migrations_done)
  obtain adapters where l: "LoadAll None (open_table db') = Inr adapters" by (simp add: LoadAll_ok)
  have "db_wf legacy_db" by code_simp
  moreover have "\<forall>w. ev_db (re_world house_run) w = None" by (simp add: house_run_def house_def)
  ultimately have "db_wf db'" using program_restart [OF _ _ r o l] by blast
  then show ?thesis using r o l by blast
qed

end
