(* ===== verification/Publish_Race.thy ===== *)
theory Publish_Race
  imports Publisher_View
begin

text \<open>
  Files \<open>internal/controller/publish.go\<close>, \<open>discovery.go\<close> (\<open>observe\<close>, \<open>markOffline\<close>) and \<open>controller.go\<close>
  (\<open>Rename\<close>): a goroutine changes the inventory under the registry's lock and publishes the
  result under the publisher's lock, and other goroutines come in between.  The state is the
  inventory, the publisher and the publications that are due, each with the snapshot its
  goroutine carries; any due publication may take the publisher's lock next.  One method of the
  publisher reads the inventory as of one moment.

  The comment on \<open>publisher\<close> says that two updates for the same adapter are not ordered against
  each other.  A step is \<open>in turn\<close> when it does not overtake a publication about one of its adapters.
\<close>

section \<open>Definitions\<close>

text \<open>The second half of \<open>observe\<close>, \<open>markOffline\<close>, \<open>Rename\<close> (accepted or rejected), \<open>scan\<close> and a sweep.\<close>

datatype pub_job =
    JobObservation observation
  | JobOffline adapter
  | JobRenamed adapter
  | JobRejected adapter
  | JobScanFinished
  | JobSweep

text \<open>The first half: what happens to the inventory, and what is to be published for it.\<close>

fun change :: "ha_event \<Rightarrow> registry \<Rightarrow> registry \<times> pub_job option" where
  "change (EvObserve order ip info now) r = map_prod id (map_option JobObservation) (RecordObservation order r ip info now)"
| "change (EvOffline m) r = map_prod id (map_option JobOffline) (MarkOffline r m)"
| "change (EvRename m n) r = map_prod id (map_option JobRenamed) (SetName r m n)"
| "change (EvRejectName m) r = (r, map_option JobRejected (Lookup r m))"
| "change EvScanFinished r = (r, Some JobScanFinished)"
| "change EvSweep r = (r, Some JobSweep)"

fun publish_job :: "registry \<Rightarrow> pub_job \<Rightarrow> publisher \<Rightarrow> publisher" where
  "publish_job r (JobObservation obs) p = p_observation r obs p"
| "publish_job r (JobOffline a) p = p_offline r a p"
| "publish_job r (JobRenamed a) p = p_renamed r a p"
| "publish_job r (JobRejected a) p = p_rejectedName a p"
| "publish_job r JobScanFinished p = p_scanFinished r p"
| "publish_job r JobSweep p = p_everything r p"

record shared =
  sh_registry :: registry
  sh_pub :: publisher
  sh_jobs :: "pub_job list"

definition change_step :: "ha_event \<Rightarrow> shared \<Rightarrow> shared" where
  "change_step e s =
     (case change e (sh_registry s) of
        (r, None) \<Rightarrow> s\<lparr>sh_registry := r\<rparr>
      | (r, Some j) \<Rightarrow> s\<lparr>sh_registry := r, sh_jobs := sh_jobs s @ [j]\<rparr>)"

definition publish_step :: "nat \<Rightarrow> shared \<Rightarrow> shared" where
  "publish_step i s =
     s\<lparr>sh_pub := publish_job (sh_registry s) (sh_jobs s ! i) (sh_pub s),
       sh_jobs := take i (sh_jobs s) @ drop (Suc i) (sh_jobs s)\<rparr>"

text \<open>The adapters a publication is about.\<close>

fun job_macs :: "pub_job \<Rightarrow> string set" where
  "job_macs (JobObservation obs) = insert (ad_MAC (ob_Adapter obs)) (ad_MAC ` set_option (ob_Displaced obs))"
| "job_macs (JobOffline a) = {ad_MAC a}"
| "job_macs (JobRenamed a) = {ad_MAC a}"
| "job_macs (JobRejected a) = {ad_MAC a}"
| "job_macs _ = {}"

definition in_turn :: "pub_job list \<Rightarrow> nat \<Rightarrow> bool" where
  "in_turn js i \<longleftrightarrow> i < length js \<and> list_all (\<lambda>j. job_macs j \<inter> job_macs (js ! i) = {}) (take i js)"

inductive race_step :: "shared \<Rightarrow> shared \<Rightarrow> bool" where
  changed: "ev_ok (sh_registry s) e \<Longrightarrow> race_step s (change_step e s)"
| published: "in_turn (sh_jobs s) i \<Longrightarrow> race_step s (publish_step i s)"

inductive race_run :: "shared \<Rightarrow> shared \<Rightarrow> bool" for s where
  none: "race_run s s"
| more: "race_run s t \<Longrightarrow> race_step t u \<Longrightarrow> race_run s u"

text \<open>Without goroutines in between, the two halves are one update as in \<open>Publisher_View\<close>.\<close>

lemma halves_of_update:
  "ha_step e (r, p) =
     (case change e r of (r', None) \<Rightarrow> (r', p) | (r', Some j) \<Rightarrow> (r', publish_job r' j p))"
  by (cases e) (auto split: prod.splits option.splits)

section \<open>The calls of a publication\<close>

text \<open>
  The calls about the adapters of a publication, with the catalogue they are made for, and the
  rest: counters, refreshed sources, or the whole sweep.
\<close>

fun own_calls :: "source_table \<Rightarrow> Origin \<Rightarrow> pub_job \<Rightarrow> publish_call list" where
  "own_calls table og (JobObservation obs) = observation_calls table og obs"
| "own_calls table og (JobOffline a) = c_availability a"
| "own_calls table og (JobRenamed a) = c_name a @ c_discovery table og a"
| "own_calls table og (JobRejected a) = c_name a"
| "own_calls table og _ = []"

fun recounts :: "pub_job \<Rightarrow> bool" where
  "recounts (JobObservation obs) \<longleftrightarrow> ob_CameOnline obs \<or> ob_Displaced obs \<noteq> None"
| "recounts (JobOffline a) \<longleftrightarrow> True"
| "recounts (JobRenamed a) \<longleftrightarrow> False"
| "recounts (JobRejected a) \<longleftrightarrow> False"
| "recounts _ \<longleftrightarrow> True"

fun refreshes :: "pub_job \<Rightarrow> bool" where
  "refreshes (JobObservation obs) \<longleftrightarrow> ad_Role (ob_Adapter obs) = RoleTransmitter \<or> ob_RoleChanged obs"
| "refreshes (JobRenamed a) \<longleftrightarrow> ad_Role a = RoleTransmitter"
| "refreshes JobSweep \<longleftrightarrow> True"
| "refreshes _ \<longleftrightarrow> False"

definition extra_calls :: "registry \<Rightarrow> publisher \<Rightarrow> pub_job \<Rightarrow> publish_call list" where
  "extra_calls r p j =
     (if j = JobSweep then c_everything r (pb_origin p)
      else (if recounts j \<and> pb_lastCounts p \<noteq> Some (Counts r) then c_counts (Counts r) else []) @
           (if refreshes j \<and> Sources r \<noteq> pb_lastSources p
            then concat (map (c_source (Sources r) (pb_origin p)) (All r)) else []))"

lemma emit_update:
  "emit cs (p\<lparr>pb_lastCounts := c\<rparr>) = (emit cs p)\<lparr>pb_lastCounts := c\<rparr>"
  "emit cs (p\<lparr>pb_lastSources := t\<rparr>) = (emit cs p)\<lparr>pb_lastSources := t\<rparr>"
  by (simp_all add: emit_def)

lemma publish_job_emit:
  "publish_job r j p =
     emit (own_calls (Sources r) (pb_origin p) j @ extra_calls r p j)
       (p\<lparr>pb_lastCounts := (if recounts j then Some (Counts r) else pb_lastCounts p),
          pb_lastSources := (if refreshes j then Sources r else pb_lastSources p)\<rparr>)"
proof (cases j)
  case (JobObservation obs)
  then show ?thesis
    by (simp add: p_observation_step pub_step_def Let_def p_counts_emit refreshSources_emit extra_calls_def emit_def)
qed (simp_all add: p_offline_def p_availability_emit p_counts_emit p_renamed_def p_name_emit p_discovery_def
    p_discoveryWith_emit refreshSources_emit p_rejectedName_def p_scanFinished_def p_everything_emit extra_calls_def
    emit_def Let_def)

section \<open>What does not depend on the catalogue\<close>

text \<open>
  The calls of a sweep without counters and sources: the controller's own messages, and of each
  adapter everything but a receiver's select entity and source.
\<close>

abbreviation current :: "registry \<Rightarrow> adapter \<Rightarrow> bool" where
  "current r a \<equiv> Lookup r (ad_MAC a) = Some a"

definition firm :: "registry \<Rightarrow> Origin \<Rightarrow> publish_call set" where
  "firm r og = set (c_controller og) \<union> (\<Union>a \<in> {a. current r a}. core_calls og a)"

lemma current_canonical: "reg_wf r \<Longrightarrow> current r a \<Longrightarrow> canonical_mac (ad_MAC a)"
  using in_All adapter_identity(1) by blast

lemma core_in_adapter: "core_calls og a \<subseteq> set (c_adapter table og a)"
  unfolding c_adapter_split by blast

lemma firm_in_sweep: "reg_wf r \<Longrightarrow> firm r og \<subseteq> set (c_everything r og)"
  unfolding firm_def set_c_everything using core_in_adapter by fast

lemma adapter_call_topic: "(t, v) \<in> set (c_adapter table og a) \<Longrightarrow> t \<in> own_topics (ad_MAC a)"
  using c_adapter_own by force

lemma controller_call_topic: "(t, v) \<in> set (c_controller og) \<union> set (c_counts c) \<Longrightarrow> t \<in> set controller_topics"
proof -
  assume "(t, v) \<in> set (c_controller og) \<union> set (c_counts c)"
  then have "t \<in> set (map fst (c_controller og @ c_counts c))" by force
  then show ?thesis unfolding controller_calls_topics .
qed

lemma firm_unique:
  assumes "reg_wf r" "(t, v) \<in> firm r og" "current r x" "(t, w) \<in> set (c_adapter table og x)"
  shows "w = v"
proof -
  note own = adapter_call_topic [OF assms(4)] and can = current_canonical [OF assms(1,3)]
  have "t \<notin> set controller_topics" by (rule controller_topics_not_own [OF can own])
  then obtain a where a: "current r a" "(t, v) \<in> core_calls og a"
    using assms(2) controller_call_topic unfolding firm_def by blast
  then have tv: "(t, v) \<in> set (c_adapter table og a)" using core_in_adapter by blast
  have "ad_MAC a = ad_MAC x"
    by (rule own_topics_disjoint [OF current_canonical [OF assms(1) a(1)] can adapter_call_topic [OF tv] own])
  then have "a = x" using a(1) assms(3) by (metis option.inject)
  then show ?thesis using tv assms(4) c_adapter_distinct eq_key_imp_eq_value by metis
qed

lemma broker_covered:
  assumes "t \<in> fst ` set cs"
  shows "broker cs b t = broker cs b' t"
  using assms
proof (induction cs arbitrary: b b')
  case (Cons c cs)
  show ?case
  proof (cases "t \<in> fst ` set cs")
    case True
    then show ?thesis unfolding broker_Cons by (rule Cons.IH)
  next
    case False
    then show ?thesis using Cons.prems by (simp add: broker_Cons broker_other)
  qed
qed simp

text \<open>The due publications, replayed in order on what the broker holds, would show the inventory.\<close>

definition due_calls :: "source_table \<Rightarrow> Origin \<Rightarrow> pub_job list \<Rightarrow> publish_call list" where
  "due_calls table og js = concat (map (own_calls table og) js)"

definition settled :: "registry \<Rightarrow> Origin \<Rightarrow> (string \<Rightarrow> string option) \<Rightarrow> pub_job list \<Rightarrow> bool" where
  "settled r og b js \<longleftrightarrow> (\<forall>table. \<forall>(t, v) \<in> firm r og. broker (due_calls table og js) b t = nonempty v)"

definition canonical_jobs :: "pub_job list \<Rightarrow> bool" where
  "canonical_jobs js \<longleftrightarrow> (\<forall>j \<in> set js. \<forall>m \<in> job_macs j. canonical_mac m)"

lemma broker_cong: "b t = b' t \<Longrightarrow> broker cs b t = broker cs b' t"
  by (cases "t \<in> fst ` set cs") (simp_all add: broker_other broker_covered [of t cs b b'])

lemma own_calls_topics: "map fst (own_calls table og j) = map fst (own_calls table' og j)"
proof -
  have d: "map fst (c_discovery table og a) = map fst (c_discovery table' og a)" for a
    by (simp only: c_discovery_topics)
  have s: "map fst (c_state table a) = map fst (c_state table' a)" for a
    by (cases "ad_Channel a") (simp_all add: c_state_def Let_def)
  show ?thesis by (cases j) (simp_all add: observation_calls_def Let_def d s)
qed

lemma due_calls_topics: "map fst (due_calls table og js) = map fst (due_calls table' og js)"
  by (induction js) (simp_all add: due_calls_def own_calls_topics [of table og _ table'])

lemma own_call_topic:
  assumes "(t, w) \<in> set (own_calls table og j)"
  shows "\<exists>m \<in> job_macs j. t \<in> own_topics m"
proof -
  have part: "set (c_availability a) \<union> set (c_name a) \<union> set (c_discovery table og a) \<union> set (c_state table a) \<subseteq> set (c_adapter table og a)" for a
    by (auto simp: c_adapter_def)
  have "\<exists>a. ad_MAC a \<in> job_macs j \<and> (t, w) \<in> set (c_adapter table og a)"
  proof (cases j)
    case (JobObservation obs)
    then show ?thesis using assms observation_calls_subset [of table og obs] by (fastforce split: option.splits)
  next
    case (JobRenamed a)
    then show ?thesis using assms part [of a] by (intro exI [of _ a]) auto
  next
    case (JobRejected a)
    then show ?thesis using assms part [of a] by (intro exI [of _ a]) auto
  next
    case (JobOffline a)
    then show ?thesis using assms part [of a] by (intro exI [of _ a]) auto
  qed (use assms in simp_all)
  then show ?thesis using adapter_call_topic by blast
qed

lemma due_call_topic: "t \<in> fst ` set (due_calls table og js) \<Longrightarrow> \<exists>j \<in> set js. \<exists>m \<in> job_macs j. t \<in> own_topics m"
  using own_call_topic by (fastforce simp: due_calls_def)

lemma settled_change:
  assumes wf: "reg_wf r'" and old: "settled r og b js"
    and own: "\<And>table t w. (t, w) \<in> set (own_calls table og j) \<Longrightarrow> \<exists>x. current r' x \<and> (t, w) \<in> set (c_adapter table og x)"
    and cover: "\<And>table. firm r' og \<subseteq> set (own_calls table og j) \<union> firm r og"
  shows "settled r' og b (js @ [j])"
  unfolding settled_def
proof (clarify)
  fix table t v
  assume tv: "(t, v) \<in> firm r' og"
  have uniq: "w = v" if "(t, w) \<in> set (own_calls table og j)" for w
    using own [OF that] firm_unique [OF wf tv] by blast
  show "broker (due_calls table og (js @ [j])) b t = nonempty v"
  proof (cases "(t, v) \<in> set (own_calls table og j)")
    case True
    then show ?thesis using broker_last [OF True uniq] by (simp add: due_calls_def broker_append)
  next
    case False
    then have "(t, v) \<in> firm r og" "t \<notin> fst ` set (own_calls table og j)" using tv cover [of table] uniq by auto
    then show ?thesis using old by (auto simp: settled_def due_calls_def broker_append broker_other)
  qed
qed

lemma settled_publish:
  assumes wf: "reg_wf r" and old: "settled r og b js" and turn: "in_turn js i" and can: "canonical_jobs js"
    and extra: "set extra \<subseteq> set (c_everything r og)"
  shows "settled r og (broker (own_calls (Sources r) og (js ! i) @ extra) b) (take i js @ drop (Suc i) js)"
  unfolding settled_def
proof (clarify)
  fix table t v
  assume tv: "(t, v) \<in> firm r og"
  let ?xs = "take i js" and ?j = "js ! i" and ?ys = "drop (Suc i) js"
  let ?b = "broker (own_calls (Sources r) og ?j @ extra) b"
  have js: "due_calls T og js = due_calls T og ?xs @ own_calls T og ?j @ due_calls T og ?ys" for T
  proof -
    have "js = ?xs @ ?j # ?ys" using turn by (simp add: in_turn_def id_take_nth_drop)
    then have "due_calls T og js = due_calls T og (?xs @ ?j # ?ys)" by simp
    then show ?thesis by (simp add: due_calls_def)
  qed
  have before: "broker (due_calls T og ?ys) (broker (own_calls T og ?j) (broker (due_calls T og ?xs) b)) t = nonempty v" for T
    using old tv unfolding settled_def js by (auto simp: broker_append)
  have apart: "t \<notin> fst ` set (own_calls T og ?j)" if xs: "t \<in> fst ` set (due_calls T og ?xs)" for T
  proof
    assume "t \<in> fst ` set (own_calls T og ?j)"
    then obtain m where m: "m \<in> job_macs ?j" "t \<in> own_topics m" using own_call_topic by fastforce
    obtain k n where k: "k \<in> set ?xs" "n \<in> job_macs k" "t \<in> own_topics n" using due_call_topic [OF xs] by blast
    have "canonical_mac m" "canonical_mac n"
      using can m(1) k(1,2) turn in_set_takeD [of k i js] unfolding canonical_jobs_def in_turn_def by (metis nth_mem)+
    then have "m = n" using own_topics_disjoint m(2) k(3) by blast
    then show False using turn m(1) k(1,2) by (auto simp: in_turn_def list_all_iff)
  qed
  have topics: "t \<in> fst ` set (due_calls T og zs) \<longleftrightarrow> t \<in> fst ` set (due_calls table og zs)" for T zs
    using due_calls_topics [of T og zs table] by (metis set_map)
  have "broker (due_calls table og ?ys) (broker (due_calls table og ?xs) ?b) t = nonempty v"
  proof (cases "t \<in> fst ` set (due_calls table og ?ys)")
    case True
    then show ?thesis using before [of table] broker_covered [OF True] by metis
  next
    case ys: False
    show ?thesis
    proof (cases "t \<in> fst ` set (due_calls table og ?xs)")
      case True
      then show ?thesis using before [of table] ys apart [OF True] broker_covered [OF True, of ?b b] by (simp add: broker_other)
    next
      case xs: False
      have "?b t = nonempty v"
      proof (cases "t \<in> fst ` set extra")
        case True
        have "(t, w) \<in> set extra \<Longrightarrow> w = v" for w
          using tv firm_in_sweep [OF wf] extra c_everything_distinct [OF wf] by (metis eq_key_imp_eq_value subsetD)
        then show ?thesis using True broker_last [of t v extra] by (fastforce simp: broker_append)
      next
        case False
        have "broker (due_calls (Sources r) og ?xs) b t = b t"
          by (rule broker_other) (use xs topics [of "Sources r" ?xs] in simp)
        then have "broker (own_calls (Sources r) og ?j) (broker (due_calls (Sources r) og ?xs) b) t = broker (own_calls (Sources r) og ?j) b t"
          by (rule broker_cong)
        then show ?thesis using before [of "Sources r"] ys topics [of "Sources r" ?ys] False by (simp add: broker_append broker_other)
      qed
      then show ?thesis using xs ys by (simp add: broker_other)
    qed
  qed
  then show "broker (due_calls table og (?xs @ ?ys)) ?b t = nonempty v" by (simp add: due_calls_def broker_append)
qed

section \<open>Changes of the inventory\<close>

text \<open>What a change and the publication it makes due have to do with each other.\<close>

definition announced :: "registry \<Rightarrow> registry \<Rightarrow> pub_job \<Rightarrow> bool" where
  "announced r r' j \<longleftrightarrow>
     (\<forall>og table. firm r' og \<subseteq> set (own_calls table og j) \<union> firm r og) \<and>
     (\<forall>og table. \<forall>(t, w) \<in> set (own_calls table og j). \<exists>x. current r' x \<and> (t, w) \<in> set (c_adapter table og x)) \<and>
     (\<forall>m \<in> job_macs j. canonical_mac m) \<and>
     (Counts r' = Counts r \<or> recounts j) \<and> (Sources r' = Sources r \<or> refreshes j)"

lemma announcedI:
  assumes wf: "reg_wf r'"
    and cover: "\<And>og table x. current r' x \<Longrightarrow> set (c_adapter table og x) \<subseteq> set (own_calls table og j) \<or>
      (\<exists>e. current r e \<and> core_calls og x \<subseteq> set (own_calls table og j) \<union> core_calls og e \<and>
        set (c_source table og x) \<subseteq> set (own_calls table og j) \<union> set (c_source table og e))"
    and own: "\<And>og table t w. (t, w) \<in> set (own_calls table og j) \<Longrightarrow> \<exists>x. current r' x \<and> (t, w) \<in> set (c_adapter table og x)"
    and macs: "\<And>m. m \<in> job_macs j \<Longrightarrow> \<exists>x. current r' x \<and> ad_MAC x = m"
    and "\<not> recounts j \<Longrightarrow> Counts r' = Counts r" "\<not> refreshes j \<Longrightarrow> Sources r' = Sources r"
  shows "announced r r' j"
proof -
  have "core_calls og x \<subseteq> set (own_calls table og j) \<union> firm r og" if "current r' x" for og table x
    using cover [OF that, of table og] core_in_adapter [of og x table] unfolding firm_def by blast
  then have "firm r' og \<subseteq> set (own_calls table og j) \<union> firm r og" for og table
    unfolding firm_def [of r'] by (auto simp: firm_def [of r])
  moreover have "canonical_mac m" if "m \<in> job_macs j" for m using macs [OF that] current_canonical [OF wf] by blast
  ultimately show ?thesis using own assms(5,6) unfolding announced_def by blast
qed

lemma observation_announced:
  assumes eff: "obs_effect r r' m ip info now obs"
  shows "announced r r' (JobObservation obs)"
proof (rule announcedI)
  show "reg_wf r'" using eff by (simp add: obs_effect_def)
  have macs: "current r' x" if "x = ob_Adapter obs \<or> ob_Displaced obs = Some x" for x
    using that eff by (auto simp: obs_effect_def)
  then show "\<exists>x. current r' x \<and> ad_MAC x = k" if "k \<in> job_macs (JobObservation obs)" for k using that by auto
  show "\<exists>x. current r' x \<and> (t, w) \<in> set (c_adapter table og x)"
    if "(t, w) \<in> set (own_calls table og (JobObservation obs))" for og table t w
    using that observation_calls_subset [of table og obs] macs by (fastforce split: option.splits)
  show "set (c_adapter table og x) \<subseteq> set (own_calls table og (JobObservation obs)) \<or>
      (\<exists>e. current r e \<and> core_calls og x \<subseteq> set (own_calls table og (JobObservation obs)) \<union> core_calls og e \<and>
        set (c_source table og x) \<subseteq> set (own_calls table og (JobObservation obs)) \<union> set (c_source table og e))"
    if x: "current r' x" for og table x
  proof (cases "ad_MAC x = m")
    case True
    then have "x = ob_Adapter obs" using x eff by (simp add: obs_effect_def)
    then show ?thesis using obs_effect_self [OF eff refl, where og = og and table = table] by simp
  next
    case False
    then show ?thesis using obs_effect_other [OF eff refl x, where og = og and table = table] by simp
  qed
qed (use obs_effect_counts [OF eff] obs_effect_sources [OF eff] in simp_all)

lemma offline_announced:
  assumes "reg_wf r" "MarkOffline r m = (r', Some a)"
  shows "announced r r' (JobOffline a)"
proof (rule announcedI)
  note eff = offline_effect [OF assms]
  show "reg_wf r'" "Sources r' = Sources r" by (rule eff)+
  show "\<exists>x. current r' x \<and> ad_MAC x = k" if "k \<in> job_macs (JobOffline a)" for k using that eff(2) by auto
  show "\<exists>x. current r' x \<and> (t, w) \<in> set (c_adapter table og x)"
    if "(t, w) \<in> set (own_calls table og (JobOffline a))" for og table t w
    using that eff(2) by (intro exI [of _ a]) (simp add: c_adapter_def)
  show "set (c_adapter table og x) \<subseteq> set (own_calls table og (JobOffline a)) \<or>
      (\<exists>e. current r e \<and> core_calls og x \<subseteq> set (own_calls table og (JobOffline a)) \<union> core_calls og e \<and>
        set (c_source table og x) \<subseteq> set (own_calls table og (JobOffline a)) \<union> set (c_source table og e))"
    if "current r' x" for og table x
    using eff(4) [OF that, where og = og and table = table] by simp
qed simp

lemma renamed_announced:
  assumes "reg_wf r" "SetName r m n = (r', Some a)"
  shows "announced r r' (JobRenamed a)"
proof (rule announcedI)
  note eff = renamed_effect [OF assms]
  show "reg_wf r'" "Counts r' = Counts r" by (rule eff)+
  show "Sources r' = Sources r" if "\<not> refreshes (JobRenamed a)" using that by (intro eff(4)) simp
  show "\<exists>x. current r' x \<and> ad_MAC x = k" if "k \<in> job_macs (JobRenamed a)" for k using that eff(2) by auto
  show "\<exists>x. current r' x \<and> (t, w) \<in> set (c_adapter table og x)"
    if "(t, w) \<in> set (own_calls table og (JobRenamed a))" for og table t w
    using that eff(2) by (intro exI [of _ a]) (auto simp: c_adapter_def)
  show "set (c_adapter table og x) \<subseteq> set (own_calls table og (JobRenamed a)) \<or>
      (\<exists>e. current r e \<and> core_calls og x \<subseteq> set (own_calls table og (JobRenamed a)) \<union> core_calls og e \<and>
        set (c_source table og x) \<subseteq> set (own_calls table og (JobRenamed a)) \<union> set (c_source table og e))"
    if "current r' x" for og table x
    using eff(5) [OF that, of table og] by simp
qed

lemma unchanged_announced:
  assumes "reg_wf r" "j = JobScanFinished \<or> j = JobSweep \<or> (\<exists>a. j = JobRejected a \<and> current r a)"
  shows "announced r r j"
proof (rule announcedI [OF assms(1)])
  show "\<exists>x. current r x \<and> ad_MAC x = k" if "k \<in> job_macs j" for k using that assms(2) by auto
  show "\<exists>x. current r x \<and> (t, w) \<in> set (c_adapter table og x)" if "(t, w) \<in> set (own_calls table og j)" for og table t w
    using that assms(2) by (auto simp: c_adapter_def)
qed auto

lemma change_announced:
  assumes "reg_wf r" "one_online_per_ip r" "ev_ok r e" "change e r = (r', x)"
  shows "reg_wf r' \<and> one_online_per_ip r' \<and> (case x of None \<Rightarrow> r' = r | Some j \<Rightarrow> announced r r' j)"
proof (cases e)
  case (EvObserve order ip info now)
  obtain res where rec: "RecordObservation order r ip info now = (r', res)" "x = map_option JobObservation res"
    using assms(4) EvObserve by (cases "RecordObservation order r ip info now") auto
  have "reg_wf r'" "one_online_per_ip r'"
    using RecordObservation_wf [of r info order ip now] RecordObservation_one_online [of r order info ip now] assms EvObserve rec
    by simp_all
  moreover have "r' = r" if "res = None"
    using rec that by (auto simp: RecordObservation_def Let_def split: if_splits prod.splits option.splits)
  moreover have "announced r r' (JobObservation obs)" if "res = Some obs" for obs
    using observation_announced [OF obs_effectI [of r order info ip now r' obs]] assms EvObserve rec that by simp
  ultimately show ?thesis using rec(2) by (cases res) simp_all
next
  case (EvOffline m)
  then obtain res where off: "MarkOffline r m = (r', res)" "x = map_option JobOffline res"
    using assms(4) by (cases "MarkOffline r m") auto
  then have "res = None \<Longrightarrow> r' = r" by (auto simp: MarkOffline_def Let_def split: option.splits if_splits)
  then show ?thesis using off assms MarkOffline_wf [of r m] MarkOffline_one_online [of r m] offline_announced [of r m r']
    by (cases res) auto
next
  case (EvRename m n)
  then obtain res where set: "SetName r m n = (r', res)" "x = map_option JobRenamed res"
    using assms(4) by (cases "SetName r m n") auto
  then have "res = None \<Longrightarrow> r' = r" by (auto simp: SetName_def Let_def split: option.splits)
  then show ?thesis using set assms SetName_wf [of r m n] SetName_one_online [of r m n] renamed_announced [of r m n r']
    by (cases res) auto
next
  case (EvRejectName m)
  then show ?thesis using assms reg_wfD [OF assms(1)]
    by (cases "Lookup r m") (auto intro!: unchanged_announced simp: Lookup_def)
qed (use assms unchanged_announced in auto)

section \<open>The invariant\<close>

definition counted :: "publisher \<Rightarrow> (string \<Rightarrow> string option) \<Rightarrow> bool" where
  "counted p b \<longleftrightarrow> (\<exists>c. pb_lastCounts p = Some c \<and> holds b (c_counts c))"

definition race_inv :: "(string \<Rightarrow> string option) \<Rightarrow> shared \<Rightarrow> bool" where
  "race_inv b0 s \<longleftrightarrow>
     (let r = sh_registry s; p = sh_pub s; js = sh_jobs s; b = broker (pb_sent p) b0 in
      reg_wf r \<and> one_online_per_ip r \<and> canonical_jobs js \<and> settled r (pb_origin p) b js \<and> counted p b \<and>
      (pb_lastCounts p = Some (Counts r) \<or> (\<exists>j \<in> set js. recounts j)) \<and>
      (pb_lastSources p = Sources r \<or> (\<exists>j \<in> set js. refreshes j)))"

lemma race_invI:
  "reg_wf r \<Longrightarrow> one_online_per_ip r \<Longrightarrow> canonical_jobs js \<Longrightarrow> settled r (pb_origin p) (broker (pb_sent p) b0) js \<Longrightarrow>
   counted p (broker (pb_sent p) b0) \<Longrightarrow>
   pb_lastCounts p = Some (Counts r) \<or> (\<exists>j \<in> set js. recounts j) \<Longrightarrow>
   pb_lastSources p = Sources r \<or> (\<exists>j \<in> set js. refreshes j) \<Longrightarrow>
   race_inv b0 \<lparr>sh_registry = r, sh_pub = p, sh_jobs = js\<rparr>"
  by (simp add: race_inv_def)

lemma race_start:
  assumes "reg_wf r" "one_online_per_ip r" "in_view r p b0"
  shows "race_inv b0 \<lparr>sh_registry = r, sh_pub = p, sh_jobs = []\<rparr>"
proof (rule race_invI)
  have view: "holds (broker (pb_sent p) b0) (c_everything r (pb_origin p))" "up_to_date r p"
    using assms(3) by (simp_all add: in_view_def shown_iff)
  show "settled r (pb_origin p) (broker (pb_sent p) b0) []"
    using view(1) firm_in_sweep [OF assms(1)] by (fastforce simp: settled_def due_calls_def holds_def)
  show "counted p (broker (pb_sent p) b0)"
    using view by (auto simp: counted_def up_to_date_def c_everything_def)
qed (use assms in \<open>simp_all add: canonical_jobs_def in_view_def up_to_date_def\<close>)

lemma change_inv:
  assumes inv: "race_inv b0 s" and ok: "ev_ok (sh_registry s) e"
  shows "race_inv b0 (change_step e s)"
proof -
  obtain r' x where ch: "change e (sh_registry s) = (r', x)" by (cases "change e (sh_registry s)")
  have wf: "reg_wf (sh_registry s)" "one_online_per_ip (sh_registry s)" using inv by (simp_all add: race_inv_def Let_def)
  note eff = change_announced [OF wf ok ch]
  show ?thesis
  proof (cases x)
    case None
    then show ?thesis using inv ch eff by (simp add: change_step_def race_inv_def Let_def)
  next
    case (Some j)
    then have ann: "announced (sh_registry s) r' j" using eff by simp
    have "settled r' (pb_origin (sh_pub s)) (broker (pb_sent (sh_pub s)) b0) (sh_jobs s @ [j])"
      by (rule settled_change) (use inv eff ann in \<open>auto simp: race_inv_def Let_def announced_def\<close>)
    moreover have "canonical_jobs (sh_jobs s @ [j])" using inv ann by (auto simp: race_inv_def Let_def announced_def canonical_jobs_def)
    ultimately show ?thesis using inv ch eff ann Some
      by (auto simp: change_step_def race_inv_def Let_def announced_def)
  qed
qed

text \<open>The counters at the broker are the ones remembered.\<close>

lemma counted_publish:
  assumes wf: "reg_wf r" and old: "counted p (broker (pb_sent p) b0)" and can: "canonical_jobs [j]"
  shows "counted (publish_job r j p) (broker (pb_sent (publish_job r j p)) b0)"
proof (cases "j = JobSweep")
  case True
  have "shown r (pb_origin p) (broker (c_everything r (pb_origin p)) (broker (pb_sent p) b0))"
    by (rule shown_established [OF wf])
  then show ?thesis using True
    by (simp add: p_everything_emit counted_def shown_iff c_everything_def broker_append)
next
  case False
  let ?own = "own_calls (Sources r) (pb_origin p) j"
  let ?cnt = "if recounts j \<and> pb_lastCounts p \<noteq> Some (Counts r) then c_counts (Counts r) else []"
  let ?src = "if refreshes j \<and> Sources r \<noteq> pb_lastSources p then concat (map (c_source (Sources r) (pb_origin p)) (All r)) else []"
  let ?b = "broker (pb_sent p) b0"
  have other: "t \<notin> fst ` set ?own" "t \<notin> fst ` set ?src" if t: "t \<in> set controller_topics" for t
  proof -
    show "t \<notin> fst ` set ?own"
      using own_call_topic can controller_topics_not_own t unfolding canonical_jobs_def by fastforce
    have "t \<notin> fst ` set (c_source (Sources r) (pb_origin p) x)" if "current r x" for x
    proof
      assume "t \<in> fst ` set (c_source (Sources r) (pb_origin p) x)"
      then obtain v where "(t, v) \<in> set (c_adapter (Sources r) (pb_origin p) x)" unfolding c_adapter_split by fastforce
      then show False
        using controller_topics_not_own [OF current_canonical [OF wf that] adapter_call_topic] t by blast
    qed
    then show "t \<notin> fst ` set ?src" using in_All [OF wf] by auto
  qed
  have calls: "fst c \<in> set controller_topics" if "c \<in> set (c_counts n)" for c n
    using controller_call_topic [of "fst c" "snd c" _ n] that by simp
  have new: "holds (broker (?own @ c_counts n @ ?src) ?b) (c_counts n)" for n
  proof -
    have "broker (?own @ c_counts n @ ?src) ?b t = nonempty v" if "(t, v) \<in> set (c_counts n)" for t v
    proof -
      have "broker (c_counts n) (broker ?own ?b) t = nonempty v"
        by (rule broker_last [OF that]) (use that in \<open>auto simp: c_counts_def topic_defs\<close>)
      moreover have "t \<in> set controller_topics" using calls [OF that] by simp
      ultimately show ?thesis using other(2) by (simp add: broker_append broker_other)
    qed
    then show ?thesis by (auto simp: holds_def)
  qed
  have keep: "holds (broker (?own @ ?src) ?b) (c_counts n)" if "holds ?b (c_counts n)" for n
  proof -
    have "broker (?own @ ?src) ?b t = ?b t" if "(t, v) \<in> set (c_counts n)" for t v
    proof -
      have "t \<in> set controller_topics" using calls [OF that] by simp
      then show ?thesis using other by (simp add: broker_append broker_other)
    qed
    then show ?thesis using that by (auto simp: holds_def)
  qed
  obtain c where c: "pb_lastCounts p = Some c" "holds ?b (c_counts c)" using old by (auto simp: counted_def)
  show ?thesis
  proof (cases "recounts j \<and> c \<noteq> Counts r")
    case True
    then show ?thesis using new [of "Counts r"] False c(1)
      by (simp add: publish_job_emit extra_calls_def counted_def broker_append)
  next
    case False
    then show ?thesis using keep [OF c(2)] \<open>j \<noteq> JobSweep\<close> c(1)
      by (auto simp: publish_job_emit extra_calls_def counted_def broker_append)
  qed
qed

lemma extra_in_sweep:
  assumes "reg_wf r"
  shows "set (extra_calls r p j) \<subseteq> set (c_everything r (pb_origin p))"
proof (cases "j = JobSweep")
  case False
  have "set ([] @ (if recounts j \<and> pb_lastCounts p \<noteq> Some (Counts r) then c_counts (Counts r) else []) @
      (if refreshes j \<and> Sources r \<noteq> pb_lastSources p then concat (map (c_source (Sources r) (pb_origin p)) (All r)) else []))
    \<subseteq> set (c_everything r (pb_origin p))"
    by (rule update_calls_subset [OF assms]) auto
  then show ?thesis using False by (simp add: extra_calls_def)
qed (simp add: extra_calls_def)

lemma publish_inv:
  assumes inv: "race_inv b0 s" and turn: "in_turn (sh_jobs s) i"
  shows "race_inv b0 (publish_step i s)"
proof -
  let ?r = "sh_registry s" and ?p = "sh_pub s" and ?js = "sh_jobs s" and ?j = "sh_jobs s ! i"
  let ?rest = "take i ?js @ drop (Suc i) ?js"
  have wf: "reg_wf ?r" and can: "canonical_jobs ?js" using inv by (simp_all add: race_inv_def Let_def)
  have i: "i < length ?js" using turn by (simp add: in_turn_def)
  then have js: "set ?js = insert ?j (set ?rest)" using id_take_nth_drop [OF i] by (metis Un_insert_right list.simps(15) set_append)
  have "settled ?r (pb_origin ?p) (broker (own_calls (Sources ?r) (pb_origin ?p) ?j @ extra_calls ?r ?p ?j) (broker (pb_sent ?p) b0)) ?rest"
    by (rule settled_publish [OF wf _ turn can extra_in_sweep [OF wf]]) (use inv in \<open>simp add: race_inv_def Let_def\<close>)
  moreover have "counted (publish_job ?r ?j ?p) (broker (pb_sent (publish_job ?r ?j ?p)) b0)"
    by (rule counted_publish [OF wf]) (use inv can js in \<open>auto simp: race_inv_def Let_def canonical_jobs_def\<close>)
  moreover have "canonical_jobs ?rest" using can js by (auto simp: canonical_jobs_def)
  ultimately show ?thesis using inv js
    by (auto simp: publish_step_def race_inv_def Let_def publish_job_emit broker_append)
qed

lemma race_run_inv: "race_run s s' \<Longrightarrow> race_inv b0 s \<Longrightarrow> race_inv b0 s'"
proof (induction rule: race_run.induct)
  case (more t u)
  then show ?case using change_inv publish_inv by (auto elim!: race_step.cases)
qed simp

section \<open>A run that leaves a source stale\<close>

text \<open>
  A transmitter moves from channel 3 to channel 4 and back.  In between, a receiver moves to channel 3 and
  its publication comes before those of the transmitter.
\<close>

definition tx_on :: "int \<Rightarrow> ha_event" where
  "tx_on c = EvObserve [''fc:19:28:6c:d2:91'', ''fc:19:28:6c:d6:d8''] ''10.0.0.2'' (tx_info\<lparr>di_ChannelID := c\<rparr>) 2000"

definition rx_on :: "int \<Rightarrow> ha_event" where
  "rx_on c = EvObserve [''fc:19:28:6c:d2:91'', ''fc:19:28:6c:d6:d8''] ''10.0.0.1'' (rx_info\<lparr>di_ChannelID := c\<rparr>) 1000"

definition tx_with :: "int \<Rightarrow> adapter" where
  "tx_with c = new_adapter ''fc:19:28:6c:d2:91'' ''10.0.0.2'' (tx_info\<lparr>di_ChannelID := c\<rparr>) 2000"

definition rx_with :: "int \<Rightarrow> adapter" where
  "rx_with c = new_adapter ''fc:19:28:6c:d6:d8'' ''10.0.0.1'' (rx_info\<lparr>di_ChannelID := c\<rparr>) 1000"

definition pair_on :: "int \<Rightarrow> int \<Rightarrow> registry" where
  "pair_on tx rx = [(''fc:19:28:6c:d2:91'', tx_with tx), (''fc:19:28:6c:d6:d8'', rx_with rx)]"

definition moved :: "adapter \<Rightarrow> pub_job" where
  "moved a = JobObservation
     \<lparr>ob_Adapter = a, ob_Created = False, ob_CameOnline = False, ob_StateChanged = True, ob_MetadataChanged = False,
      ob_RoleChanged = False, ob_PreviousIP = [], ob_Displaced = None\<rparr>"

lemma pair_changes:
  "change (tx_on 4) (pair_on 3 2) = (pair_on 4 2, Some (moved (tx_with 4)))"
  "change (rx_on 3) (pair_on 4 2) = (pair_on 4 3, Some (moved (rx_with 3)))"
  "change (tx_on 3) (pair_on 4 3) = (pair_on 3 3, Some (moved (tx_with 3)))"
  by code_simp+

lemma pair_wf: "reg_wf (pair_on 3 2)" "one_online_per_ip (pair_on 3 2)"
  by code_simp+

lemma pair_sources:
  "Sources (pair_on 3 3) = [\<lparr>src_Label = ''ET01_286CD291'', src_MAC = ''fc:19:28:6c:d2:91'', src_Channel = 3\<rparr>]"
  "Sources (pair_on 3 2) = [\<lparr>src_Label = ''ET01_286CD291'', src_MAC = ''fc:19:28:6c:d2:91'', src_Channel = 3\<rparr>]"
  "Sources (pair_on 4 3) = [\<lparr>src_Label = ''ET01_286CD291'', src_MAC = ''fc:19:28:6c:d2:91'', src_Channel = 4\<rparr>]"
  by code_simp+

lemma pair_fields [simp]:
  "ad_MAC (tx_with c) = ''fc:19:28:6c:d2:91''" "ad_Role (tx_with c) = RoleTransmitter" 
  "ad_MAC (rx_with c) = ''fc:19:28:6c:d6:d8''" "ad_Role (rx_with c) = RoleReceiver" 
  "ad_Channel (tx_with c) = Some c" "ad_Channel (rx_with c) = Some c" "ad_IP (tx_with c) = ''10.0.0.2''" "ad_IP (rx_with c) = ''10.0.0.1''"
  unfolding tx_with_def rx_with_def by (simp add: new_adapter_def; code_simp)+

lemma moved_simps [simp]:
  "own_calls table og (moved a) = c_state table a" "\<not> recounts (moved a)" "refreshes (moved a) \<longleftrightarrow> ad_Role a = RoleTransmitter"
  "job_macs (moved a) = {ad_MAC a}" "moved a \<noteq> JobSweep"
  by (simp_all add: moved_def observation_calls_def)

text \<open>The publication of a receiver, and that of a transmitter whose catalogue was published before.\<close>

lemma publish_moved:
  "ad_Role a \<noteq> RoleTransmitter \<Longrightarrow> publish_job r (moved a) p = emit (c_state (Sources r) a) p"
  "Sources r = pb_lastSources p \<Longrightarrow> publish_job r (moved a) p = emit (c_state (Sources r) a) p"
  by (simp_all add: publish_job_emit extra_calls_def)

definition before_move :: shared where
  "before_move = \<lparr>sh_registry = pair_on 3 2, sh_pub = p_everything (pair_on 3 2) fresh_publisher, sh_jobs = []\<rparr>"

definition after_move :: shared where
  "after_move =
     \<lparr>sh_registry = pair_on 3 3,
      sh_pub = emit (c_state (Sources (pair_on 3 3)) (tx_with 3)) (emit (c_state (Sources (pair_on 3 3)) (tx_with 4))
        (emit (c_state (Sources (pair_on 4 3)) (rx_with 3)) (p_everything (pair_on 3 2) fresh_publisher))),
      sh_jobs = []\<rparr>"

lemma move_run: "race_run before_move after_move"
proof -
  let ?p0 = "p_everything (pair_on 3 2) fresh_publisher"
  let ?p1 = "emit (c_state (Sources (pair_on 4 3)) (rx_with 3)) ?p0"
  let ?p2 = "emit (c_state (Sources (pair_on 3 3)) (tx_with 4)) ?p1"
  let ?s1 = "\<lparr>sh_registry = pair_on 4 2, sh_pub = ?p0, sh_jobs = [moved (tx_with 4)]\<rparr>"
  let ?s2 = "\<lparr>sh_registry = pair_on 4 3, sh_pub = ?p0, sh_jobs = [moved (tx_with 4), moved (rx_with 3)]\<rparr>"
  let ?s3 = "\<lparr>sh_registry = pair_on 4 3, sh_pub = ?p1, sh_jobs = [moved (tx_with 4)]\<rparr>"
  let ?s4 = "\<lparr>sh_registry = pair_on 3 3, sh_pub = ?p1, sh_jobs = [moved (tx_with 4), moved (tx_with 3)]\<rparr>"
  let ?s5 = "\<lparr>sh_registry = pair_on 3 3, sh_pub = ?p2, sh_jobs = [moved (tx_with 3)]\<rparr>"
  have ok: "ev_ok (pair_on 3 2) (tx_on 4)" "ev_ok (pair_on 4 2) (rx_on 3)" "ev_ok (pair_on 4 3) (tx_on 3)"
    by (simp_all add: tx_on_def rx_on_def pair_on_def ValidChannel_iff)
  have last: "pb_lastSources ?p0 = Sources (pair_on 3 3)" by (simp add: p_everything_emit pair_sources)
  have roles: "RoleReceiver \<noteq> RoleTransmitter" by (simp add: RoleReceiver_def RoleTransmitter_def)
  have s1: "race_step before_move ?s1" using changed [of before_move "tx_on 4"] ok
    by (simp add: before_move_def change_step_def pair_changes)
  have s2: "race_step ?s1 ?s2" using changed [of ?s1 "rx_on 3"] ok by (simp add: change_step_def pair_changes)
  have s3: "race_step ?s2 ?s3" using published [of ?s2 1] roles
    by (simp add: publish_step_def publish_moved(1) in_turn_def)
  have s4: "race_step ?s3 ?s4" using changed [of ?s3 "tx_on 3"] ok by (simp add: change_step_def pair_changes)
  have s5: "race_step ?s4 ?s5" using published [of ?s4 0] last by (simp add: publish_step_def publish_moved(2) in_turn_def)
  have s6: "race_step ?s5 after_move" using published [of ?s5 0] last
    by (simp add: publish_step_def publish_moved(2) in_turn_def after_move_def)
  show ?thesis
    by (rule race_run.none [THEN race_run.more [OF _ s1], THEN race_run.more [OF _ s2], THEN race_run.more [OF _ s3],
          THEN race_run.more [OF _ s4], THEN race_run.more [OF _ s5], THEN race_run.more [OF _ s6]])
qed

text \<open>
  Nothing is due any more, and the catalogue remembered is the current one, but the receiver's
  source says that nobody sends on its channel.
\<close>

lemma source_left_stale:
  "sh_jobs after_move = []" "up_to_date (pair_on 3 3) (sh_pub after_move)"
  "broker (pb_sent (sh_pub after_move)) b0 (tp_SourceState (ForDevice (ad_MAC (rx_with 3)))) = Some SourceNone"
  "ForChannel (Sources (pair_on 3 3)) (ad_Channel (rx_with 3)) = ''ET01_286CD291''"
proof -
  show "sh_jobs after_move = []" by (simp add: after_move_def)
  have "Counts (pair_on 3 3) = Counts (pair_on 3 2)" by code_simp
  then show "up_to_date (pair_on 3 3) (sh_pub after_move)"
    by (simp add: after_move_def up_to_date_def p_everything_emit pair_sources)
  show "ForChannel (Sources (pair_on 3 3)) (ad_Channel (rx_with 3)) = ''ET01_286CD291''"
    unfolding pair_sources pair_fields by code_simp
  have none: "ForChannel (Sources (pair_on 4 3)) (Some 3) = SourceNone" unfolding pair_sources by code_simp
  have roles: "RoleTransmitter \<noteq> RoleReceiver" by (simp add: RoleReceiver_def RoleTransmitter_def)
  have bases: "Compact ''fc:19:28:6c:d2:91'' = ''fc19286cd291''" "Compact ''fc:19:28:6c:d6:d8'' = ''fc19286cd6d8''" by code_simp+
  show "broker (pb_sent (sh_pub after_move)) b0 (tp_SourceState (ForDevice (ad_MAC (rx_with 3)))) = Some SourceNone"
    by (simp add: after_move_def broker_append c_state_def Let_def roles none bases device_base_def SourceNone_def)
qed

section \<open>Properties\<close>

text \<open>The topics a receiver's choice of source is published on.\<close>

definition source_topics :: "registry \<Rightarrow> string set" where
  "source_topics r =
     (\<Union>x \<in> {x. current r x \<and> ad_Role x = RoleReceiver}.
        {tp_SourceState (ForDevice (ad_MAC x)), HADiscoveryTopic ''select'' (DeviceNodeID (ad_MAC x)) ''source''})"

lemma c_source_topics: "current r x \<Longrightarrow> (t, v) \<in> set (c_source table og x) \<Longrightarrow> t \<in> source_topics r"
  by (auto simp: source_topics_def c_source_def Let_def ReceiverSource_def build_def sourceSelect_def split: if_splits)

lemma availability_no_source:
  assumes "reg_wf r" "current r a"
  shows "tp_Availability (ForDevice (ad_MAC a)) \<notin> source_topics r"
  using device_topic_inj [OF current_canonical current_canonical, OF assms assms(1)] state_not_config
  by (auto simp: source_topics_def)

lemma due_can_settle: "\<exists>s'. race_run s s' \<and> sh_registry s' = sh_registry s \<and> sh_jobs s' = []"
proof (induction "length (sh_jobs s)" arbitrary: s)
  case 0
  then show ?case using race_run.none by auto
next
  case (Suc n)
  then have "in_turn (sh_jobs s) 0" "length (sh_jobs (publish_step 0 s)) = n" "sh_registry (publish_step 0 s) = sh_registry s"
    by (auto simp: in_turn_def publish_step_def)
  moreover from this Suc.hyps(1) [of "publish_step 0 s"] obtain s' where
    "race_run (publish_step 0 s) s'" "sh_registry s' = sh_registry s" "sh_jobs s' = []" by auto
  moreover have "race_run a c" if "race_run b c" "race_step a b" for a b c
    using that by (induction rule: race_run.induct) (auto intro: race_run.intros)
  ultimately show ?case using published [of s 0] by blast
qed

text \<open>C16: the goroutines may interleave in any way that does not let a publication overtake another
  one about the same adapter: however the inventory changes while publications are due, these can
  always be completed; and when none is due, every message that the specification asks for is at
  the broker - availability, names, channels, addresses, roles, configurations and
  counters - with the possible exception of the receivers' choice of source (see
  \<open>source_left_stale\<close>), the publisher's memory is right, and the next sweep shows everything.\<close>

theorem races_settle:
  assumes "reg_wf r" "one_online_per_ip r" "in_view r p b0"
    and "race_run \<lparr>sh_registry = r, sh_pub = p, sh_jobs = []\<rparr> s"
  shows "(\<exists>s'. race_run s s' \<and> sh_registry s' = sh_registry s \<and> sh_jobs s' = [])
    \<and> (sh_jobs s = [] \<longrightarrow>
        (\<forall>(t, v) \<in> set (c_everything (sh_registry s) (pb_origin (sh_pub s))).
            t \<notin> source_topics (sh_registry s) \<longrightarrow> broker (pb_sent (sh_pub s)) b0 t = nonempty v)
      \<and> up_to_date (sh_registry s) (sh_pub s)
      \<and> shown (sh_registry s) (pb_origin (sh_pub s)) (broker (pb_sent (p_everything (sh_registry s) (sh_pub s))) b0))"
proof (intro conjI impI)
  let ?r = "sh_registry s" and ?og = "pb_origin (sh_pub s)" and ?b = "broker (pb_sent (sh_pub s)) b0"
  show "\<exists>s'. race_run s s' \<and> sh_registry s' = sh_registry s \<and> sh_jobs s' = []" by (rule due_can_settle)
  have inv: "race_inv b0 s" using race_run_inv [OF assms(4) race_start [OF assms(1-3)]] .
  then have wf: "reg_wf ?r" by (simp add: race_inv_def Let_def)
  show "shown ?r ?og (broker (pb_sent (p_everything ?r (sh_pub s))) b0)"
    using shown_established [OF wf] by (simp add: p_everything_emit broker_append)
  assume empty: "sh_jobs s = []"
  then show up: "up_to_date ?r (sh_pub s)" using inv by (simp add: race_inv_def Let_def up_to_date_def)
  have firm: "?b t = nonempty v" if "(t, v) \<in> firm ?r ?og" for t v
    using inv that empty by (fastforce simp: race_inv_def Let_def settled_def due_calls_def)
  have counters: "?b t = nonempty v" if "(t, v) \<in> set (c_counts (Counts ?r))" for t v
    using inv up that by (auto simp: race_inv_def Let_def counted_def up_to_date_def holds_def)
  show "\<forall>(t, v) \<in> set (c_everything ?r ?og). t \<notin> source_topics ?r \<longrightarrow> ?b t = nonempty v"
    unfolding set_c_everything [OF wf] c_adapter_split
  proof (clarify)
    fix t v
    assume t: "t \<notin> source_topics ?r"
      and "(t, v) \<in> set (c_controller ?og) \<union> set (c_counts (Counts ?r)) \<union>
        (\<Union>a \<in> {a. current ?r a}. core_calls ?og a \<union> set (c_source (Sources ?r) ?og a))"
    then consider "(t, v) \<in> firm ?r ?og" | "(t, v) \<in> set (c_counts (Counts ?r))"
      | a where "current ?r a" "(t, v) \<in> set (c_source (Sources ?r) ?og a)" unfolding firm_def by blast
    then show "?b t = nonempty v" using firm counters c_source_topics t by cases blast+
  qed
qed

text \<open>In the run above, the availability is right and the next sweep repairs the stale source.\<close>

theorem races_settle_witness:
  "broker (pb_sent (sh_pub after_move)) (\<lambda>_. None) (tp_Availability (ForDevice (ad_MAC (rx_with 3)))) = Some PayloadOnline
    \<and> broker (pb_sent (p_everything (pair_on 3 3) (sh_pub after_move))) (\<lambda>_. None) (tp_SourceState (ForDevice (ad_MAC (rx_with 3))))
        = Some ''ET01_286CD291''"
proof -
  let ?r = "pair_on 3 3" and ?a = "rx_with 3"
  have reg: "sh_registry after_move = ?r" "sh_jobs after_move = []" by (simp_all add: after_move_def)
  have view: "in_view (pair_on 3 2) (p_everything (pair_on 3 2) fresh_publisher) (\<lambda>_. None)"
    by (rule everything_in_view [OF pair_wf(1)]) (simp add: quiet_def fresh_publisher_def)
  note facts = races_settle [OF pair_wf view move_run [unfolded before_move_def], unfolded reg]
  have on: "ad_Online ?a" by (simp add: rx_with_def new_adapter_def)
  have wf: "reg_wf ?r" by code_simp
  have cur: "current ?r ?a" by (simp add: pair_on_def Lookup_def)
  have "(tp_Availability (ForDevice (ad_MAC ?a)), PayloadOnline) \<in> set (c_adapter (Sources ?r) (pb_origin (sh_pub after_move)) ?a)"
    using on by (simp add: c_adapter_def c_availability_def)
  then have "(tp_Availability (ForDevice (ad_MAC ?a)), PayloadOnline) \<in> set (c_everything ?r (pb_origin (sh_pub after_move)))"
    using cur unfolding set_c_everything [OF wf] by blast
  moreover have "tp_Availability (ForDevice (ad_MAC ?a)) \<notin> source_topics ?r"
    by (rule availability_no_source [OF wf cur])
  ultimately have "broker (pb_sent (sh_pub after_move)) (\<lambda>_. None) (tp_Availability (ForDevice (ad_MAC ?a))) = Some PayloadOnline"
    using facts by fastforce
  moreover have "adapter_shown (Sources ?r) (pb_origin (sh_pub after_move)) (broker (pb_sent (p_everything ?r (sh_pub after_move))) (\<lambda>_. None)) ?a"
    using facts cur in_All [OF wf, of ?a] unfolding shown_def list_all_iff by blast
  ultimately show ?thesis using source_left_stale(4) by (simp add: adapter_shown_def Let_def)
qed

end
