(* ===== verification/Persist_Race.thy ===== *)
theory Persist_Race
  imports Controller_Store
begin

text \<open>
  Files \<open>internal/controller/discovery.go\<close> (\<open>observe\<close>, \<open>markOffline\<close>, \<open>persist\<close>) and \<open>controller.go\<close>
  (\<open>Rename\<close>): a goroutine changes the inventory under the registry's lock and saves the snapshot
  it got later, and other goroutines come in between.  The state is the inventory, the store and
  the saves that are due.  The driver does not fail.  A save is in turn when it does not
  overtake one of the same adapter.  The argument needs only the laws of \<open>adapter_store\<close>, so it
  is made once and holds for the database and for the store of the tests.
\<close>

section \<open>Definitions\<close>

datatype save_job = SaveAdapter adapter | SaveName string "string option"

text \<open>What happens to the inventory, and what is to be saved for it.\<close>

fun save_due :: "ha_event \<Rightarrow> registry \<Rightarrow> registry \<times> save_job option" where
  "save_due (EvObserve order ip info now) r =
     (case RecordObservation order r ip info now of
        (r', Some obs) \<Rightarrow> (r', if Changed obs then Some (SaveAdapter (ob_Adapter obs)) else None)
      | (r', None) \<Rightarrow> (r', None))"
| "save_due (EvOffline m) r = map_prod id (map_option SaveAdapter) (MarkOffline r m)"
| "save_due (EvRename m n) r = map_prod id (map_option (\<lambda>a. SaveName m n)) (SetName r m n)"
| "save_due _ r = (r, None)"

record 's saving =
  sv_registry :: registry
  sv_store :: 's
  sv_due :: "save_job list"

definition due_step :: "ha_event \<Rightarrow> 's saving \<Rightarrow> 's saving" where
  "due_step e s =
     (case save_due e (sv_registry s) of (r, j) \<Rightarrow>
        s\<lparr>sv_registry := r, sv_due := sv_due s @ (case j of None \<Rightarrow> [] | Some j \<Rightarrow> [j])\<rparr>)"

text \<open>\<open>run\<close> is how a store performs a save.\<close>

definition save_step :: "(save_job \<Rightarrow> 's \<Rightarrow> 's) \<Rightarrow> nat \<Rightarrow> 's saving \<Rightarrow> 's saving" where
  "save_step run i s =
     s\<lparr>sv_store := run (sv_due s ! i) (sv_store s), sv_due := take i (sv_due s) @ drop (Suc i) (sv_due s)\<rparr>"

fun save_mac :: "save_job \<Rightarrow> string" where
  "save_mac (SaveAdapter a) = ad_MAC a"
| "save_mac (SaveName m n) = m"

definition save_in_turn :: "save_job list \<Rightarrow> nat \<Rightarrow> bool" where
  "save_in_turn js i \<longleftrightarrow> i < length js \<and> list_all (\<lambda>j. save_mac j \<noteq> save_mac (js ! i)) (take i js)"

inductive saving_step :: "(save_job \<Rightarrow> 's \<Rightarrow> 's) \<Rightarrow> 's saving \<Rightarrow> 's saving \<Rightarrow> bool" for run where
  changed: "ev_ok (sv_registry s) e \<Longrightarrow> saving_step run s (due_step e s)"
| saved: "save_in_turn (sv_due s) i \<Longrightarrow> saving_step run s (save_step run i s)"

inductive saving_run :: "(save_job \<Rightarrow> 's \<Rightarrow> 's) \<Rightarrow> 's saving \<Rightarrow> 's saving \<Rightarrow> bool" for run s where
  none: "saving_run run s s"
| more: "saving_run run s t \<Longrightarrow> saving_step run t u \<Longrightarrow> saving_run run s u"

text \<open>The database and the store of the tests.\<close>

fun save_sqlite :: "save_job \<Rightarrow> adapters_table \<Rightarrow> adapters_table" where
  "save_sqlite (SaveAdapter a) t = snd (Save None a t)"
| "save_sqlite (SaveName m n) t = snd (store_SetName None m n t)"

fun save_memory :: "save_job \<Rightarrow> memory_store \<Rightarrow> memory_store" where
  "save_memory (SaveAdapter a) s = mem_Save a s"
| "save_memory (SaveName m n) s = snd (mem_SetName m n s)"

section \<open>What a change makes due\<close>

text \<open>The effect of a save on what is kept of one adapter.\<close>

fun cell :: "(adapter \<Rightarrow> adapter) \<Rightarrow> save_job \<Rightarrow> string \<Rightarrow> adapter option \<Rightarrow> adapter option" where
  "cell persisted (SaveAdapter a) m x =
     (if m = ad_MAC a
      then Some (case x of None \<Rightarrow> persisted a | Some b \<Rightarrow> (persisted a)\<lparr>ad_Name := ad_Name b\<rparr>) else x)"
| "cell persisted (SaveName k n) m x = (if m = k then map_option (ad_Name_update (\<lambda>_. n)) x else x)"

definition job_ok :: "save_job \<Rightarrow> bool" where
  "job_ok j \<longleftrightarrow> (case j of SaveAdapter a \<Rightarrow> adapter_wf a | SaveName m n \<Rightarrow> True)"

abbreviation same_kept :: "adapter option \<Rightarrow> adapter option \<Rightarrow> bool" where
  "same_kept x y \<equiv> map_option kept x = map_option kept y"

lemma same_kept_name: "same_kept x (Some b) \<Longrightarrow> \<exists>a. x = Some a \<and> ad_Name a = ad_Name b"
  by (cases x) (auto dest: kept_eqD)

lemma cell_other: "m \<noteq> save_mac j \<Longrightarrow> cell persisted j m x = x"
  by (cases j) simp_all

lemma fold_cell_other: "list_all (\<lambda>j. m \<noteq> save_mac j) js \<Longrightarrow> fold (\<lambda>j. cell persisted j m) js x = x"
  by (induction js) (simp_all add: cell_other)

text \<open>A snapshot under the name that the inventory had.\<close>

lemma cell_snapshot:
  assumes "kept (persisted a) = kept a" "same_kept x (Lookup r (ad_MAC a))"
    and "\<And>b. Lookup r (ad_MAC a) = Some b \<Longrightarrow> ad_Name a = ad_Name b"
  shows "same_kept (cell persisted (SaveAdapter a) (ad_MAC a) x) (Some a)"
proof (cases x)
  case (Some b)
  then obtain e where "Lookup r (ad_MAC a) = Some e" "ad_Name e = ad_Name b"
    using assms(2) same_kept_name [of "Lookup r (ad_MAC a)" b] by (metis)
  then have "ad_Name b = ad_Name a" using assms(3) by simp
  moreover have "(kept a)\<lparr>ad_Name := ad_Name a\<rparr> = kept a" by (cases a) (simp add: kept_def)
  ultimately show ?thesis using Some assms(1) by simp
qed (simp add: assms(1))

lemma due_cell:
  assumes wf: "reg_wf r" "one_online_per_ip r" and ok: "ev_ok r e" and due: "save_due e r = (r', x)"
    and pers: "\<And>a. adapter_wf a \<Longrightarrow> kept (persisted a) = kept a"
  shows "reg_wf r' \<and> one_online_per_ip r' \<and> (\<forall>j. x = Some j \<longrightarrow> job_ok j) \<and>
    (\<forall>m y. same_kept y (Lookup r m) \<longrightarrow>
       same_kept (case x of None \<Rightarrow> y | Some j \<Rightarrow> cell persisted j m y) (Lookup r' m))"
proof (cases e)
  case (EvObserve order ip info now)
  obtain res where rec: "RecordObservation order r ip info now = (r', res)"
    using due EvObserve by (cases "RecordObservation order r ip info now") (auto split: option.splits)
  show ?thesis
  proof (cases res)
    case None
    then have "r' = r" using rec by (auto simp: RecordObservation_def Let_def split: if_splits prod.splits option.splits)
    then show ?thesis using due EvObserve rec None wf by auto
  next
    case (Some obs)
    have "fst ` set r \<subseteq> set order" "ValidChannel (di_ChannelID info)" using ok EvObserve by simp_all
    note kept = observation_kept [OF wf this rec [unfolded Some]]
    have awf: "adapter_wf (ob_Adapter obs)" using reg_wfD [OF kept(1)] kept(3) by (simp add: Lookup_def)
    show ?thesis
    proof (cases "Changed obs")
      case True
      then have x: "x = Some (SaveAdapter (ob_Adapter obs))" using due EvObserve rec Some by simp
      have "same_kept (cell persisted (SaveAdapter (ob_Adapter obs)) m y) (Lookup r' m)" if "same_kept y (Lookup r m)" for m y
      proof (cases "m = ad_MAC (ob_Adapter obs)")
        case True
        then show ?thesis using cell_snapshot [of persisted "ob_Adapter obs" y r, OF pers [OF awf] _ kept(5)] that kept(3) by (simp del: cell.simps)
      next
        case False
        then show ?thesis using kept(4) [OF False] that by simp
      qed
      then show ?thesis using kept(1,2) awf unfolding x by (simp add: job_ok_def)
    next
      case False
      then show ?thesis using due EvObserve rec Some kept(1,2,6) by auto
    qed
  qed
next
  case (EvOffline m)
  obtain res where off: "MarkOffline r m = (r', res)" "x = map_option SaveAdapter res"
    using due EvOffline by (cases "MarkOffline r m") auto
  have wf': "reg_wf r'" "one_online_per_ip r'"
    using MarkOffline_wf [OF wf(1), of m] MarkOffline_one_online [OF wf, of m] off by simp_all
  show ?thesis
  proof (cases res)
    case None
    then have "r' = r" using off by (auto simp: MarkOffline_def Let_def split: option.splits if_splits)
    then show ?thesis using wf None off by simp
  next
    case (Some a)
    note kept = offline_kept [OF wf(1) off(1) [unfolded Some]]
    have awf: "adapter_wf a" using reg_wfD [OF wf'(1)] kept(1) by (simp add: Lookup_def)
    have "same_kept (cell persisted (SaveAdapter a) k y) (Lookup r' k)" if "same_kept y (Lookup r k)" for k y
    proof (cases "k = ad_MAC a")
      case True
      then show ?thesis using cell_snapshot [of persisted a y r, OF pers [OF awf] _ kept(4)] that kept(1) by (simp del: cell.simps)
    next
      case False
      then show ?thesis using kept(3) that by simp
    qed
    then show ?thesis using wf' awf Some off by (simp add: job_ok_def)
  qed
next
  case (EvRename m n)
  obtain res where set: "SetName r m n = (r', res)" "x = map_option (\<lambda>a. SaveName m n) res"
    using due EvRename by (cases "SetName r m n") auto
  have wf': "reg_wf r'" "one_online_per_ip r'"
    using SetName_wf [OF wf(1), of m n] SetName_one_online [OF wf, of m n] set by simp_all
  show ?thesis
  proof (cases res)
    case None
    then have "r' = r" using set by (auto simp: SetName_def Let_def split: option.splits)
    then show ?thesis using wf None set by simp
  next
    case (Some a)
    then obtain b where b: "Lookup r m = Some b" "a = b\<lparr>ad_Name := n\<rparr>" "r' = AList.update m a r"
      using set by (auto simp: SetName_def Lookup_def Let_def split: option.splits)
    have "same_kept (cell persisted (SaveName m n) k y) (Lookup r' k)" if "same_kept y (Lookup r k)" for k y
      using that b by (cases y) (auto simp: Lookup_update)
    then show ?thesis using wf' Some set by (simp add: job_ok_def)
  qed
qed (use due wf in auto)

section \<open>Replaying what is due\<close>

text \<open>
  A store that keeps what it is given of a well-formed adapter, and its way to perform a save.
\<close>

locale saving_store = adapter_store stored save set_name persisted
  for stored :: "'s \<Rightarrow> string \<Rightarrow> adapter option" and save set_name persisted +
  fixes run :: "save_job \<Rightarrow> 's \<Rightarrow> 's"
  assumes kept_persisted: "adapter_wf a \<Longrightarrow> kept (persisted a) = kept a"
    and run_save: "run (SaveAdapter a) s = save a s"
    and run_name: "run (SaveName m n) s = snd (set_name m n s)"
begin

lemma stored_run: "stored (run j s) m = cell persisted j m (stored s m)"
proof (cases j)
  case (SaveName k n)
  show ?thesis
  proof (cases "stored s k")
    case None
    then show ?thesis using SaveName by (simp add: run_name set_name_unknown)
  next
    case (Some b)
    then show ?thesis using SaveName set_name_known [OF Some, of n] by (simp add: run_name)
  qed
qed (simp add: run_save stored_save)

text \<open>The due saves, replayed in order, would make the store agree with the inventory.\<close>

definition agrees :: "'s saving \<Rightarrow> bool" where
  "agrees s \<longleftrightarrow> reg_wf (sv_registry s) \<and> one_online_per_ip (sv_registry s) \<and> list_all job_ok (sv_due s) \<and>
     (\<forall>m. same_kept (fold (\<lambda>j. cell persisted j m) (sv_due s) (stored (sv_store s) m)) (Lookup (sv_registry s) m))"

lemma due_agrees:
  assumes "agrees s" "ev_ok (sv_registry s) e"
  shows "agrees (due_step e s)"
proof -
  obtain r x where due: "save_due e (sv_registry s) = (r, x)" by (cases "save_due e (sv_registry s)")
  have "reg_wf (sv_registry s)" "one_online_per_ip (sv_registry s)" using assms(1) by (simp_all add: agrees_def)
  from due_cell [OF this assms(2) due, of persisted] kept_persisted
  show ?thesis using assms(1) due by (cases x) (auto simp: agrees_def due_step_def)
qed

lemma save_agrees:
  assumes "agrees s" "save_in_turn (sv_due s) i"
  shows "agrees (save_step run i s)"
proof -
  let ?js = "sv_due s" and ?xs = "take i (sv_due s)" and ?j = "sv_due s ! i" and ?ys = "drop (Suc i) (sv_due s)"
  have js: "?js = ?xs @ ?j # ?ys" using assms(2) by (simp add: save_in_turn_def id_take_nth_drop)
  have "fold (\<lambda>j. cell persisted j m) (?xs @ ?ys) (stored (run ?j (sv_store s)) m)
      = fold (\<lambda>j. cell persisted j m) ?js (stored (sv_store s) m)" for m
  proof (cases "m = save_mac ?j")
    case True
    then have "list_all (\<lambda>j. m \<noteq> save_mac j) ?xs" using assms(2) by (auto simp: save_in_turn_def list_all_iff)
    then show ?thesis by (subst (2) js) (simp add: stored_run fold_cell_other)
  next
    case False
    then show ?thesis by (subst (2) js) (simp add: stored_run cell_other)
  qed
  moreover have "list_all job_ok (?xs @ ?ys)" using assms(1)
    by (auto simp: agrees_def list_all_iff dest: in_set_takeD in_set_dropD)
  ultimately show ?thesis using assms(1) by (simp add: agrees_def save_step_def)
qed

lemma run_agrees: "saving_run run s s' \<Longrightarrow> agrees s \<Longrightarrow> agrees s'"
proof (induction rule: saving_run.induct)
  case (more t u)
  then show ?case using due_agrees save_agrees by (auto elim!: saving_step.cases)
qed

lemma settled_agrees:
  assumes "saving_run run s s'" "agrees s" "sv_due s' = []"
  shows "same_kept (stored (sv_store s') m) (Lookup (sv_registry s') m)"
  using run_agrees [OF assms(1,2)] assms(3) by (simp add: agrees_def)

lemma start_agrees:
  assumes "reg_wf r" "one_online_per_ip r" "\<And>m. same_kept (stored t m) (Lookup r m)"
  shows "agrees \<lparr>sv_registry = r, sv_store = t, sv_due = []\<rparr>"
  using assms by (simp add: agrees_def)

end

interpretation sqlite_saving: saving_store sqlite_stored upsert "store_SetName None" sqlite_persisted save_sqlite
  by unfold_locales (simp_all add: kept_persisted Save_def)

interpretation memory_saving: saving_store mem_stored mem_Save mem_SetName "ad_Online_update (\<lambda>_. False)" save_memory
  by unfold_locales simp_all

lemma due_can_be_saved:
  "\<exists>s'. saving_run run s s' \<and> sv_registry s' = sv_registry s \<and> sv_due s' = []"
proof (induction "length (sv_due s)" arbitrary: s)
  case 0
  then show ?case using saving_run.none by auto
next
  case (Suc n)
  then have "save_in_turn (sv_due s) 0" "length (sv_due (save_step run 0 s)) = n" "sv_registry (save_step run 0 s) = sv_registry s"
    by (auto simp: save_in_turn_def save_step_def)
  moreover from this Suc.hyps(1) [of "save_step run 0 s"] obtain s' where
    "saving_run run (save_step run 0 s) s'" "sv_registry s' = sv_registry s" "sv_due s' = []" by auto
  moreover have "saving_run run a c" if "saving_run run b c" "saving_step run a b" for a b c
    using that by (induction rule: saving_run.induct) (auto intro: saving_run.intros)
  ultimately show ?case using saved [of s 0 run] by blast
qed

lemma sqlite_run_wf:
  assumes "saving_run save_sqlite s s'" "table_wf (sv_store s)" "sqlite_saving.agrees s"
  shows "table_wf (sv_store s')"
  using assms
proof (induction rule: saving_run.induct)
  case (more t u)
  then have wf: "table_wf (sv_store t)" by simp
  from more.hyps(2) show ?case
  proof cases
    case (changed e)
    then show ?thesis using wf by (simp add: due_step_def split: prod.splits)
  next
    case (saved i)
    have "list_all job_ok (sv_due t)" using sqlite_saving.run_agrees [OF more.hyps(1) more.prems(2)] by (simp add: sqlite_saving.agrees_def)
    then have "job_ok (sv_due t ! i)" using saved(2) by (simp add: save_in_turn_def list_all_length)
    then show ?thesis using saved wf table_wf_upsert table_wf_SetName
      by (cases "sv_due t ! i") (simp_all add: save_step_def job_ok_def Save_def)
  qed
qed

section \<open>Properties\<close>

text \<open>C17: however goroutines come between the change of the inventory and the save of its snapshot,
  as long as no save overtakes another one of the same adapter: the due saves can be completed, and when
  none is due, a controller started on the database begins with the same adapters, names,
  addresses, roles, channels and device texts.\<close>

theorem saves_settle:
  assumes "reg_wf r" "one_online_per_ip r" "table_wf t" "synced r t"
    and "saving_run save_sqlite \<lparr>sv_registry = r, sv_store = t, sv_due = []\<rparr> s"
  shows "(\<exists>s'. saving_run save_sqlite s s' \<and> sv_registry s' = sv_registry s \<and> sv_due s' = [])
    \<and> (sv_due s = [] \<longrightarrow> table_wf (sv_store s) \<and>
        (\<forall>adapters m. LoadAll None (sv_store s) = Inr adapters \<longrightarrow>
           map_option kept (Lookup (Hydrate adapters New) m) = map_option kept (Lookup (sv_registry s) m)))"
proof (intro conjI impI allI)
  show "\<exists>s'. saving_run save_sqlite s s' \<and> sv_registry s' = sv_registry s \<and> sv_due s' = []" by (rule due_can_be_saved)
  have start: "sqlite_saving.agrees \<lparr>sv_registry = r, sv_store = t, sv_due = []\<rparr>"
    using sqlite_saving.start_agrees [OF assms(1,2)] assms(4) by (simp add: synced_def)
  show wf: "table_wf (sv_store s)" using sqlite_run_wf [OF assms(5) _ start] assms(3) by simp
  fix adapters m
  assume empty: "sv_due s = []" and load: "LoadAll None (sv_store s) = Inr adapters"
  have "same_kept (sqlite_stored (sv_store s) m) (Lookup (sv_registry s) m)"
    by (rule sqlite_saving.settled_agrees [OF assms(5) start empty])
  then show "map_option kept (Lookup (Hydrate adapters New) m) = map_option kept (Lookup (sv_registry s) m)"
    using loaded_synced [OF wf load] by (simp add: synced_def)
qed

text \<open>A new receiver is renamed before its first save.\<close>

definition early_name :: "adapters_table saving" where
  "early_name =
     (let a = new_adapter ''fc:19:28:6c:d6:d8'' ''10.0.0.1'' rx_info 1000 in
      \<lparr>sv_registry = [(ad_MAC a, a\<lparr>ad_Name := Some ''Lobby''\<rparr>)], sv_store = [],
       sv_due = [SaveAdapter a, SaveName (ad_MAC a) (Some ''Lobby'')]\<rparr>)"

lemma early_name_run: "saving_run save_sqlite \<lparr>sv_registry = New, sv_store = [], sv_due = []\<rparr> early_name"
proof -
  let ?s0 = "\<lparr>sv_registry = New, sv_store = [], sv_due = []\<rparr> :: adapters_table saving"
  let ?e1 = "EvObserve [] ''10.0.0.1'' rx_info 1000" and ?e2 = "EvRename ''fc:19:28:6c:d6:d8'' (Some ''Lobby'')"
  have ok: "ev_ok (sv_registry ?s0) ?e1" "ev_ok (sv_registry (due_step ?e1 ?s0)) ?e2" by (simp_all add: New_def rx_info_def ValidChannel_iff)
  have "due_step ?e2 (due_step ?e1 ?s0) = early_name" by code_simp
  then show ?thesis
    using saving_run.more [OF saving_run.more [OF saving_run.none saving_step.changed [OF ok(1)]] saving_step.changed [OF ok(2)],
      of save_sqlite] by simp
qed

text \<open>The rename overtakes the first save, and is lost.\<close>

lemma overtaking_name_lost:
  "\<not> save_in_turn (sv_due early_name) 1"
  "map_option ad_Name (sqlite_stored (sv_store (save_step save_sqlite 0 (save_step save_sqlite 1 early_name))) ''fc:19:28:6c:d6:d8'') = Some None"
  by code_simp+

theorem saves_settle_witness:
  "\<exists>s adapters. saving_run save_sqlite \<lparr>sv_registry = New, sv_store = [], sv_due = []\<rparr> s \<and>
     LoadAll None (sv_store s) = Inr adapters \<and>
     map_option ad_Name (Lookup (Hydrate adapters New) ''fc:19:28:6c:d6:d8'') = Some (Some ''Lobby'')"
proof -
  let ?s1 = "save_step save_sqlite 0 early_name" and ?m = "''fc:19:28:6c:d6:d8''"
  let ?s2 = "save_step save_sqlite 0 ?s1"
  have turn: "save_in_turn (sv_due early_name) 0" "save_in_turn (sv_due ?s1) 0"
    and empty: "sv_due ?s2 = []" "map_option ad_Name (Lookup (sv_registry ?s2) ?m) = Some (Some ''Lobby'')"
    by code_simp+
  have run: "saving_run save_sqlite \<lparr>sv_registry = New, sv_store = [], sv_due = []\<rparr> ?s2"
    by (rule saving_run.more [OF saving_run.more [OF early_name_run saving_step.saved [OF turn(1)]] saving_step.saved [OF turn(2)]])
  have "synced New []" by (simp add: synced_def New_def Lookup_def sqlite_stored_def)
  note settled = saves_settle [OF New_wf [THEN conjunct1] New_wf [THEN conjunct2] _ this run]
  obtain adapters where load: "LoadAll None (sv_store ?s2) = Inr adapters" by (simp add: LoadAll_def)
  have "table_wf []" by (simp add: table_wf_def)
  then have same: "map_option kept (Lookup (Hydrate adapters New) ?m) = map_option kept (Lookup (sv_registry ?s2) ?m)"
    using settled empty(1) load by blast
  have "map_option ad_Name (Lookup (Hydrate adapters New) ?m) = map_option ad_Name (Lookup (sv_registry ?s2) ?m)"
    using same by (cases "Lookup (Hydrate adapters New) ?m"; cases "Lookup (sv_registry ?s2) ?m") (auto dest: kept_eqD simp del: kept_simps)
  then show ?thesis using run load empty(2) by metis
qed

end
