(* ===== verification/Keyed_Queue.thy ===== *)
theory Keyed_Queue
  imports Prelude
begin

text \<open>
  File \<open>internal/controller/queue.go\<close>: the queue that runs the channel changes of one device in
  the order they arrived.  The map \<open>tails\<close> holds the \<open>done\<close> channel of the last job of each
  key; a channel is named by the number of the job that closes it.  A job is a goroutine, and
  its phases are the points between its atomic actions: waiting for its predecessor, running
  \<open>fn\<close>, \<open>fn\<close> returned, \<open>done\<close> closed, entry of \<open>tails\<close> removed, wait group signalled.  The
  steps of all goroutines interleave in any order (\<open>queue_step\<close>).
\<close>

section \<open>Definitions\<close>

datatype phase = Waiting | Running | Returned | Closed | Cleaned | Gone

record job =
  jb_key :: string
  jb_prev :: "nat option"
  jb_phase :: phase

record keyedQueue =
  kq_tails :: "string \<rightharpoonup> nat"
  kq_jobs :: "job list"

definition newKeyedQueue :: keyedQueue where
  "newKeyedQueue = \<lparr>kq_tails = Map.empty, kq_jobs = []\<rparr>"

text \<open>The part of \<open>enqueue\<close> under the lock; the number of the new job names its \<open>done\<close> channel.\<close>

definition enqueue :: "string \<Rightarrow> keyedQueue \<Rightarrow> keyedQueue" where
  "enqueue key q =
     \<lparr>kq_tails = (kq_tails q)(key \<mapsto> length (kq_jobs q)),
      kq_jobs = kq_jobs q @ [\<lparr>jb_key = key, jb_prev = kq_tails q key, jb_phase = Waiting\<rparr>]\<rparr>"

definition chan_closed :: "keyedQueue \<Rightarrow> nat \<Rightarrow> bool" where
  "chan_closed q i \<longleftrightarrow> jb_phase (kq_jobs q ! i) \<in> {Closed, Cleaned, Gone}"

definition set_phase :: "nat \<Rightarrow> phase \<Rightarrow> keyedQueue \<Rightarrow> keyedQueue" where
  "set_phase i p q = q\<lparr>kq_jobs := (kq_jobs q)[i := (kq_jobs q ! i)\<lparr>jb_phase := p\<rparr>]\<rparr>"

text \<open>The goroutine of a job: whether its next action can happen, and what it does.\<close>

definition can_act :: "keyedQueue \<Rightarrow> nat \<Rightarrow> bool" where
  "can_act q i \<longleftrightarrow> i < length (kq_jobs q) \<and>
     (case jb_phase (kq_jobs q ! i) of
        Waiting \<Rightarrow> (case jb_prev (kq_jobs q ! i) of None \<Rightarrow> True | Some p \<Rightarrow> chan_closed q p)
      | Gone \<Rightarrow> False
      | _ \<Rightarrow> True)"

definition act :: "nat \<Rightarrow> keyedQueue \<Rightarrow> keyedQueue" where
  "act i q =
     (let j = kq_jobs q ! i in
      case jb_phase j of
        Waiting \<Rightarrow> set_phase i Running q
      | Running \<Rightarrow> set_phase i Returned q
      | Returned \<Rightarrow> set_phase i Closed q
      | Closed \<Rightarrow> set_phase i Cleaned
            (if kq_tails q (jb_key j) = Some i then q\<lparr>kq_tails := (kq_tails q)(jb_key j := None)\<rparr> else q)
      | Cleaned \<Rightarrow> set_phase i Gone q
      | Gone \<Rightarrow> q)"

text \<open>\<open>wait\<close> returns when every job has signalled the wait group.\<close>

definition wait_returns :: "keyedQueue \<Rightarrow> bool" where
  "wait_returns q \<longleftrightarrow> list_all (\<lambda>j. jb_phase j = Gone) (kq_jobs q)"

inductive queue_step :: "keyedQueue \<Rightarrow> keyedQueue \<Rightarrow> bool" where
  arrive: "queue_step q (enqueue key q)"
| goroutine: "can_act q i \<Longrightarrow> queue_step q (act i q)"

inductive queue_reachable :: "keyedQueue \<Rightarrow> bool" where
  start: "queue_reachable newKeyedQueue"
| step: "queue_reachable q \<Longrightarrow> queue_step q q' \<Longrightarrow> queue_reachable q'"

inductive_cases queue_stepE: "queue_step q q'"

section \<open>The invariant\<close>

abbreviation key_of :: "keyedQueue \<Rightarrow> nat \<Rightarrow> string" where
  "key_of q i \<equiv> jb_key (kq_jobs q ! i)"

abbreviation phase_of :: "keyedQueue \<Rightarrow> nat \<Rightarrow> phase" where
  "phase_of q i \<equiv> jb_phase (kq_jobs q ! i)"

text \<open>
  The predecessor of a job is the job of the same key right before it; a job without one, and a
  job that has started, have only closed jobs of their key before them; the tail of a key is
  its last job, and a key without a tail has only jobs that have cleaned up.
\<close>

definition prev_ok :: "keyedQueue \<Rightarrow> bool" where
  "prev_ok q \<longleftrightarrow> (\<forall>i < length (kq_jobs q). \<forall>p. jb_prev (kq_jobs q ! i) = Some p \<longrightarrow>
     p < i \<and> key_of q p = key_of q i \<and> (\<forall>j. p < j \<and> j < i \<longrightarrow> key_of q j \<noteq> key_of q i))"

definition started_ok :: "keyedQueue \<Rightarrow> bool" where
  "started_ok q \<longleftrightarrow> (\<forall>i < length (kq_jobs q). \<forall>j < i. key_of q j = key_of q i \<and>
     (jb_prev (kq_jobs q ! i) = None \<or> phase_of q i \<noteq> Waiting) \<longrightarrow> chan_closed q j)"

definition tails_ok :: "keyedQueue \<Rightarrow> bool" where
  "tails_ok q \<longleftrightarrow> (\<forall>k t. kq_tails q k = Some t \<longrightarrow> t < length (kq_jobs q) \<and> key_of q t = k \<and>
     phase_of q t \<notin> {Cleaned, Gone} \<and> (\<forall>j. t < j \<and> j < length (kq_jobs q) \<longrightarrow> key_of q j \<noteq> k))"

definition untailed_ok :: "keyedQueue \<Rightarrow> bool" where
  "untailed_ok q \<longleftrightarrow> (\<forall>i < length (kq_jobs q). kq_tails q (key_of q i) = None \<longrightarrow> chan_closed q i)"

definition queue_inv :: "keyedQueue \<Rightarrow> bool" where
  "queue_inv q \<longleftrightarrow> prev_ok q \<and> started_ok q \<and> tails_ok q \<and> untailed_ok q"

lemma set_phase_simps [simp]:
  "kq_tails (set_phase i p q) = kq_tails q" "length (kq_jobs (set_phase i p q)) = length (kq_jobs q)"
  "j < length (kq_jobs q) \<Longrightarrow> key_of (set_phase i p q) j = key_of q j"
  "j < length (kq_jobs q) \<Longrightarrow> jb_prev (kq_jobs (set_phase i p q) ! j) = jb_prev (kq_jobs q ! j)"
  "j < length (kq_jobs q) \<Longrightarrow> phase_of (set_phase i p q) j = (if j = i then p else phase_of q j)"
  by (simp_all add: set_phase_def) (cases "i = j"; simp)+

lemma enqueue_simps [simp]:
  "kq_tails (enqueue k q) = (kq_tails q)(k \<mapsto> length (kq_jobs q))" "length (kq_jobs (enqueue k q)) = Suc (length (kq_jobs q))"
  "j < length (kq_jobs q) \<Longrightarrow> kq_jobs (enqueue k q) ! j = kq_jobs q ! j"
  "kq_jobs (enqueue k q) ! length (kq_jobs q) = \<lparr>jb_key = k, jb_prev = kq_tails q k, jb_phase = Waiting\<rparr>"
  by (simp_all add: enqueue_def nth_append)

lemma chan_closed_set_phase:
  "i < length (kq_jobs q) \<Longrightarrow> chan_closed (set_phase i p q) j = (if j = i then p \<in> {Closed, Cleaned, Gone} else chan_closed q j)"
  by (auto simp: chan_closed_def set_phase_def nth_list_update)

lemma enqueue_inv:
  assumes "queue_inv q"
  shows "queue_inv (enqueue k q)"
proof -
  let ?n = "length (kq_jobs q)"
  have closed: "chan_closed (enqueue k q) j = chan_closed q j" if "j < ?n" for j using that by (simp add: chan_closed_def)
  have "prev_ok (enqueue k q)" using assms by (auto simp: queue_inv_def prev_ok_def tails_ok_def less_Suc_eq)
  moreover have "started_ok (enqueue k q)" using assms
    by (auto simp: queue_inv_def started_ok_def untailed_ok_def less_Suc_eq closed)
  moreover have "tails_ok (enqueue k q)" using assms by (fastforce simp: queue_inv_def tails_ok_def less_Suc_eq)
  moreover have "untailed_ok (enqueue k q)" using assms by (auto simp: queue_inv_def untailed_ok_def less_Suc_eq closed split: if_splits)
  ultimately show ?thesis by (simp add: queue_inv_def)
qed

lemma set_phase_inv:
  assumes inv: "queue_inv q" and i: "i < length (kq_jobs q)"
    and mono: "chan_closed q i \<Longrightarrow> p \<in> {Closed, Cleaned, Gone}"
    and start: "p \<noteq> Waiting \<Longrightarrow> phase_of q i = Waiting \<Longrightarrow> \<forall>j < i. key_of q j = key_of q i \<longrightarrow> chan_closed q j"
    and tail: "p \<in> {Cleaned, Gone} \<Longrightarrow> kq_tails q (key_of q i) \<noteq> Some i"
  shows "queue_inv (set_phase i p q)"
proof -
  have closed: "chan_closed (set_phase i p q) j" if "chan_closed q j" for j
    using that mono by (auto simp: chan_closed_set_phase [OF i])
  have "key_of (set_phase i p q) b = key_of q b" if "b < a" "a < length (kq_jobs q)" for a b
    using that by simp
  then have "prev_ok (set_phase i p q)" using inv by (auto simp: queue_inv_def prev_ok_def)
  moreover have "started_ok (set_phase i p q)" unfolding started_ok_def
  proof (intro allI impI)
    fix a b
    assume a: "a < length (kq_jobs (set_phase i p q))" "b < a"
      and k: "key_of (set_phase i p q) b = key_of (set_phase i p q) a \<and>
        (jb_prev (kq_jobs (set_phase i p q) ! a) = None \<or> phase_of (set_phase i p q) a \<noteq> Waiting)"
    show "chan_closed (set_phase i p q) b"
    proof (rule closed, cases "jb_prev (kq_jobs q ! a) = None \<or> phase_of q a \<noteq> Waiting")
      case True
      then show "chan_closed q b" using inv a k by (simp add: queue_inv_def started_ok_def)
    next
      case False
      then show "chan_closed q b" using start a k by (auto split: if_splits)
    qed
  qed
  moreover have "tails_ok (set_phase i p q)" using inv tail by (auto simp: queue_inv_def tails_ok_def)
  moreover have "untailed_ok (set_phase i p q)" using inv closed by (simp add: queue_inv_def untailed_ok_def)
  ultimately show ?thesis by (simp add: queue_inv_def)
qed

lemma untail_inv:
  assumes inv: "queue_inv q" and t: "kq_tails q k = Some i" "phase_of q i = Closed"
  shows "queue_inv (q\<lparr>kq_tails := (kq_tails q)(k := None)\<rparr>)"
proof -
  have i: "i < length (kq_jobs q)" "key_of q i = k" "\<forall>j. i < j \<and> j < length (kq_jobs q) \<longrightarrow> key_of q j \<noteq> k"
    using inv t by (auto simp: queue_inv_def tails_ok_def)
  have "chan_closed q j" if "j < length (kq_jobs q)" "key_of q j = k" for j
  proof (cases "j < i")
    case True
    then show ?thesis using inv i t(2) that by (auto simp: queue_inv_def started_ok_def)
  next
    case False
    then show ?thesis using i(3) that t(2) by (cases "j = i") (auto simp: chan_closed_def)
  qed
  then show ?thesis using inv
    by (auto simp: queue_inv_def prev_ok_def started_ok_def tails_ok_def untailed_ok_def chan_closed_def split: if_splits)
qed

text \<open>A waiting job that may start has only closed jobs of its key before it.\<close>

lemma may_start:
  assumes inv: "queue_inv q" and act: "can_act q i" "phase_of q i = Waiting" and j: "j < i" "key_of q j = key_of q i"
  shows "chan_closed q j"
proof (cases "jb_prev (kq_jobs q ! i)")
  case None
  then show ?thesis using inv act j by (auto simp: queue_inv_def started_ok_def can_act_def)
next
  case (Some p)
  then have p: "p < i" "key_of q p = key_of q i" "\<And>l. p < l \<Longrightarrow> l < i \<Longrightarrow> key_of q l \<noteq> key_of q i" "chan_closed q p" "i < length (kq_jobs q)"
    using inv act by (auto simp: queue_inv_def prev_ok_def can_act_def)
  show ?thesis
  proof (cases "j < p")
    case True
    have "phase_of q p \<noteq> Waiting" "p < length (kq_jobs q)" using p(1,4,5) by (auto simp: chan_closed_def)
    then show ?thesis using inv p(2) j True by (simp add: queue_inv_def started_ok_def)
  next
    case False
    then show ?thesis using p j by (cases "j = p") auto
  qed
qed

lemma job_act_inv:
  assumes inv: "queue_inv q" and act: "can_act q i"
  shows "queue_inv (act i q)"
proof -
  have i: "i < length (kq_jobs q)" using act by (simp add: can_act_def)
  let ?q = "if kq_tails q (key_of q i) = Some i then q\<lparr>kq_tails := (kq_tails q)(key_of q i := None)\<rparr> else q"
  show ?thesis
  proof (cases "phase_of q i")
    case Waiting
    then show ?thesis using may_start [OF inv act Waiting]
      by (auto simp: act_def chan_closed_def [of q i] intro!: set_phase_inv [OF inv i])
  next
    case Closed
    have "queue_inv ?q" using inv untail_inv [OF inv _ Closed] by simp
    from set_phase_inv [OF this, of i Cleaned] show ?thesis using i Closed by (auto simp: act_def Let_def split: if_splits)
  next
    case Cleaned
    then have "kq_tails q (key_of q i) \<noteq> Some i" using inv by (auto simp: queue_inv_def tails_ok_def)
    then show ?thesis using Cleaned by (auto simp: act_def intro!: set_phase_inv [OF inv i])
  qed (use inv i in \<open>auto simp: act_def chan_closed_def intro!: set_phase_inv\<close>)
qed

lemma queue_reachable_inv: "queue_reachable q \<Longrightarrow> queue_inv q"
proof (induction rule: queue_reachable.induct)
  case start
  show ?case by (simp add: queue_inv_def prev_ok_def started_ok_def tails_ok_def untailed_ok_def newKeyedQueue_def)
next
  case (step q q')
  then show ?case by (auto elim!: queue_stepE intro: enqueue_inv job_act_inv)
qed

section \<open>Progress\<close>

text \<open>Actions a goroutine still has to perform.\<close>

fun actions_left :: "phase \<Rightarrow> nat" where
  "actions_left Waiting = 5"
| "actions_left Running = 4"
| "actions_left Returned = 3"
| "actions_left Closed = 2"
| "actions_left Cleaned = 1"
| "actions_left Gone = 0"

definition work :: "keyedQueue \<Rightarrow> nat" where
  "work q = sum_list (map (actions_left \<circ> jb_phase) (kq_jobs q))"

inductive schedule :: "nat \<Rightarrow> keyedQueue \<Rightarrow> keyedQueue \<Rightarrow> bool" where
  idle: "schedule 0 q q"
| acts: "can_act q i \<Longrightarrow> schedule n (act i q) q' \<Longrightarrow> schedule (Suc n) q q'"

lemma work_set_phase:
  assumes "i < length (kq_jobs q)" "actions_left p < actions_left (phase_of q i)"
  shows "work (set_phase i p q) < work q"
proof -
  have "map (actions_left \<circ> jb_phase) (kq_jobs (set_phase i p q)) = (map (actions_left \<circ> jb_phase) (kq_jobs q))[i := actions_left p]"
    by (simp add: set_phase_def map_update)
  moreover have "sum_list (xs[i := x]) + xs ! i = sum_list xs + x" if "i < length xs" for xs :: "nat list" and i x
    using that by (induction xs arbitrary: i) (auto split: nat.split)
  from this [of i "map (actions_left \<circ> jb_phase) (kq_jobs q)" "actions_left p"]
  have "sum_list ((map (actions_left \<circ> jb_phase) (kq_jobs q))[i := actions_left p]) < work q"
    using assms by (simp add: work_def)
  ultimately show ?thesis by (simp add: work_def)
qed

lemma work_act:
  assumes "can_act q i"
  shows "work (act i q) < work q"
proof -
  have i: "i < length (kq_jobs q)" using assms by (simp add: can_act_def)
  have "work (q\<lparr>kq_tails := t\<rparr>) = work q" for t by (simp add: work_def)
  then show ?thesis
    using assms i work_set_phase [of i q] work_set_phase [of i "q\<lparr>kq_tails := (kq_tails q)(key_of q i := None)\<rparr>"]
    by (cases "phase_of q i") (auto simp: act_def Let_def can_act_def)
qed

lemma work_le: "work q \<le> 5 * length (kq_jobs q)"
proof -
  have "actions_left p \<le> 5" for p by (cases p) simp_all
  then have "sum_list (map (actions_left \<circ> jb_phase) js) \<le> 5 * length js" for js
    by (induction js) (simp_all add: add_mono)
  then show ?thesis by (simp add: work_def)
qed

lemma schedule_bound: "schedule n q q' \<Longrightarrow> n + work q' \<le> work q"
proof (induction rule: schedule.induct)
  case (acts q i n q')
  then show ?case using work_act [OF acts.hyps(1)] by linarith
qed simp

lemma schedule_reachable: "schedule n q q' \<Longrightarrow> queue_reachable q \<Longrightarrow> queue_reachable q'"
  by (induction rule: schedule.induct) (auto intro: queue_reachable.step goroutine)

text \<open>The first job of a key that is not finished can act.\<close>

lemma first_unfinished_acts:
  assumes inv: "queue_inv q" and i: "i < length (kq_jobs q)" "phase_of q i \<noteq> Gone"
    and first: "\<And>j. j < i \<Longrightarrow> key_of q j = key_of q i \<Longrightarrow> phase_of q j = Gone"
  shows "can_act q i"
proof -
  have "chan_closed q p" if "jb_prev (kq_jobs q ! i) = Some p" for p
    using inv i(1) first [of p] that by (auto simp: queue_inv_def prev_ok_def chan_closed_def)
  then show ?thesis using i by (auto simp: can_act_def split: phase.splits option.splits)
qed

lemma key_can_act:
  assumes inv: "queue_inv q" and i: "i < length (kq_jobs q)" "phase_of q i \<noteq> Gone"
  shows "\<exists>j. j \<le> i \<and> key_of q j = key_of q i \<and> can_act q j"
proof -
  let ?P = "\<lambda>j. j < length (kq_jobs q) \<and> key_of q j = key_of q i \<and> phase_of q j \<noteq> Gone"
  have P: "?P i" using i by simp
  let ?j = "LEAST j. ?P j"
  have j: "?P ?j" by (rule LeastI [of ?P, OF P])
  have "can_act q ?j"
  proof (rule first_unfinished_acts [OF inv])
    fix l assume l: "l < ?j" "key_of q l = key_of q ?j"
    then show "phase_of q l = Gone" using not_less_Least [OF l(1)] j by auto
  qed (use j in auto)
  then show ?thesis using j Least_le [of ?P, OF P] by blast
qed

lemma drained:
  assumes "queue_inv q" "\<nexists>i. can_act q i"
  shows "wait_returns q \<and> kq_tails q = Map.empty"
proof -
  have gone: "phase_of q i = Gone" if "i < length (kq_jobs q)" for i using key_can_act [OF assms(1) that] assms(2) by blast
  then have "kq_tails q k = None" for k
    using assms(1) by (cases "kq_tails q k") (auto simp: queue_inv_def tails_ok_def)
  then show ?thesis using gone by (auto simp: wait_returns_def list_all_length)
qed

section \<open>Properties\<close>

text \<open>C8: the jobs of one key run one at a time and in the order they were enqueued: once a job has
  started, every job of that key enqueued before it has returned, and no two of them run at
  the same time.\<close>

theorem queue_fifo_exclusive:
  assumes "queue_reachable q" "i < length (kq_jobs q)" "j < length (kq_jobs q)" "key_of q i = key_of q j"
  shows "(j < i \<and> phase_of q i \<noteq> Waiting \<longrightarrow> phase_of q j \<in> {Closed, Cleaned, Gone}) \<and>
    (phase_of q i = Running \<and> phase_of q j = Running \<longrightarrow> i = j)"
proof -
  have inv: "started_ok q" using queue_reachable_inv [OF assms(1)] by (simp add: queue_inv_def)
  have order: "phase_of q b \<in> {Closed, Cleaned, Gone}"
    if "b < a" "a < length (kq_jobs q)" "key_of q a = key_of q b" "phase_of q a \<noteq> Waiting" for a b
    using inv that by (auto simp: started_ok_def chan_closed_def)
  show ?thesis using order [of j i] order [of i j] assms by (cases i j rule: linorder_cases) auto
qed

text \<open>Two jobs for one device and one for another; the first has been started.\<close>

definition busy_queue :: keyedQueue where
  "busy_queue = act 0 (enqueue ''b'' (enqueue ''a'' (enqueue ''a'' newKeyedQueue)))"

lemma busy_queue_reachable: "queue_reachable busy_queue"
proof -
  have "queue_reachable (enqueue ''b'' (enqueue ''a'' (enqueue ''a'' newKeyedQueue)))"
    by (intro queue_reachable.step [OF _ arrive] queue_reachable.start)
  moreover have "can_act (enqueue ''b'' (enqueue ''a'' (enqueue ''a'' newKeyedQueue))) 0"
    by (simp add: can_act_def enqueue_def newKeyedQueue_def)
  ultimately show ?thesis unfolding busy_queue_def by (blast intro: queue_reachable.step goroutine)
qed

lemma busy_queue_eq:
  "busy_queue = \<lparr>kq_tails = [''a'' \<mapsto> 1, ''b'' \<mapsto> 2], kq_jobs =
     [\<lparr>jb_key = ''a'', jb_prev = None, jb_phase = Running\<rparr>, \<lparr>jb_key = ''a'', jb_prev = Some 0, jb_phase = Waiting\<rparr>,
      \<lparr>jb_key = ''b'', jb_prev = None, jb_phase = Waiting\<rparr>]\<rparr>"
  by (simp add: busy_queue_def act_def enqueue_def newKeyedQueue_def set_phase_def Let_def numeral_2_eq_2)

theorem queue_fifo_exclusive_witness:
  "phase_of busy_queue 0 = Running \<and> phase_of busy_queue 1 \<noteq> Running \<and> \<not> can_act busy_queue 1"
proof -
  have "phase_of busy_queue 1 = Running \<longrightarrow> (1::nat) = 0"
    using queue_fifo_exclusive [OF busy_queue_reachable, of 1 0] by (simp add: busy_queue_eq)
  then show ?thesis by (simp add: busy_queue_eq can_act_def chan_closed_def)
qed

text \<open>C9: every schedule of the goroutines is finite when \<open>fn\<close> returns, with at most five actions
  for each job; as long as a job of a key is unfinished some job of that key can act, whatever
  the other keys do; and when no goroutine can act any more, \<open>wait\<close> returns and no entry of
  \<open>tails\<close> is left behind.\<close>

theorem queue_drains:
  assumes "queue_reachable q" "schedule n q q'"
  shows "n \<le> 5 * length (kq_jobs q)
    \<and> (\<forall>i < length (kq_jobs q'). phase_of q' i \<noteq> Gone \<longrightarrow> (\<exists>j. key_of q' j = key_of q' i \<and> can_act q' j))
    \<and> ((\<nexists>i. can_act q' i) \<longrightarrow> wait_returns q' \<and> kq_tails q' = Map.empty)"
proof -
  have "n \<le> 5 * length (kq_jobs q)" using schedule_bound [OF assms(2)] work_le [of q] by linarith
  moreover have "queue_inv q'" using queue_reachable_inv schedule_reachable assms by blast
  ultimately show ?thesis using key_can_act drained by blast
qed

theorem queue_drains_witness:
  "schedule 1 busy_queue (act 2 busy_queue) \<and> (\<exists>j. key_of (act 2 busy_queue) j = ''a'' \<and> can_act (act 2 busy_queue) j)"
proof -
  have s: "schedule 1 busy_queue (act 2 busy_queue)"
    using schedule.acts [OF _ schedule.idle, of busy_queue 2] by (simp add: can_act_def busy_queue_eq)
  have "length (kq_jobs (act 2 busy_queue)) = 3" "phase_of (act 2 busy_queue) 1 \<noteq> Gone" "key_of (act 2 busy_queue) 1 = ''a''"
    by (simp_all add: busy_queue_eq act_def set_phase_def Let_def)
  then show ?thesis using queue_drains [OF busy_queue_reachable s] s by (metis one_less_numeral_iff semiring_norm(77))
qed

end
