(* ===== verification/Worker_Pool.thy ===== *)
theory Worker_Pool
  imports Prelude "HOL-Library.Multiset"
begin

text \<open>
  \<open>forEach\<close> of \<open>internal/controller/probe.go\<close> with its goroutines: a feeder hands the items, in
  order, to a fixed number of workers over an unbuffered channel, stops feeding when the
  context ends, closes the channel and waits for the workers.  Items are numbered; the steps of
  feeder, workers and the cancellation interleave in any order (\<open>pool_step\<close>).  \<open>Controller\<close>
  uses the sequential counterpart \<open>forEach\<close>, in which the order of the items is arbitrary.
\<close>

section \<open>Definitions\<close>

text \<open>
  The feeder is about to check the context, is blocked sending, or has closed the channel.  A
  worker is blocked receiving, holds an item it has not checked the context for yet, runs
  \<open>fn\<close> on an item, or has left its loop.
\<close>

datatype feeder = Checking | Sending | ClosedQueue

datatype worker = Receiving | Holding nat | Busy nat | Exited

record pool =
  pl_items :: nat
  pl_fed :: nat
  pl_feeder :: feeder
  pl_workers :: "worker list"
  pl_ended :: bool
  pl_done :: "nat list"
  pl_skipped :: "nat list"

definition worker_count :: "int \<Rightarrow> nat \<Rightarrow> nat" where
  "worker_count limit n = nat (max 1 (min limit (int n)))"

definition forEach_start :: "int \<Rightarrow> nat \<Rightarrow> bool \<Rightarrow> pool" where
  "forEach_start limit n ended =
     \<lparr>pl_items = n, pl_fed = 0, pl_feeder = Checking, pl_workers = replicate (worker_count limit n) Receiving,
      pl_ended = ended, pl_done = [], pl_skipped = []\<rparr>"

definition feeder_check :: "pool \<Rightarrow> pool" where
  "feeder_check p =
     p\<lparr>pl_feeder := (if pl_fed p = pl_items p then ClosedQueue else if pl_ended p then ClosedQueue else Sending)\<rparr>"

definition handover :: "nat \<Rightarrow> pool \<Rightarrow> pool" where
  "handover k p = p\<lparr>pl_workers := (pl_workers p)[k := Holding (pl_fed p)], pl_fed := Suc (pl_fed p), pl_feeder := Checking\<rparr>"

definition worker_check :: "nat \<Rightarrow> nat \<Rightarrow> pool \<Rightarrow> pool" where
  "worker_check k i p =
     (if pl_ended p then p\<lparr>pl_workers := (pl_workers p)[k := Receiving], pl_skipped := pl_skipped p @ [i]\<rparr>
      else p\<lparr>pl_workers := (pl_workers p)[k := Busy i]\<rparr>)"

definition worker_finish :: "nat \<Rightarrow> nat \<Rightarrow> pool \<Rightarrow> pool" where
  "worker_finish k i p = p\<lparr>pl_workers := (pl_workers p)[k := Receiving], pl_done := pl_done p @ [i]\<rparr>"

definition worker_exit :: "nat \<Rightarrow> pool \<Rightarrow> pool" where
  "worker_exit k p = p\<lparr>pl_workers := (pl_workers p)[k := Exited]\<rparr>"

text \<open>\<open>wg.Wait()\<close> returns, and with it \<open>forEach\<close>, when every worker has left.\<close>

definition forEach_returned :: "pool \<Rightarrow> bool" where
  "forEach_returned p \<longleftrightarrow> pl_feeder p = ClosedQueue \<and> list_all (\<lambda>w. w = Exited) (pl_workers p)"

inductive own_step :: "pool \<Rightarrow> pool \<Rightarrow> bool" where
  check: "pl_feeder p = Checking \<Longrightarrow> own_step p (feeder_check p)"
| hand: "pl_feeder p = Sending \<Longrightarrow> k < length (pl_workers p) \<Longrightarrow> pl_workers p ! k = Receiving \<Longrightarrow> own_step p (handover k p)"
| begin_item: "k < length (pl_workers p) \<Longrightarrow> pl_workers p ! k = Holding i \<Longrightarrow> own_step p (worker_check k i p)"
| finish_item: "k < length (pl_workers p) \<Longrightarrow> pl_workers p ! k = Busy i \<Longrightarrow> own_step p (worker_finish k i p)"
| exit: "pl_feeder p = ClosedQueue \<Longrightarrow> k < length (pl_workers p) \<Longrightarrow> pl_workers p ! k = Receiving \<Longrightarrow> own_step p (worker_exit k p)"

inductive pool_step :: "pool \<Rightarrow> pool \<Rightarrow> bool" where
  own: "own_step p p' \<Longrightarrow> pool_step p p'"
| cancel: "pool_step p (p\<lparr>pl_ended := True\<rparr>)"

inductive pool_reachable :: "int \<Rightarrow> nat \<Rightarrow> pool \<Rightarrow> bool" for limit n where
  start: "pool_reachable limit n (forEach_start limit n ended)"
| step: "pool_reachable limit n p \<Longrightarrow> pool_step p p' \<Longrightarrow> pool_reachable limit n p'"

inductive_cases own_stepE: "own_step p p'"
inductive_cases pool_stepE: "pool_step p p'"

section \<open>The invariant\<close>

fun item_of :: "worker \<Rightarrow> nat list" where
  "item_of (Holding i) = [i]"
| "item_of (Busy i) = [i]"
| "item_of _ = []"

definition in_hand :: "pool \<Rightarrow> nat list" where
  "in_hand p = concat (map item_of (pl_workers p))"

text \<open>
  The items handed out so far are exactly those done, skipped or in hand, each once; the
  feeder closes the channel only after the last item or when the context has ended; items are
  skipped only when it has ended; and workers leave only when the channel is closed.
\<close>

definition handed :: "pool \<Rightarrow> bool" where
  "handed p \<longleftrightarrow> mset (pl_done p) + mset (pl_skipped p) + mset (in_hand p) = mset [0..<pl_fed p]"

definition pool_inv :: "int \<Rightarrow> nat \<Rightarrow> pool \<Rightarrow> bool" where
  "pool_inv limit n p \<longleftrightarrow>
     pl_items p = n \<and> length (pl_workers p) = worker_count limit n \<and> pl_fed p \<le> n \<and>
     handed p \<and>
     (pl_feeder p = Sending \<longrightarrow> pl_fed p < n) \<and>
     (pl_feeder p = ClosedQueue \<longrightarrow> pl_fed p = n \<or> pl_ended p) \<and>
     (pl_skipped p \<noteq> [] \<longrightarrow> pl_ended p) \<and>
     (Exited \<in> set (pl_workers p) \<longrightarrow> pl_feeder p = ClosedQueue)"

lemma mset_concat_update:
  assumes "k < length ws"
  shows "mset (concat (map f (ws[k := w]))) + mset (f (ws ! k)) = mset (concat (map f ws)) + mset (f w)"
  using assms
proof (induction ws arbitrary: k)
  case (Cons v ws)
  show ?case
  proof (cases k)
    case (Suc l)
    then show ?thesis using Cons.IH [of l] Cons.prems by (simp add: add.assoc)
  qed (simp add: ac_simps)
qed simp

lemma in_hand_update:
  assumes "k < length (pl_workers p)"
  shows "mset (concat (map item_of ((pl_workers p)[k := w]))) + mset (item_of (pl_workers p ! k)) = mset (in_hand p) + mset (item_of w)"
  using mset_concat_update [OF assms] by (simp add: in_hand_def)

lemma worker_count_pos: "0 < worker_count limit n"
  by (simp add: worker_count_def)

lemma own_step_handed:
  assumes "own_step p p'" "handed p"
  shows "handed p'"
  using assms
proof (induction rule: own_step.induct)
  case (hand p k)
  have "mset (in_hand (handover k p)) = add_mset (pl_fed p) (mset (in_hand p))"
    using in_hand_update [OF hand(2), of "Holding (pl_fed p)"] hand(3) by (simp add: in_hand_def handover_def)
  then show ?case using hand(4) by (simp add: handed_def del: mset_upt) (simp add: handover_def del: mset_upt)
next
  case (begin_item k p i)
  have "mset (in_hand p) = add_mset i (mset (concat (map item_of ((pl_workers p)[k := Receiving]))))"
    "mset (concat (map item_of ((pl_workers p)[k := Busy i]))) = mset (in_hand p)"
    using in_hand_update [OF begin_item(1), of Receiving] in_hand_update [OF begin_item(1), of "Busy i"] begin_item(2) by simp_all
  then show ?case using begin_item(3) by (simp add: handed_def worker_check_def in_hand_def [of "_\<lparr>pl_workers := _\<rparr>"] in_hand_def [of "_\<lparr>pl_workers := _, pl_skipped := _\<rparr>"])
next
  case (finish_item k p i)
  have "mset (in_hand p) = add_mset i (mset (concat (map item_of ((pl_workers p)[k := Receiving]))))"
    using in_hand_update [OF finish_item(1), of Receiving] finish_item(2) by simp
  then show ?case using finish_item(3) by (simp add: handed_def worker_finish_def in_hand_def [of "_\<lparr>pl_workers := _, pl_done := _\<rparr>"])
next
  case (exit p k)
  have "mset (in_hand (worker_exit k p)) = mset (in_hand p)"
    using in_hand_update [OF exit(2), of Exited] exit(3) by (simp add: in_hand_def worker_exit_def)
  then show ?case using exit(4) by (simp add: handed_def) (simp add: worker_exit_def)
qed (simp add: handed_def feeder_check_def in_hand_def)

lemma Exited_update: "Exited \<in> set (ws[k := w]) \<Longrightarrow> w \<noteq> Exited \<Longrightarrow> Exited \<in> set ws"
  using set_update_subset_insert [of ws k w] by auto

lemma own_step_inv:
  assumes "own_step p p'" "pool_inv limit n p"
  shows "pool_inv limit n p'"
proof -
  have "handed p'" using own_step_handed [OF assms(1)] assms(2) by (simp add: pool_inv_def)
  with assms show ?thesis
    by (cases rule: own_step.cases)
      (auto simp: pool_inv_def feeder_check_def handover_def worker_check_def worker_finish_def worker_exit_def
        dest!: Exited_update)
qed

lemma pool_reachable_inv: "pool_reachable limit n p \<Longrightarrow> pool_inv limit n p"
proof (induction rule: pool_reachable.induct)
  case (start ended)
  have "concat (map item_of (replicate k Receiving)) = []" for k by (induction k) simp_all
  then show ?case by (simp add: pool_inv_def handed_def forEach_start_def in_hand_def)
next
  case (step p p')
  have "pool_inv limit n (p\<lparr>pl_ended := True\<rparr>)" using step.IH by (simp add: pool_inv_def handed_def in_hand_def)
  with step show ?case by (auto elim!: pool_stepE dest: own_step_inv)
qed

section \<open>Progress\<close>

fun feeder_rank :: "feeder \<Rightarrow> nat" where
  "feeder_rank Checking = 2"
| "feeder_rank Sending = 1"
| "feeder_rank ClosedQueue = 0"

fun worker_rank :: "worker \<Rightarrow> nat" where
  "worker_rank Receiving = 1"
| "worker_rank (Holding i) = 4"
| "worker_rank (Busy i) = 3"
| "worker_rank Exited = 0"

definition rank :: "pool \<Rightarrow> nat" where
  "rank p = 6 * (pl_items p - pl_fed p) + feeder_rank (pl_feeder p) + sum_list (map worker_rank (pl_workers p))"

inductive own_steps :: "nat \<Rightarrow> pool \<Rightarrow> pool \<Rightarrow> bool" where
  none: "own_steps 0 p p"
| more: "pool_step p q \<Longrightarrow> own_steps m q r \<Longrightarrow> own_steps (if own_step p q then Suc m else m) p r"

lemma rank_update:
  assumes "k < length ws"
  shows "sum_list (map worker_rank (ws[k := w])) + worker_rank (ws ! k) = sum_list (map worker_rank ws) + worker_rank w"
  using assms
proof (induction ws arbitrary: k)
  case (Cons v ws)
  then show ?case by (cases k) auto
qed simp

lemma own_step_rank:
  assumes "own_step p p'" "pool_inv limit n p"
  shows "rank p' < rank p"
  using assms
proof (cases rule: own_step.cases)
  case (hand k)
  then show ?thesis using rank_update [of k "pl_workers p" "Holding (pl_fed p)"] assms(2)
    by (auto simp: rank_def handover_def pool_inv_def)
next
  case (begin_item k i)
  then show ?thesis using rank_update [of k "pl_workers p" Receiving] rank_update [of k "pl_workers p" "Busy i"]
    by (auto simp: rank_def worker_check_def)
next
  case (finish_item k i)
  then show ?thesis using rank_update [of k "pl_workers p" Receiving] by (auto simp: rank_def worker_finish_def)
next
  case (exit k)
  then show ?thesis using rank_update [of k "pl_workers p" Exited] by (auto simp: rank_def worker_exit_def)
qed (auto simp: rank_def feeder_check_def)

lemma pool_progress:
  assumes inv: "pool_inv limit n p" and run: "\<not> forEach_returned p"
  shows "\<exists>p'. own_step p p'"
proof (cases "pl_feeder p = Checking")
  case True
  then show ?thesis using own_step.check by blast
next
  case False
  have "\<exists>k < length (pl_workers p). pl_feeder p = Sending \<or> pl_workers p ! k \<noteq> Exited"
    using run inv worker_count_pos [of limit n] False
    by (cases "pl_feeder p") (auto simp: forEach_returned_def pool_inv_def list_all_length)
  then obtain k where k: "k < length (pl_workers p)" "pl_feeder p = Sending \<or> pl_workers p ! k \<noteq> Exited" by blast
  have "Exited \<notin> set (pl_workers p)" if "pl_feeder p = Sending" using inv that by (simp add: pool_inv_def)
  then have "pl_workers p ! k \<noteq> Exited" using k nth_mem [OF k(1)] by metis
  then show ?thesis using k(1) False own_step.hand own_step.begin_item own_step.finish_item own_step.exit
    by (cases "pl_workers p ! k"; cases "pl_feeder p") blast+
qed

section \<open>Properties\<close>

text \<open>C10: whatever the schedule and whenever the context ends: at most \<open>max(1, min(limit, n))\<close> calls
  of \<open>fn\<close> run at a time, no item is handled twice, and when \<open>forEach\<close> has returned without the
  context having ended every item has been handled exactly once.\<close>

theorem forEach_correct:
  assumes "pool_reachable limit n p"
  shows "length (filter (\<lambda>w. \<exists>i. w = Busy i) (pl_workers p)) \<le> nat (max 1 (min limit (int n)))
    \<and> distinct (pl_done p @ in_hand p) \<and> set (pl_done p @ in_hand p) \<subseteq> {..<n}
    \<and> (forEach_returned p \<and> \<not> pl_ended p \<longrightarrow> mset (pl_done p) = mset [0..<n])"
proof -
  have inv: "pool_inv limit n p" by (rule pool_reachable_inv [OF assms])
  then have h: "mset (pl_done p @ pl_skipped p @ in_hand p) = mset [0..<pl_fed p]" "pl_fed p \<le> n"
    by (simp_all add: pool_inv_def handed_def add.assoc del: mset_upt)
  have "distinct (pl_done p @ pl_skipped p @ in_hand p)" "set (pl_done p @ pl_skipped p @ in_hand p) = {0..<pl_fed p}"
    using mset_eq_imp_distinct_iff [OF h(1)] mset_eq_setD [OF h(1)] by simp_all
  moreover have "set (pl_done p @ in_hand p) \<subseteq> {..<n}"
  proof
    fix x assume "x \<in> set (pl_done p @ in_hand p)"
    then have "x \<in> set (pl_done p @ pl_skipped p @ in_hand p)" by auto
    then have "x \<in> set [0..<pl_fed p]" unfolding mset_eq_setD [OF h(1)] .
    then show "x \<in> {..<n}" using h(2) by simp
  qed
  moreover have "length (filter (\<lambda>w. \<exists>i. w = Busy i) (pl_workers p)) \<le> worker_count limit n"
    using inv length_filter_le [of "\<lambda>w. \<exists>i. w = Busy i" "pl_workers p"] by (simp add: pool_inv_def)
  moreover have "mset (pl_done p) = mset [0..<n]" if r: "forEach_returned p" "\<not> pl_ended p"
  proof -
    have "\<forall>w \<in> set (pl_workers p). w = Exited" using r(1) by (simp add: forEach_returned_def list_all_iff)
    then have "in_hand p = []" by (auto simp: in_hand_def)
    then show ?thesis using inv r h(1) by (auto simp: pool_inv_def forEach_returned_def simp del: mset_upt)
  qed
  ultimately show ?thesis unfolding worker_count_def distinct_append by (simp del: mset_upt) blast
qed

text \<open>One item, from the start to the return.\<close>

definition single_run :: "pool list" where
  "single_run =
     (let p0 = forEach_start 8 1 False; p1 = feeder_check p0; p2 = handover 0 p1; p3 = worker_check 0 0 p2;
          p4 = worker_finish 0 0 p3; p5 = feeder_check p4; p6 = worker_exit 0 p5
      in [p0, p1, p2, p3, p4, p5, p6])"

lemmas single_run_defs = single_run_def forEach_start_def worker_count_def feeder_check_def handover_def
  worker_check_def worker_finish_def worker_exit_def Let_def

lemma single_run_steps:
  "own_step (single_run ! 0) (single_run ! 1)" "own_step (single_run ! 1) (single_run ! 2)"
  "own_step (single_run ! 2) (single_run ! 3)" "own_step (single_run ! 3) (single_run ! 4)"
  "own_step (single_run ! 4) (single_run ! 5)" "own_step (single_run ! 5) (single_run ! 6)"
proof -
  let ?p = "\<lambda>i. single_run ! i"
  show "own_step (?p 0) (?p 1)" "own_step (?p 4) (?p 5)"
    using own_step.check [of "?p 0"] own_step.check [of "?p 4"] by (simp_all add: single_run_defs)
  show "own_step (?p 1) (?p 2)" using own_step.hand [of "?p 1" 0] by (simp add: single_run_defs)
  show "own_step (?p 2) (?p 3)" using own_step.begin_item [of 0 "?p 2" 0] by (simp add: single_run_defs)
  show "own_step (?p 3) (?p 4)" using own_step.finish_item [of 0 "?p 3" 0] by (simp add: single_run_defs)
  show "own_step (?p 5) (?p 6)" using own_step.exit [of "?p 5" 0] by (simp add: single_run_defs)
qed

lemma single_run_reachable: "pool_reachable 8 1 (single_run ! 6)"
proof -
  have "pool_reachable 8 1 (single_run ! 0)"
    using pool_reachable.start [of 8 1 False] by (simp add: single_run_def Let_def)
  then show ?thesis using single_run_steps by (meson pool_reachable.step pool_step.own)
qed

theorem forEach_correct_witness:
  "forEach_returned (single_run ! 6) \<and> \<not> pl_ended (single_run ! 6) \<and> mset (pl_done (single_run ! 6)) = {#0#}"
proof -
  have "forEach_returned (single_run ! 6)" "\<not> pl_ended (single_run ! 6)"
    by (simp_all add: single_run_defs forEach_returned_def)
  with forEach_correct [OF single_run_reachable] show ?thesis by simp
qed

text \<open>C11: \<open>forEach\<close> always returns when \<open>fn\<close> does: until it has returned some goroutine can take a
  step, also after the context has ended, and no run has more than \<open>7 n + 3\<close> steps.\<close>

theorem forEach_terminates:
  assumes "own_steps m (forEach_start limit n ended) p"
  shows "m \<le> 7 * n + 3 \<and> (forEach_returned p \<or> (\<exists>p'. own_step p p'))"
proof -
  have run: "m + rank p \<le> rank q \<and> pool_reachable limit n p" if "own_steps m q p" "pool_reachable limit n q" for q
    using that
  proof (induction rule: own_steps.induct)
    case (more p q m r)
    have "pool_reachable limit n q" using pool_reachable.step more.prems more.hyps(1) by blast
    moreover have "rank q \<le> rank p" using more.hyps(1) own_step_rank [OF _ pool_reachable_inv [OF more.prems]]
      by (auto elim!: pool_stepE simp: rank_def intro: less_imp_le)
    ultimately show ?case using more own_step_rank [OF _ pool_reachable_inv [OF more.prems]] by force
  qed simp
  have "rank (forEach_start limit n ended) \<le> 7 * n + 3"
    by (auto simp: rank_def forEach_start_def worker_count_def sum_list_replicate)
  then show ?thesis using run [OF assms pool_reachable.start] pool_progress [OF pool_reachable_inv] by fastforce
qed

theorem forEach_terminates_witness:
  "own_steps 1 (forEach_start 8 1 False) (single_run ! 1) \<and> (\<exists>p'. own_step (single_run ! 1) p')"
proof -
  have s: "own_step (forEach_start 8 1 False) (single_run ! 1)"
    using single_run_steps(1) by (simp add: single_run_def Let_def)
  have "own_steps 1 (forEach_start 8 1 False) (single_run ! 1)"
    using own_steps.more [OF pool_step.own [OF s] own_steps.none] s by simp
  moreover have "\<not> forEach_returned (single_run ! 1)" by (simp add: single_run_defs forEach_returned_def)
  ultimately show ?thesis using forEach_terminates by blast
qed

end
