(* ===== verification/Discovery_Flight.thy ===== *)
theory Discovery_Flight
  imports Prelude
begin

text \<open>
  Files \<open>internal/controller/discovery.go\<close> (\<open>RunDiscovery\<close>) and \<open>controller.go\<close> (\<open>Stop\<close>,
  \<open>waitFor\<close>): scans are single-flight.  Every goroutine that calls \<open>RunDiscovery\<close> is a caller;
  the field \<open>discoveryDone\<close> holds the channel of the caller that scans, named by that caller.
  \<open>discoveryMu\<close> is explicit, because \<open>endLife\<close> does not take it: the lifetime can end
  between a caller's look at \<open>stopping()\<close> and its scan.  \<open>Stop\<close> is one more goroutine: it ends the
  lifetime, looks at \<open>discoveryDone\<close> under the lock and waits for the channel, or gives
  up when its context ends.  The steps of all goroutines interleave in any order.
\<close>

section \<open>Definitions\<close>

text \<open>
  \<open>Called\<close>: before the first lock; \<open>Joined d\<close>: waiting for the channel of caller \<open>d\<close>;
  \<open>Checking\<close>: has the lock, before \<open>stopping()\<close>; \<open>Admitted\<close>: has the lock, not stopping;
  \<open>Entered\<close>: \<open>discoveryDone\<close> set, lock released; \<open>Scanning\<close>: in \<open>scan\<close>; \<open>Scanned\<close>: before the second
  lock; \<open>Cleared\<close>: before \<open>close(done)\<close>; \<open>Finished\<close>: returned, channel closed; \<open>Left\<close>: returned
  without a scan of its own.
\<close>

datatype caller =
    Called | Joined nat | Checking | Admitted | Entered | Scanning | Scanned | Cleared | Finished | Left

datatype stopper = Running | Ending | Looking | Awaiting nat | Quiet | GaveUp

record flight =
  fl_lock :: "nat option"
  fl_done :: "nat option"
  fl_stopping :: bool
  fl_callers :: "caller list"
  fl_runs :: nat
  fl_stopper :: stopper

definition no_flight :: flight where
  "no_flight =
     \<lparr>fl_lock = None, fl_done = None, fl_stopping = False, fl_callers = [], fl_runs = 0, fl_stopper = Running\<rparr>"

definition set_caller :: "nat \<Rightarrow> caller \<Rightarrow> flight \<Rightarrow> flight" where
  "set_caller i c f = f\<lparr>fl_callers := (fl_callers f)[i := c]\<rparr>"

text \<open>The first critical section of \<open>RunDiscovery\<close>, from the lock to the look at \<open>discoveryDone\<close>.\<close>

definition enter :: "nat \<Rightarrow> flight \<Rightarrow> flight" where
  "enter i f =
     (case fl_done f of
        Some d \<Rightarrow> set_caller i (Joined d) f
      | None \<Rightarrow> set_caller i Checking (f\<lparr>fl_lock := Some i\<rparr>))"

text \<open>What a caller does next, and whether it can; \<open>scan\<close> counts the run when it starts.\<close>

definition advance :: "nat \<Rightarrow> flight \<Rightarrow> flight" where
  "advance i f =
     (case fl_callers f ! i of
        Called \<Rightarrow> enter i f
      | Joined d \<Rightarrow> set_caller i Left f
      | Checking \<Rightarrow> if fl_stopping f then set_caller i Left (f\<lparr>fl_lock := None\<rparr>) else set_caller i Admitted f
      | Admitted \<Rightarrow> set_caller i Entered (f\<lparr>fl_done := Some i, fl_lock := None\<rparr>)
      | Entered \<Rightarrow> set_caller i Scanning (f\<lparr>fl_runs := Suc (fl_runs f)\<rparr>)
      | Scanning \<Rightarrow> set_caller i Scanned f
      | Scanned \<Rightarrow> set_caller i Cleared (f\<lparr>fl_done := None\<rparr>)
      | Cleared \<Rightarrow> set_caller i Finished f
      | _ \<Rightarrow> f)"

definition done_closed :: "flight \<Rightarrow> nat \<Rightarrow> bool" where
  "done_closed f d \<longleftrightarrow> d < length (fl_callers f) \<and> fl_callers f ! d = Finished"

definition can_advance :: "flight \<Rightarrow> nat \<Rightarrow> bool" where
  "can_advance f i \<longleftrightarrow> i < length (fl_callers f) \<and>
     (case fl_callers f ! i of
        Called \<Rightarrow> fl_lock f = None
      | Scanned \<Rightarrow> fl_lock f = None
      | Joined d \<Rightarrow> done_closed f d
      | Finished \<Rightarrow> False
      | Left \<Rightarrow> False
      | _ \<Rightarrow> True)"

text \<open>The part of \<open>Stop\<close> that concerns discovery: \<open>endLife\<close>, the look under the lock, the wait.\<close>

definition stop_advance :: "flight \<Rightarrow> flight" where
  "stop_advance f =
     (case fl_stopper f of
        Running \<Rightarrow> f\<lparr>fl_stopper := Ending\<rparr>
      | Ending \<Rightarrow> f\<lparr>fl_stopping := True, fl_stopper := Looking\<rparr>
      | Looking \<Rightarrow> f\<lparr>fl_stopper := (case fl_done f of None \<Rightarrow> Quiet | Some d \<Rightarrow> Awaiting d)\<rparr>
      | Awaiting d \<Rightarrow> f\<lparr>fl_stopper := Quiet\<rparr>
      | _ \<Rightarrow> f)"

definition can_stop :: "flight \<Rightarrow> bool" where
  "can_stop f \<longleftrightarrow>
     (case fl_stopper f of
        Looking \<Rightarrow> fl_lock f = None
      | Awaiting d \<Rightarrow> done_closed f d
      | Quiet \<Rightarrow> False
      | GaveUp \<Rightarrow> False
      | _ \<Rightarrow> True)"

inductive flight_step :: "flight \<Rightarrow> flight \<Rightarrow> bool" where
  call: "flight_step f (f\<lparr>fl_callers := fl_callers f @ [Called]\<rparr>)"
| caller: "can_advance f i \<Longrightarrow> flight_step f (advance i f)"
| expire: "i < length (fl_callers f) \<Longrightarrow> fl_callers f ! i = Joined d \<Longrightarrow> flight_step f (set_caller i Left f)"
| stop: "can_stop f \<Longrightarrow> flight_step f (stop_advance f)"
| stop_expire: "fl_stopper f = Awaiting d \<Longrightarrow> flight_step f (f\<lparr>fl_stopper := GaveUp\<rparr>)"

inductive flight_reachable :: "flight \<Rightarrow> bool" where
  start: "flight_reachable no_flight"
| step: "flight_reachable f \<Longrightarrow> flight_step f f' \<Longrightarrow> flight_reachable f'"

section \<open>The invariant\<close>

definition is_at :: "flight \<Rightarrow> nat \<Rightarrow> caller set \<Rightarrow> bool" where
  "is_at f i cs \<longleftrightarrow> i < length (fl_callers f) \<and> fl_callers f ! i \<in> cs"

abbreviation in_scan :: "flight \<Rightarrow> nat \<Rightarrow> bool" where
  "in_scan f i \<equiv> is_at f i {Entered, Scanning, Scanned}"

abbreviation scanned_or_past :: "flight \<Rightarrow> nat \<Rightarrow> bool" where
  "scanned_or_past f i \<equiv> is_at f i {Entered, Scanning, Scanned, Cleared, Finished}"

abbreviation holding :: "flight \<Rightarrow> nat \<Rightarrow> bool" where
  "holding f i \<equiv> is_at f i {Checking, Admitted}"

text \<open>\<open>Stop\<close> has looked at \<open>discoveryDone\<close>.\<close>

definition looked :: "flight \<Rightarrow> bool" where
  "looked f \<longleftrightarrow> (case fl_stopper f of Running \<Rightarrow> False | Ending \<Rightarrow> False | Looking \<Rightarrow> False | _ \<Rightarrow> True)"

text \<open>
  \<open>discoveryDone\<close> holds the channel of exactly the caller that is in its scan; the lock is held by
  the caller between its two looks, while nobody scans; channels that are
  waited for are those of callers that scan or have scanned; and what \<open>Stop\<close> knows at each point.
\<close>

definition owner_ok :: "flight \<Rightarrow> bool" where
  "owner_ok f \<longleftrightarrow> (\<forall>i. fl_done f = Some i \<longleftrightarrow> in_scan f i)"

definition lock_ok :: "flight \<Rightarrow> bool" where
  "lock_ok f \<longleftrightarrow> (\<forall>i. fl_lock f = Some i \<longleftrightarrow> holding f i) \<and> (fl_lock f \<noteq> None \<longrightarrow> fl_done f = None)"

definition joined_ok :: "flight \<Rightarrow> bool" where
  "joined_ok f \<longleftrightarrow> (\<forall>i d. is_at f i {Joined d} \<longrightarrow> scanned_or_past f d)"

definition stopper_ok :: "flight \<Rightarrow> bool" where
  "stopper_ok f \<longleftrightarrow>
     (looked f \<or> fl_stopper f = Looking \<longrightarrow> fl_stopping f) \<and>
     (looked f \<longrightarrow> (\<forall>i. \<not> is_at f i {Admitted})) \<and>
     (\<forall>d. fl_stopper f = Awaiting d \<longrightarrow>
        scanned_or_past f d \<and> (\<forall>i. in_scan f i \<longrightarrow> i = d)) \<and>
     (fl_stopper f = Quiet \<longrightarrow> (\<forall>i. \<not> in_scan f i))"

definition flight_inv :: "flight \<Rightarrow> bool" where
  "flight_inv f \<longleftrightarrow> owner_ok f \<and> lock_ok f \<and> joined_ok f \<and> stopper_ok f"

lemma set_caller_simps [simp]:
  "fl_done (set_caller i c f) = fl_done f" "fl_stopping (set_caller i c f) = fl_stopping f"
  "fl_lock (set_caller i c f) = fl_lock f" "looked (set_caller i c f) = looked f"
  "fl_runs (set_caller i c f) = fl_runs f" "fl_stopper (set_caller i c f) = fl_stopper f"
  "length (fl_callers (set_caller i c f)) = length (fl_callers f)"
  by (simp_all add: set_caller_def looked_def)

lemma is_at_set_caller:
  "i < length (fl_callers f) \<Longrightarrow> is_at (set_caller i c f) j cs \<longleftrightarrow> (if j = i then c \<in> cs else is_at f j cs)"
  by (simp add: is_at_def set_caller_def nth_list_update)

lemma frame_simps [simp]:
  "looked (f\<lparr>fl_lock := l\<rparr>) = looked f" "looked (f\<lparr>fl_done := d\<rparr>) = looked f" "looked (f\<lparr>fl_runs := n\<rparr>) = looked f"
  "looked (f\<lparr>fl_callers := cs\<rparr>) = looked f" "looked (f\<lparr>fl_stopping := b\<rparr>) = looked f"
  "is_at (f\<lparr>fl_lock := l\<rparr>) = is_at f" "is_at (f\<lparr>fl_done := d\<rparr>) = is_at f" "is_at (f\<lparr>fl_runs := n\<rparr>) = is_at f"
  "is_at (f\<lparr>fl_stopping := b\<rparr>) = is_at f" "is_at (f\<lparr>fl_stopper := x\<rparr>) = is_at f"
  by (simp_all add: looked_def is_at_def fun_eq_iff)

lemma owner: "flight_inv f \<Longrightarrow> fl_done f = Some i \<longleftrightarrow> in_scan f i"
  unfolding flight_inv_def owner_ok_def by blast

lemma holder: "flight_inv f \<Longrightarrow> fl_lock f = Some i \<longleftrightarrow> holding f i"
  unfolding flight_inv_def lock_ok_def by blast

lemma is_at_same: "is_at f i cs \<Longrightarrow> is_at f i ds \<Longrightarrow> cs \<inter> ds \<noteq> {}"
  by (auto simp: is_at_def)

lemma call_inv: "flight_inv f \<Longrightarrow> flight_inv (f\<lparr>fl_callers := fl_callers f @ [Called]\<rparr>)"
proof -
  assume inv: "flight_inv f"
  let ?f = "f\<lparr>fl_callers := fl_callers f @ [Called]\<rparr>"
  have at: "is_at ?f i cs \<longleftrightarrow> is_at f i cs" if "Called \<notin> cs" for i cs
    using that by (auto simp: is_at_def nth_append less_Suc_eq)
  show ?thesis using inv
    unfolding flight_inv_def owner_ok_def lock_ok_def joined_ok_def stopper_ok_def by (simp add: at)
qed

text \<open>A caller moves, with what it does to the lock and to \<open>discoveryDone\<close>.\<close>

lemma move_inv:
  assumes inv: "flight_inv f" and i: "is_at f i {p}"
    and g: "is_at g = is_at f" "length (fl_callers g) = length (fl_callers f)" "fl_stopper g = fl_stopper f" "fl_stopping g = fl_stopping f"
    and owner: "\<And>j. fl_done g = Some j \<longleftrightarrow> (if j = i then c \<in> {Entered, Scanning, Scanned} else in_scan f j)"
    and lock: "\<And>j. fl_lock g = Some j \<longleftrightarrow> (if j = i then c \<in> {Checking, Admitted} else holding f j)"
    and free: "fl_lock g \<noteq> None \<Longrightarrow> fl_done g = None"
    and join: "\<And>d. c = Joined d \<Longrightarrow> d \<noteq> i \<and> scanned_or_past f d"
    and keep: "p \<in> {Entered, Scanning, Scanned, Cleared, Finished} \<Longrightarrow> c \<in> {Entered, Scanning, Scanned, Cleared, Finished}"
    and late: "looked f \<Longrightarrow> c \<noteq> Admitted \<and> (c \<in> {Entered, Scanning, Scanned} \<longrightarrow> p \<in> {Entered, Scanning, Scanned})"
  shows "flight_inv (set_caller i c g)"
proof -
  have len: "i < length (fl_callers g)" and here: "is_at f i cs \<longleftrightarrow> p \<in> cs" for cs
    using i g(2) by (auto simp: is_at_def)
  note at = is_at_set_caller [OF len, unfolded g(1)]
  have look: "looked g = looked f" using g(3) by (simp add: looked_def)
  have past: "scanned_or_past f d \<Longrightarrow> scanned_or_past (set_caller i c g) d" for d
    using keep here unfolding at by (cases "d = i") simp_all
  have "owner_ok (set_caller i c g)" unfolding owner_ok_def at using owner by simp
  moreover have "lock_ok (set_caller i c g)" unfolding lock_ok_def at using lock free by simp
  moreover have "joined_ok (set_caller i c g)" unfolding joined_ok_def
  proof (intro allI impI)
    fix j d assume j: "is_at (set_caller i c g) j {Joined d}"
    show "scanned_or_past (set_caller i c g) d"
    proof (cases "j = i")
      case True
      then show ?thesis using j join [of d] past by (simp add: at)
    next
      case False
      then have "is_at f j {Joined d}" using j by (simp add: at)
      then have "scanned_or_past f d" using inv unfolding flight_inv_def joined_ok_def by blast
      then show ?thesis by (rule past)
    qed
  qed
  moreover have "stopper_ok (set_caller i c g)"
  proof -
    have old: "stopper_ok f" using inv by (simp add: flight_inv_def)
    have scan: "looked f \<Longrightarrow> in_scan (set_caller i c g) j \<Longrightarrow> in_scan f j" for j
      using late here unfolding at by (cases "j = i") auto
    have adm: "looked f \<Longrightarrow> \<not> is_at (set_caller i c g) j {Admitted}" for j
      using late old unfolding at stopper_ok_def by (cases "j = i") auto
    have seen: "fl_stopper f = Quiet \<Longrightarrow> looked f" "fl_stopper f = Awaiting d \<Longrightarrow> looked f" for d
      by (simp_all add: looked_def)
    show ?thesis unfolding stopper_ok_def set_caller_simps look g(3,4)
    proof (intro conjI allI impI)
      show "fl_stopping f" if "looked f \<or> fl_stopper f = Looking" using old that by (simp add: stopper_ok_def)
      show "\<not> is_at (set_caller i c g) j {Admitted}" if "looked f" for j by (rule adm [OF that])
      show "scanned_or_past (set_caller i c g) d" if "fl_stopper f = Awaiting d" for d
        using old that past by (simp add: stopper_ok_def)
      show "j = d" if "fl_stopper f = Awaiting d" "in_scan (set_caller i c g) j" for d j
        using old that(1) scan [OF seen(2) [OF that(1)] that(2)] by (simp add: stopper_ok_def)
      show "\<not> in_scan (set_caller i c g) j" if "fl_stopper f = Quiet" for j
        using old that scan [OF seen(1) [OF that], of j] by (auto simp: stopper_ok_def)
    qed
  qed
  ultimately show ?thesis by (simp add: flight_inv_def)
qed

text \<open>What the lock and \<open>discoveryDone\<close> say when a caller has the one or the other.\<close>

lemma lock_held:
  assumes "flight_inv f" "holding f i"
  shows "fl_lock f = Some i" "fl_done f = None" "holding f j \<longleftrightarrow> j = i" "\<not> in_scan f j"
proof -
  show l: "fl_lock f = Some i" using holder [OF assms(1), of i] assms(2) by simp
  then show n: "fl_done f = None" using assms(1) by (simp add: flight_inv_def lock_ok_def)
  show "holding f j \<longleftrightarrow> j = i" using holder [OF assms(1), of j] l by auto
  show "\<not> in_scan f j" using owner [OF assms(1), of j] n by simp
qed

lemma scan_held:
  assumes "flight_inv f" "in_scan f i"
  shows "fl_done f = Some i" "in_scan f j \<longleftrightarrow> j = i" "fl_lock f = None" "\<not> holding f j"
proof -
  show d: "fl_done f = Some i" using owner [OF assms(1), of i] assms(2) by simp
  then show "in_scan f j \<longleftrightarrow> j = i" using owner [OF assms(1), of j] by auto
  show l: "fl_lock f = None" using assms(1) d by (auto simp: flight_inv_def lock_ok_def)
  show "\<not> holding f j" using holder [OF assms(1), of j] l by simp
qed

lemma idle_move_inv:
  assumes inv: "flight_inv f" and i: "is_at f i {p}" "p \<in> {Called, Joined d, Cleared}"
    and c: "c \<notin> {Entered, Scanning, Scanned, Checking, Admitted}" "p = Cleared \<Longrightarrow> c = Finished"
    and join: "\<And>d. c = Joined d \<Longrightarrow> in_scan f d"
  shows "flight_inv (set_caller i c f)"
proof (rule move_inv [OF inv i(1)])
  have here: "is_at f i cs \<longleftrightarrow> p \<in> cs" for cs using i(1) by (auto simp: is_at_def)
  show "fl_done f = Some j \<longleftrightarrow> (if j = i then c \<in> {Entered, Scanning, Scanned} else in_scan f j)" for j
    using owner [OF inv, of j] here i(2) c(1) by auto
  show "fl_lock f = Some j \<longleftrightarrow> (if j = i then c \<in> {Checking, Admitted} else holding f j)" for j
    using holder [OF inv, of j] here i(2) c(1) by auto
  show "d \<noteq> i \<and> scanned_or_past f d" if "c = Joined d" for d
  proof -
    have "\<not> in_scan f i" using here [of "{Entered, Scanning, Scanned}"] i(2) by auto
    then have "d \<noteq> i" using join [OF that] by blast
    moreover have "scanned_or_past f d" using join [OF that] by (auto simp: is_at_def)
    ultimately show ?thesis ..
  qed
qed (use inv i(2) c in \<open>auto simp: flight_inv_def lock_ok_def\<close>)

lemma advance_inv:
  assumes inv: "flight_inv f" and can: "can_advance f i"
  shows "flight_inv (advance i f)"
proof -
  have i: "is_at f i {fl_callers f ! i}" and here: "is_at f i cs \<longleftrightarrow> fl_callers f ! i \<in> cs" for cs
    using can by (auto simp: can_advance_def is_at_def)
  note move = move_inv [OF inv i]
  show ?thesis
  proof (cases "fl_callers f ! i")
    case Called
    then have nolock: "fl_lock f = None" using can by (simp add: can_advance_def)
    show ?thesis
    proof (cases "fl_done f")
      case None
      have "\<not> in_scan f j" "\<not> holding f j" for j
        using owner [OF inv, of j] holder [OF inv, of j] None nolock by simp_all
      then have "flight_inv (set_caller i Checking (f\<lparr>fl_lock := Some i\<rparr>))"
        using Called None by (intro move) auto
      then show ?thesis using Called None by (simp add: advance_def enter_def)
    next
      case (Some d)
      then have "in_scan f d" using owner [OF inv] by simp
      then have "flight_inv (set_caller i (Joined d) f)" using Called i by (intro idle_move_inv [OF inv i]) simp_all
      then show ?thesis using Called Some by (simp add: advance_def enter_def)
    qed
  next
    case (Joined d)
    then show ?thesis using idle_move_inv [OF inv i, of d Left] by (simp add: advance_def)
  next
    case Checking
    then have held: "holding f i" using here by simp
    note held = lock_held [OF inv held]
    have "flight_inv (set_caller i Left (f\<lparr>fl_lock := None\<rparr>))" using Checking held by (intro move) auto
    moreover have "\<not> looked f" if "\<not> fl_stopping f" using inv that by (auto simp: flight_inv_def stopper_ok_def)
    then have "\<not> fl_stopping f \<Longrightarrow> flight_inv (set_caller i Admitted f)" using Checking held by (intro move) auto
    ultimately show ?thesis using Checking by (simp add: advance_def)
  next
    case Admitted
    then have "holding f i" "is_at f i {Admitted}" using here by simp_all
    note held = lock_held [OF inv this(1)] and adm = this(2)
    have "\<not> looked f" using inv adm unfolding flight_inv_def stopper_ok_def by blast
    then have "flight_inv (set_caller i Entered (f\<lparr>fl_done := Some i, fl_lock := None\<rparr>))"
      using Admitted held by (intro move) auto
    then show ?thesis using Admitted by (simp add: advance_def)
  next
    case Entered
    then have scan: "in_scan f i" using here by simp
    have "flight_inv (set_caller i Scanning (f\<lparr>fl_runs := Suc (fl_runs f)\<rparr>))"
      using Entered scan_held [OF inv scan] by (intro move) auto
    then show ?thesis using Entered by (simp add: advance_def)
  next
    case Scanning
    then have scan: "in_scan f i" using here by simp
    have "flight_inv (set_caller i Scanned f)" using Scanning scan_held [OF inv scan] by (intro move) auto
    then show ?thesis using Scanning by (simp add: advance_def)
  next
    case Scanned
    then have scan: "in_scan f i" using here by simp
    have "flight_inv (set_caller i Cleared (f\<lparr>fl_done := None\<rparr>))" using Scanned scan_held [OF inv scan] by (intro move) auto
    then show ?thesis using Scanned by (simp add: advance_def)
  next
    case Cleared
    then show ?thesis using idle_move_inv [OF inv i, of _ Finished] by (simp add: advance_def)
  qed (use inv in \<open>simp_all add: advance_def\<close>)
qed

lemma stopper_frame [simp]:
  "owner_ok (f\<lparr>fl_stopper := x\<rparr>) = owner_ok f" "joined_ok (f\<lparr>fl_stopper := x\<rparr>) = joined_ok f"
  "owner_ok (f\<lparr>fl_stopping := b\<rparr>) = owner_ok f" "joined_ok (f\<lparr>fl_stopping := b\<rparr>) = joined_ok f"
  "lock_ok (f\<lparr>fl_stopper := x\<rparr>) = lock_ok f" "lock_ok (f\<lparr>fl_stopping := b\<rparr>) = lock_ok f"
  by (simp_all add: owner_ok_def joined_ok_def lock_ok_def)

lemma stop_inv:
  assumes inv: "flight_inv f" and can: "can_stop f"
  shows "flight_inv (stop_advance f)"
proof -
  have "owner_ok (stop_advance f) \<and> joined_ok (stop_advance f) \<and> lock_ok (stop_advance f)"
    using inv by (cases "fl_stopper f") (simp_all add: stop_advance_def flight_inv_def)
  moreover have "stopper_ok (stop_advance f)"
  proof (cases "fl_stopper f")
    case Looking
    have s: "fl_stopping f" using inv Looking by (simp add: flight_inv_def stopper_ok_def)
    have "fl_lock f = None" using can Looking by (simp add: can_stop_def)
    then have "\<not> holding f i" for i using holder [OF inv, of i] by simp
    then have adm: "\<not> is_at f i {Admitted}" for i by (auto simp: is_at_def)
    show ?thesis
    proof (cases "fl_done f")
      case None
      then have "\<not> in_scan f i" for i using owner [OF inv, of i] by simp
      then show ?thesis using Looking None s adm by (simp add: stop_advance_def stopper_ok_def)
    next
      case (Some d)
      then have scan: "in_scan f i \<longleftrightarrow> i = d" for i using owner [OF inv, of i] by auto
      then have "scanned_or_past f d" using scan [of d] by (auto simp: is_at_def)
      then show ?thesis using Looking Some s adm scan by (simp add: stop_advance_def stopper_ok_def)
    qed
  next
    case (Awaiting d)
    then have look: "looked f" by (simp add: looked_def)
    then have facts: "fl_stopping f" "\<And>i. in_scan f i \<Longrightarrow> i = d" "\<And>i. \<not> is_at f i {Admitted}"
      using inv Awaiting by (simp_all add: flight_inv_def stopper_ok_def)
    have "\<not> in_scan f d" using can Awaiting by (simp add: can_stop_def done_closed_def is_at_def)
    then have "\<not> in_scan f i" for i using facts(2) by blast
    then show ?thesis using Awaiting facts(1,3) by (simp add: stop_advance_def stopper_ok_def)
  qed (use inv can in \<open>simp_all add: stop_advance_def stopper_ok_def looked_def can_stop_def\<close>)
  ultimately show ?thesis by (simp add: flight_inv_def)
qed

lemma flight_reachable_inv: "flight_reachable f \<Longrightarrow> flight_inv f"
proof (induction rule: flight_reachable.induct)
  case start
  show ?case
    by (simp add: flight_inv_def owner_ok_def lock_ok_def joined_ok_def stopper_ok_def looked_def no_flight_def is_at_def)
next
  case (step f f')
  from step(2,3) show ?case
  proof cases
    case (expire i d)
    then show ?thesis using idle_move_inv [of f i "Joined d" d Left] step.IH by (simp add: is_at_def)
  next
    case (stop_expire d)
    then show ?thesis using step.IH by (simp add: flight_inv_def stopper_ok_def looked_def)
  qed (auto intro: call_inv advance_inv stop_inv)
qed

section \<open>Progress\<close>

text \<open>The steps that need no new call and no expired context.\<close>

definition flight_own_step :: "flight \<Rightarrow> flight \<Rightarrow> bool" where
  "flight_own_step f f' \<longleftrightarrow> (\<exists>i. can_advance f i \<and> f' = advance i f) \<or> can_stop f \<and> f' = stop_advance f"

fun caller_rank :: "caller \<Rightarrow> nat" where
  "caller_rank Called = 8"
| "caller_rank Checking = 7"
| "caller_rank Admitted = 6"
| "caller_rank Entered = 5"
| "caller_rank Scanning = 4"
| "caller_rank Scanned = 3"
| "caller_rank Cleared = 2"
| "caller_rank (Joined d) = 1"
| "caller_rank _ = 0"

fun stopper_rank :: "stopper \<Rightarrow> nat" where
  "stopper_rank Running = 4"
| "stopper_rank Ending = 3"
| "stopper_rank Looking = 2"
| "stopper_rank (Awaiting d) = 1"
| "stopper_rank _ = 0"

definition flight_work :: "flight \<Rightarrow> nat" where
  "flight_work f = sum_list (map caller_rank (fl_callers f)) + stopper_rank (fl_stopper f)"

lemma set_caller_work:
  assumes "i < length (fl_callers f)" "caller_rank c < caller_rank (fl_callers f ! i)"
    and "fl_callers g = fl_callers f" "fl_stopper g = fl_stopper f"
  shows "flight_work (set_caller i c g) < flight_work f"
proof -
  let ?xs = "map caller_rank (fl_callers f)"
  have "sum_list (?xs[i := caller_rank c]) = sum_list ?xs + caller_rank c - ?xs ! i"
    by (rule sum_list_update) (simp add: assms(1))
  moreover have "?xs ! i \<le> sum_list ?xs" using assms(1) by (intro member_le_sum_list) simp_all
  ultimately show ?thesis using assms by (simp add: flight_work_def set_caller_def map_update)
qed

lemma advance_work: "can_advance f i \<Longrightarrow> flight_work (advance i f) < flight_work f"
  by (cases "fl_callers f ! i")
    (auto simp: can_advance_def advance_def enter_def intro!: set_caller_work split: option.splits)

lemma flight_own_work: "flight_own_step f f' \<Longrightarrow> flight_work f' < flight_work f"
  unfolding flight_own_step_def
proof (elim disjE exE conjE)
  fix i assume "can_advance f i" "f' = advance i f"
  then show ?thesis by (simp add: advance_work)
next
  assume "can_stop f" "f' = stop_advance f"
  then show ?thesis
    by (cases "fl_stopper f") (simp_all add: can_stop_def stop_advance_def flight_work_def split: option.splits)
qed

text \<open>Nobody who can be waited for is stuck: not the holder of the lock, not the one that scans.\<close>

lemma holder_unblocked: "flight_inv f \<Longrightarrow> fl_lock f = Some i \<Longrightarrow> can_advance f i"
  using holder [of f i] by (auto simp: is_at_def can_advance_def)

lemma joined_unblocked:
  assumes "scanned_or_past f d" "\<not> can_advance f d" "fl_lock f = None"
  shows "done_closed f d"
  using assms by (auto simp: is_at_def can_advance_def done_closed_def)

lemma blocked_all_returned:
  assumes inv: "flight_inv f" and none: "\<And>f'. \<not> flight_own_step f f'"
  shows "list_all (\<lambda>c. c \<in> {Finished, Left}) (fl_callers f) \<and> fl_stopper f \<in> {Quiet, GaveUp}"
proof -
  have stuck: "\<not> can_advance f i" "\<not> can_stop f" for i using none by (auto simp: flight_own_step_def)
  have free: "fl_lock f = None" using holder_unblocked [OF inv] stuck(1) by (cases "fl_lock f") auto
  have "fl_callers f ! i \<in> {Finished, Left}" if i: "i < length (fl_callers f)" for i
  proof (cases "fl_callers f ! i")
    case (Joined d)
    then have "scanned_or_past f d" using inv i unfolding flight_inv_def joined_ok_def by (auto simp: is_at_def)
    from joined_unblocked [OF this stuck(1) free] show ?thesis using stuck(1) [of i] i Joined by (simp add: can_advance_def)
  qed (use stuck(1) [of i] i free in \<open>simp_all add: can_advance_def\<close>)
  moreover have "fl_stopper f \<in> {Quiet, GaveUp}"
  proof (cases "fl_stopper f")
    case (Awaiting d)
    then have "scanned_or_past f d" using inv by (simp add: flight_inv_def stopper_ok_def)
    from joined_unblocked [OF this stuck(1) free] show ?thesis using stuck(2) Awaiting by (simp add: can_stop_def)
  qed (use stuck(2) free in \<open>simp_all add: can_stop_def\<close>)
  ultimately show ?thesis by (simp add: list_all_length)
qed

text \<open>Who can begin a scan.\<close>

lemma only_admitted_enter:
  assumes "flight_inv f" "flight_step f f'" "in_scan f' i" "\<not> in_scan f i"
  shows "is_at f i {Admitted}"
  using assms(2)
proof cases
  case call
  then show ?thesis using assms(3,4) by (auto simp: is_at_def nth_append split: if_splits)
next
  case (caller j)
  then have j: "j < length (fl_callers f)" by (simp add: can_advance_def)
  note at = is_at_set_caller
  show ?thesis
  proof (cases "i = j")
    case True
    then show ?thesis using assms(3,4) caller j
      by (cases "fl_callers f ! j") (auto simp: advance_def enter_def at is_at_def [of f j] split: option.splits if_splits)
  next
    case False
    then show ?thesis using assms(3,4) caller
      by (cases "fl_callers f ! j") (simp_all add: advance_def enter_def at j split: option.splits if_splits)
  qed
next
  case (expire j d)
  then show ?thesis using assms(3,4) by (auto simp: is_at_set_caller split: if_splits)
next
  case stop
  then show ?thesis using assms(3,4) by (auto simp: is_at_def stop_advance_def split: stopper.splits)
next
  case (stop_expire d)
  then show ?thesis using assms(3,4) by simp
qed

lemma quiet_step:
  assumes "fl_stopper f = Quiet" "flight_step f f'" "\<And>i. \<not> in_scan f i"
  shows "fl_stopper f' = Quiet \<and> fl_runs f' = fl_runs f"
  using assms(2)
proof cases
  case (caller i)
  then have "fl_callers f ! i \<noteq> Entered" using assms(3) [of i] by (auto simp: is_at_def can_advance_def)
  then show ?thesis using caller assms(1) by (auto simp: advance_def enter_def split: caller.splits option.splits)
qed (use assms(1) in \<open>simp_all add: stop_advance_def\<close>)

section \<open>Properties\<close>

text \<open>C12: discovery is single-flight, under every interleaving of the goroutines: at most one caller
  is in a scan.  Ending the lifetime does not take the lock, so a caller that looked at
  \<open>stopping()\<close> just before may still begin a scan, but only that one, and \<open>Stop\<close> sees it: once
  \<open>Stop\<close> has looked at \<open>discoveryDone\<close> no further caller enters a scan, and when it has come past
  its wait without giving up, no scan is running, nor will one ever run again.\<close>

theorem discovery_single_flight:
  assumes "flight_reachable f"
  shows "(\<forall>i j. in_scan f i \<and> in_scan f j \<longrightarrow> i = j)
    \<and> (\<forall>f' i. flight_step f f' \<and> in_scan f' i \<and> \<not> in_scan f i \<longrightarrow>
        fl_callers f ! i = Admitted \<and> fl_lock f = Some i \<and> \<not> looked f)
    \<and> (fl_stopper f = Quiet \<longrightarrow> fl_stopping f \<and> (\<forall>i. \<not> in_scan f i) \<and>
        (\<forall>f'. flight_step f f' \<longrightarrow> fl_stopper f' = Quiet \<and> fl_runs f' = fl_runs f))"
proof (intro conjI allI impI)
  note inv = flight_reachable_inv [OF assms]
  show "i = j" if "in_scan f i \<and> in_scan f j" for i j
    using owner [OF inv, of i] owner [OF inv, of j] that by simp
  show "fl_callers f ! i = Admitted" "fl_lock f = Some i" "\<not> looked f"
    if "flight_step f f' \<and> in_scan f' i \<and> \<not> in_scan f i" for f' i
  proof -
    have adm: "is_at f i {Admitted}" using only_admitted_enter [OF inv] that by blast
    then show "fl_callers f ! i = Admitted" "fl_lock f = Some i" using holder [OF inv, of i] by (simp_all add: is_at_def)
    show "\<not> looked f" using inv adm unfolding flight_inv_def stopper_ok_def by blast
  qed
  show quiet: "fl_stopping f" "\<not> in_scan f i" if "fl_stopper f = Quiet" for i
    using inv that unfolding flight_inv_def stopper_ok_def looked_def by simp_all
  show "fl_stopper f' = Quiet" "fl_runs f' = fl_runs f" if "fl_stopper f = Quiet" "flight_step f f'" for f'
    using quiet_step [OF that quiet(2) [OF that(1)]] by simp_all
qed

text \<open>
  The lifetime ends while a caller holds the lock and has passed the check: it scans all the same,
  a second caller joins it, and \<open>Stop\<close> waits for it.
\<close>

definition late_entry :: flight where
  "late_entry =
     \<lparr>fl_lock = Some 0, fl_done = None, fl_stopping = True, fl_callers = [Admitted], fl_runs = 0, fl_stopper = Looking\<rparr>"

definition busy_flight :: flight where
  "busy_flight =
     \<lparr>fl_lock = None, fl_done = Some 0, fl_stopping = True, fl_callers = [Scanning, Joined 0], fl_runs = 1,
      fl_stopper = Awaiting 0\<rparr>"

lemma late_entry_reachable: "flight_reachable late_entry"
proof -
  let ?call = "\<lambda>f. f\<lparr>fl_callers := fl_callers f @ [Called]\<rparr>"
  let ?f1 = "?call no_flight"
  let ?f2 = "advance 0 ?f1"
  let ?f3 = "advance 0 ?f2"
  let ?f4 = "stop_advance ?f3"
  have "flight_reachable ?f1" by (rule flight_reachable.step [OF flight_reachable.start call])
  moreover have "can_advance ?f1 0" "can_advance ?f2 0" "can_stop ?f3" "can_stop ?f4" "stop_advance ?f4 = late_entry"
    by code_simp+
  ultimately show ?thesis by (metis flight_reachable.step flight_step.intros(2,4))
qed

lemma busy_flight_reachable: "flight_reachable busy_flight"
proof -
  let ?f1 = "advance 0 late_entry"
  let ?f2 = "advance 0 ?f1"
  let ?f3 = "?f2\<lparr>fl_callers := fl_callers ?f2 @ [Called]\<rparr>"
  let ?f4 = "advance 1 ?f3"
  have "flight_reachable ?f2"
    by (rule flight_reachable.step [OF flight_reachable.step [OF late_entry_reachable caller] caller]) code_simp+
  then have "flight_reachable ?f3" by (rule flight_reachable.step) (rule call)
  moreover have "can_advance ?f3 1" "can_stop ?f4" "stop_advance ?f4 = busy_flight" by code_simp+
  ultimately show ?thesis by (metis flight_reachable.step flight_step.intros(2,4))
qed

theorem discovery_single_flight_witness:
  "flight_step late_entry (advance 0 late_entry) \<and> in_scan (advance 0 late_entry) 0 \<and> fl_lock late_entry = Some 0
    \<and> \<not> looked late_entry \<and> in_scan busy_flight 0 \<and> \<not> in_scan busy_flight 1"
proof -
  have "can_advance late_entry 0" "in_scan (advance 0 late_entry) 0" "\<not> in_scan late_entry 0" by code_simp+
  moreover from this have "flight_step late_entry (advance 0 late_entry)" by (intro flight_step.caller)
  moreover have "in_scan busy_flight 0" by code_simp
  ultimately show ?thesis
    using discovery_single_flight [OF late_entry_reachable] discovery_single_flight [OF busy_flight_reachable]
    by (metis zero_neq_one)
qed

text \<open>C13: no goroutine waits for ever: without new calls and without expired contexts, every schedule
  is finite, and when no goroutine can move all callers of \<open>RunDiscovery\<close> have returned and \<open>Stop\<close>
  is past its wait for the running scan.\<close>

theorem discovery_drains:
  assumes "flight_reachable f"
  shows "(\<forall>f'. flight_own_step f f' \<longrightarrow> flight_work f' < flight_work f)
    \<and> ((\<forall>f'. \<not> flight_own_step f f') \<longrightarrow>
        list_all (\<lambda>c. c \<in> {Finished, Left}) (fl_callers f) \<and> fl_stopper f \<in> {Quiet, GaveUp})"
  using flight_own_work blocked_all_returned [OF flight_reachable_inv [OF assms]] by blast

theorem discovery_drains_witness:
  "flight_own_step busy_flight (advance 0 busy_flight) \<and> flight_work (advance 0 busy_flight) < 6"
proof -
  have "can_advance busy_flight 0" "flight_work busy_flight = 6" by code_simp+
  moreover from this have "flight_own_step busy_flight (advance 0 busy_flight)" unfolding flight_own_step_def by blast
  ultimately show ?thesis using discovery_drains [OF busy_flight_reachable] by metis
qed

end
