(* ===== verification/Shutdown.thy ===== *)
theory Shutdown
  imports Prelude
begin

text \<open>
  File \<open>internal/controller/controller.go\<close>: the life of a controller, from \<open>Start\<close> to \<open>Stop\<close>, with
  the goroutines that \<open>Stop\<close> waits for: the poll loop (channel \<open>pollDone\<close>) and the background work
  (the wait groups of the queue and of \<open>background\<close>, counted together).  The wait for a running
  scan is the subject of \<open>Discovery_Flight\<close>.  \<open>Start\<close> may run at the same time as \<open>Stop\<close>.
\<close>

section \<open>Definitions\<close>



















section \<open>Lemmas\<close>















section \<open>Properties\<close>





end
