(* ===== verification/Json_Roundtrip.thy ===== *)
theory Json_Roundtrip
  imports Json_Parser Ipv4
begin

text \<open>
  What \<open>json.Marshal\<close> renders, \<open>json.Unmarshal\<close> reads back: the value with every invalid UTF-8
  byte of its strings replaced by U+FFFD.  The numbers rendered by the program are integers.
  The proof goes through the texts as they are nested, so it covers every payload and request
  the program builds.
\<close>

section \<open>Strings\<close>

text \<open>\<open>strings.ToValidUTF8\<close> with U+FFFD for each invalid byte.\<close>

function to_valid :: "string \<Rightarrow> string" where
  "to_valid s =
     (if s = [] then []
      else let (n, ok) = rune_size s in (if ok then take n s else utf8_encode replacement_rune) @ to_valid (drop n s))"
  by pat_completeness auto
termination
proof (relation "measure length")
  fix s x n ok
  assume "s \<noteq> []" "x = rune_size s" "(n, ok) = x"
  then have "0 < n" using rune_size_pos [of s] by (metis fst_conv)
  with \<open>s \<noteq> []\<close> show "(drop n s, s) \<in> measure length" by simp
qed simp

declare to_valid.simps [simp del]

lemma to_valid_Nil [simp]: "to_valid [] = []"
  by (simp add: to_valid.simps)

lemma cont_bytes_app:
  "cont_bytes k lo hi cs \<Longrightarrow> k \<noteq> 0 \<Longrightarrow> k \<le> m \<Longrightarrow> cont_bytes k lo hi (take m cs @ rest)"
proof (cases cs; cases m)
  fix a l i
  assume a: "cont_bytes k lo hi cs" "k \<noteq> 0" "k \<le> m" "cs = a # l" "m = Suc i"
  then have "k - 1 \<le> length l" "k - 1 \<le> i" by (auto simp: cont_bytes_def)
  then have "take (k - 1) (take i l @ rest) = take (k - 1) l" by (auto simp: min_def)
  then show ?thesis using a by (auto simp: cont_bytes_def)
qed (auto simp: cont_bytes_def)

lemma rune_size_app:
  assumes "rune_size s = (n, True)"
  shows "rune_size (take n s @ rest) = (n, True)"
proof (cases s)
  case (Cons c cs)
  show ?thesis using assms cont_bytes_app [of 1 _ _ cs "n - 1" rest] cont_bytes_app [of 2 _ _ cs "n - 1" rest]
      cont_bytes_app [of 3 _ _ cs "n - 1" rest]
    unfolding Cons by (auto simp: rune_size_def Let_def numeral_2_eq_2 numeral_3_eq_3 split: if_splits)
qed (use assms in \<open>simp add: rune_size_def\<close>)

lemma cont_bytes_length: "cont_bytes k lo hi cs \<Longrightarrow> k \<le> length cs"
  by (cases cs) (auto simp: cont_bytes_def)

lemma rune_size_le: "rune_size s = (n, ok) \<Longrightarrow> n \<le> length s"
proof (cases s)
  case (Cons c cs)
  show "rune_size s = (n, ok) \<Longrightarrow> n \<le> length s"
    unfolding Cons by (simp only: rune_size_def Let_def list.case split: if_splits) (drule cont_bytes_length | simp)+
qed (simp add: rune_size_def)

lemma rune_size_ascii: "of_char c < (0x80 :: nat) \<Longrightarrow> rune_size (c # cs) = (1, True)"
  by (simp add: rune_size_def)

lemma rune_size_one: "rune_size (c # cs) = (Suc 0, True) \<Longrightarrow> of_char c < (0x80 :: nat)"
  by (simp add: rune_size_def Let_def split: if_splits)

lemma rune_size_more: "rune_size (c # cs) = (Suc (Suc n), True) \<Longrightarrow> of_char c \<ge> (0x80 :: nat)"
  by (simp add: rune_size_def Let_def split: if_splits)

lemma hex_val_digit: "k < 16 \<Longrightarrow> hex_val (hex_digit k) = Some k"
  by (auto simp: hex_val_def hex_digit_def lower_char_def is_digit_def less_eq_char_def less_char_def Let_def)

text \<open>One rendered rune is read back.\<close>

lemma parse_unicode:
  assumes "hex4 [a, b, c, d] = Some k" "k < 0xD800 \<or> k > 0xDFFF"
  shows "parse_string (CHR 0x5C # CHR ''u'' # a # b # c # d # rest) =
    map_option (\<lambda>(t, q). (utf8_encode k @ t, q)) (parse_string rest)"
proof -
  have "hex4 (a # b # c # d # rest) = Some k" using assms(1) by (simp add: hex4_def)
  then show ?thesis using assms(2) by (simp add: parse_string_backslash unicode_escape_def)
qed

lemma parse_short:
  assumes "escape_char e = Some d" "e \<noteq> CHR ''u''"
  shows "parse_string (CHR 0x5C # e # rest) = map_option (\<lambda>(t, q). (d # t, q)) (parse_string rest)"
  using assms by (simp add: parse_string_backslash)

lemma escape_chars:
  "escape_char (CHR 0x22) = Some (CHR 0x22)" "escape_char (CHR 0x5C) = Some (CHR 0x5C)"
  "escape_char (CHR ''b'') = Some (CHR 0x08)" "escape_char (CHR ''f'') = Some (CHR 0x0C)"
  "escape_char (CHR ''n'') = Some (CHR 0x0A)" "escape_char (CHR ''r'') = Some (CHR 0x0D)"
  "escape_char (CHR ''t'') = Some (CHR 0x09)"
  by (simp_all add: escape_char_def)

lemmas parse_shorts = escape_chars [THEN parse_short, simplified]

lemma escape_shorts:
  "escape_rune [CHR 0x22] True = [CHR 0x5C, CHR 0x22]" "escape_rune [CHR 0x5C] True = [CHR 0x5C, CHR 0x5C]"
  "escape_rune [CHR 0x08] True = CHR 0x5C # ''b''" "escape_rune [CHR 0x0C] True = CHR 0x5C # ''f''"
  "escape_rune [CHR 0x0A] True = CHR 0x5C # ''n''" "escape_rune [CHR 0x0D] True = CHR 0x5C # ''r''"
  "escape_rune [CHR 0x09] True = CHR 0x5C # ''t''"
  by (simp_all add: escape_rune_def)

lemma parse_rune:
  assumes "rune_size s = (n, True)" "s = c # cs" "c \<noteq> CHR 0x22" "c \<noteq> CHR 0x5C" "\<not> c < CHR 0x20"
  shows "parse_string (take n s @ rest) = map_option (\<lambda>(t, q). (take n s @ t, q)) (parse_string rest)"
proof -
  have n: "0 < n" "n \<le> length s" using rune_size_pos [of s] rune_size_le [of s] assms(1,2) by simp_all
  then obtain xs where x: "take n s @ rest = c # xs" using assms(2) by (cases n) auto
  have "rune_size (take n s @ rest) = (n, True)" by (rule rune_size_app [OF assms(1)])
  then have "parse_string (take n s @ rest) =
      map_option (\<lambda>(t, q). (take n (take n s @ rest) @ t, q)) (parse_string (drop n (take n s @ rest)))"
    unfolding x using parse_string_plain [OF assms(3,4), of xs] assms(5) n(1) by simp
  then show ?thesis using n by simp
qed

lemma char_less_nat: "c < d \<longleftrightarrow> (of_char c :: nat) < of_char d"
  by (simp add: less_char_def)

lemma parse_ascii:
  assumes "of_char c < (0x80 :: nat)"
  shows "parse_string (escape_rune [c] True @ rest) = map_option (\<lambda>(t, q). (c # t, q)) (parse_string rest)"
proof -
  let ?n = "of_char c :: nat"
  let ?short = "c \<in> {CHR 0x22, CHR 0x5C, CHR 0x08, CHR 0x0C, CHR 0x0A, CHR 0x0D, CHR 0x09}"
    and ?hex = "c < CHR 0x20 \<or> c \<in> {CHR ''<'', CHR ''>'', CHR ''&''}"
  consider (short) "?short" | (hex) "\<not> ?short" "?hex" | (plain) "\<not> ?short" "\<not> ?hex" by argo
  then show ?thesis
  proof cases
    case short
    then have "c = CHR 0x22 \<or> c = CHR 0x5C \<or> c = CHR 0x08 \<or> c = CHR 0x0C \<or> c = CHR 0x0A \<or> c = CHR 0x0D \<or> c = CHR 0x09" by simp
    then show ?thesis by (elim disjE) (simp_all add: escape_shorts parse_shorts)
  next
    case hex
    have k: "?n div 16 < 16" "?n mod 16 < 16" using assms by simp_all
    have "hex4 [CHR ''0'', CHR ''0'', hex_digit (?n div 16), hex_digit (?n mod 16)] = Some (?n div 16 * 16 + ?n mod 16)"
      using hex_val_digit [OF k(1)] hex_val_digit [OF k(2)]
      by (simp add: hex4_def hex_val_def [of "CHR ''0''"] lower_char_def is_digit_def Let_def)
    then have "hex4 [CHR ''0'', CHR ''0'', hex_digit (?n div 16), hex_digit (?n mod 16)] = Some ?n" by simp
    from parse_unicode [OF this, of rest] hex assms show ?thesis
      by (simp add: escape_rune_def utf8_encode_def)
  next
    case plain
    have "rune_size [c] = (1, True)" by (rule rune_size_ascii [OF assms])
    from parse_rune [OF this refl, of rest] plain show ?thesis by (simp add: escape_rune_def)
  qed
qed

lemma utf8_separators:
  "utf8_encode 0x2028 = [CHR 0xE2, CHR 0x80, CHR 0xA8]" "utf8_encode 0x2029 = [CHR 0xE2, CHR 0x80, CHR 0xA9]"
  by (simp_all add: utf8_encode_def char_of_eq_iff)

lemma parse_escape:
  assumes "s \<noteq> []" "rune_size s = (n, ok)"
  shows "parse_string (escape_rune (take n s) ok @ rest) =
    map_option (\<lambda>(t, q). ((if ok then take n s else utf8_encode replacement_rune) @ t, q)) (parse_string rest)"
proof (cases ok)
  case False
  have "hex4 ''fffd'' = Some 0xFFFD" by (simp add: hex4_def hex_val_def lower_char_def is_digit_def)
  from parse_unicode [OF this, of rest] show ?thesis using False by (simp add: escape_rune_def replacement_rune_def)
next
  case True
  obtain c cs where s: "s = c # cs" using assms(1) by (cases s) auto
  have n: "0 < n" "n \<le> length s" using rune_size_pos [OF assms(1)] rune_size_le [OF assms(2)] assms(2) by simp_all
  show ?thesis
  proof (cases "n = 1")
    case one: True
    have "of_char c < (0x80 :: nat)" using rune_size_one assms(2) True s one by simp
    from parse_ascii [OF this, of rest] show ?thesis using True s one by simp
  next
    case more: False
    then obtain k where k: "n = Suc (Suc k)" using n by (cases n; cases "n - 1") auto
    have c: "of_char c \<ge> (0x80 :: nat)" using rune_size_more assms(2) True s k by simp
    then have plain: "c \<noteq> CHR 0x22" "c \<noteq> CHR 0x5C" "\<not> c < CHR 0x20" by (auto simp: char_less_nat)
    have two: "take n s = c # take (Suc k) cs" "length (take n s) \<ge> 2" using s k n by auto
    have "hex4 ''2028'' = Some 0x2028" "hex4 ''2029'' = Some 0x2029"
      by (simp_all add: hex4_def hex_val_def lower_char_def is_digit_def)
    from parse_unicode [OF this(1), of rest] parse_unicode [OF this(2), of rest]
    have sep: "parse_string (CHR 0x5C # ''u2028'' @ rest) =
        map_option (\<lambda>(t, q). ([CHR 0xE2, CHR 0x80, CHR 0xA8] @ t, q)) (parse_string rest)"
      "parse_string (CHR 0x5C # ''u2029'' @ rest) =
        map_option (\<lambda>(t, q). ([CHR 0xE2, CHR 0x80, CHR 0xA9] @ t, q)) (parse_string rest)"
      by (simp_all add: utf8_separators)
    show ?thesis
    proof (cases "take n s = [CHR 0xE2, CHR 0x80, CHR 0xA8] \<or> take n s = [CHR 0xE2, CHR 0x80, CHR 0xA9]")
      case True
      then have "escape_rune (take n s) True = CHR 0x5C # ''u2028'' \<and> take n s = [CHR 0xE2, CHR 0x80, CHR 0xA8] \<or>
          escape_rune (take n s) True = CHR 0x5C # ''u2029'' \<and> take n s = [CHR 0xE2, CHR 0x80, CHR 0xA9]"
        by (elim disjE) (simp_all add: escape_rune_def)
      then show ?thesis using sep \<open>ok\<close> by (elim disjE conjE) simp_all
    next
      case other: False
      obtain d ds where "take n s = c # d # ds" using two by (cases "take (Suc k) cs") auto
      then have "escape_rune (take n s) True = take n s" using other by (auto simp: escape_rune_def)
      then show ?thesis using parse_rune [OF _ s plain, of n rest] assms(2) True by simp
    qed
  qed
qed

lemma parse_escape_string: "parse_string (escape_string s @ CHR 0x22 # rest) = Some (to_valid s, rest)"
proof (induction "length s" arbitrary: s rule: less_induct)
  case less
  show ?case
  proof (cases "s = []")
    case True
    then show ?thesis by (simp add: escape_string.simps)
  next
    case False
    obtain n ok where n: "rune_size s = (n, ok)" by (cases "rune_size s")
    then have "length (drop n s) < length s" using False rune_size_pos [OF False] by simp
    then have "parse_string (escape_string (drop n s) @ CHR 0x22 # rest) = Some (to_valid (drop n s), rest)" by (rule less)
    then show ?thesis using False n parse_escape [OF False n, of "escape_string (drop n s) @ CHR 0x22 # rest"]
      by (simp add: escape_string.simps [of s] to_valid.simps [of s])
  qed
qed

section \<open>Numbers\<close>

definition delimited :: "string \<Rightarrow> bool" where
  "delimited rest \<longleftrightarrow> rest = [] \<or> hd rest \<in> {CHR '','', CHR '']'', CHR ''}''}"

lemma delimited_simps [simp]:
  "delimited []" "delimited (CHR '','' # r)" "delimited (CHR '']'' # r)" "delimited (CHR ''}'' # r)"
  by (simp_all add: delimited_def)

lemma delimitedE:
  assumes "delimited rest"
  obtains "rest = []" | r where "rest = CHR '','' # r" | r where "rest = CHR '']'' # r" | r where "rest = CHR ''}'' # r"
  using assms by (cases rest) (auto simp: delimited_def)

lemma delimited_facts:
  assumes "delimited rest"
  shows "takeWhile is_digit rest = []" "dropWhile is_digit rest = rest" "skip_space rest = rest"
    "take_frac rest = Some ([], rest)" "take_exp rest = Some ([], rest)"
  using assms
  by (cases rule: delimitedE;
      simp add: is_digit_def less_eq_char_def skip_space_def json_space_def take_frac_def take_exp_def)+

lemma digit_run:
  assumes "delimited rest"
  shows "takeWhile is_digit (cs @ rest) = takeWhile is_digit cs" "dropWhile is_digit (cs @ rest) = dropWhile is_digit cs @ rest"
  by (induction cs) (simp_all add: delimited_facts [OF assms])

lemma valid_exponent_parses:
  assumes "valid_exponent s" "delimited rest"
  shows "take_exp (s @ rest) = Some (s, rest)"
proof (cases s)
  case Nil
  then show ?thesis using assms(2) by (simp add: delimited_facts)
next
  case (Cons c cs)
  let ?ds = "snd (split_sign cs)"
  have c: "c = CHR ''e'' \<or> c = CHR ''E''" and ds: "?ds \<noteq> []" "list_all is_digit ?ds"
    using assms(1) Cons by (auto simp: valid_exponent_def Let_def)
  have run: "takeWhile is_digit (?ds @ rest) = ?ds" "dropWhile is_digit (?ds @ rest) = rest"
    using ds(2) by (simp_all add: digit_run [OF assms(2)] list_all_iff takeWhile_eq_all_conv dropWhile_eq_Nil_conv)
  have hd: "is_digit (hd ?ds)" using ds by (cases ?ds) auto
  obtain d es where cs: "cs = d # es" using ds by (cases cs) (auto simp: split_sign_def)
  have sgn: "\<not> is_digit (CHR ''+'')" "\<not> is_digit (CHR ''-'')" by (simp_all add: is_digit_def less_eq_char_def)
  show ?thesis
  proof (cases "d = CHR ''+'' \<or> d = CHR ''-''")
    case True
    then have e: "?ds = es" using cs by (auto simp: split_sign_def)
    then have "es \<noteq> []" "is_digit (hd es)" "takeWhile is_digit (es @ rest) = es" "dropWhile is_digit (es @ rest) = rest"
      using ds(1) hd run by simp_all
    with True c show ?thesis unfolding Cons cs by (elim disjE) (simp_all add: take_exp_def)
  next
    case False
    then have e: "?ds = d # es" using cs by (simp add: split_sign_def)
    then have "is_digit d" "takeWhile is_digit (es @ rest) = es" "dropWhile is_digit (es @ rest) = rest"
      using hd run by simp_all
    with False c show ?thesis unfolding Cons cs by (elim disjE) (simp_all add: take_exp_def)
  qed
qed

lemma valid_fraction_parses:
  assumes "valid_fraction s" "delimited rest"
  shows "\<exists>a b q. take_frac (s @ rest) = Some (a, q) \<and> take_exp q = Some (b, rest) \<and> s = a @ b"
proof (cases "s \<noteq> [] \<and> hd s = CHR ''.''")
  case True
  then obtain cs where s: "s = CHR ''.'' # cs" by (cases s) auto
  let ?ds = "takeWhile is_digit cs" and ?es = "dropWhile is_digit cs"
  have cs: "cs \<noteq> []" "is_digit (hd cs)" and es: "valid_exponent ?es"
    using assms(1) s by (simp_all add: valid_fraction_def drop_digits_def)
  from digit_run [OF assms(2), of cs] have "take_frac (s @ rest) = Some (CHR ''.'' # ?ds, ?es @ rest)" using cs s by (simp add: take_frac_def)
  then show ?thesis using valid_exponent_parses [OF es assms(2)] s by simp
next
  case False
  have "valid_exponent s \<and> take_frac (s @ rest) = Some ([], s @ rest)"
  proof (cases s)
    case Nil
    then show ?thesis using delimited_facts(4) [OF assms(2)] by (simp add: valid_exponent_def)
  next
    case (Cons c cs)
    then have "c \<noteq> CHR ''.''" using False by simp
    then show ?thesis using assms(1) Cons by (simp add: valid_fraction_def take_frac_def)
  qed
  then show ?thesis using valid_exponent_parses assms(2) by auto
qed

lemma valid_number_parses:
  assumes "valid_number t" "delimited rest"
  shows "parse_number (t @ rest) = Some (JNum t, rest)"
proof -
  let ?neg = "if t \<noteq> [] \<and> hd t = CHR ''-'' then ''-'' else []" and ?u = "if t \<noteq> [] \<and> hd t = CHR ''-'' then tl t else t"
  obtain c cs where u: "?u = c # cs" and ok: "if c = CHR ''0'' then valid_fraction cs else is_digit c \<and> valid_fraction (drop_digits cs)"
    using assms(1) by (cases ?u) (auto simp: valid_number_def Let_def)
  have t: "t = ?neg @ c # cs" using u by (cases t) auto
  have neg: "(if t @ rest \<noteq> [] \<and> hd (t @ rest) = CHR ''-'' then ''-'' else []) = ?neg"
    using u by (cases t) auto
  have rest: "drop (length ?neg) (t @ rest) = c # cs @ rest" by (subst t) simp
  obtain i s1 where i: "take_int (c # cs @ rest) = Some (i, s1 @ rest)" "valid_fraction s1" "c # cs = i @ s1"
  proof (cases "c = CHR ''0''")
    case True
    then show thesis using ok that [of "[c]" cs] by (simp add: take_int_def)
  next
    case False
    let ?ds = "takeWhile is_digit cs" and ?es = "dropWhile is_digit cs"
    from digit_run [OF assms(2), of cs] show thesis using False ok that [of "c # ?ds" ?es] by (simp add: take_int_def drop_digits_def)
  qed
  obtain a b q where "take_frac (s1 @ rest) = Some (a, q)" "take_exp q = Some (b, rest)" "s1 = a @ b"
    using valid_fraction_parses [OF i(2) assms(2)] by blast
  moreover from this have "t = ?neg @ i @ a @ b" using t i(3) by simp
  ultimately show ?thesis unfolding parse_number_def Let_def neg rest by (simp add: i(1))
qed

lemma valid_number_itoa: "valid_number (itoa i)"
proof -
  have nat: "valid_number (string_of_nat n) \<and> (\<exists>c cs. string_of_nat n = c # cs \<and> is_digit c)" for n
  proof -
    obtain c cs where n: "string_of_nat n = c # cs" "is_digit c" "list_all is_digit cs"
      using string_of_nat_digits [of n] by (cases "string_of_nat n") auto
    have z: "c = CHR ''0'' \<Longrightarrow> cs = []"
      using hd_string_of_nat [of n] n(1) by (cases "n < 10") (simp_all add: string_of_nat.simps [of n])
    have "c \<noteq> CHR ''-''" "drop_digits cs = []"
      using n(2,3) by (auto simp: is_digit_def less_eq_char_def drop_digits_def list_all_iff)
    then show ?thesis using n z by (auto simp: valid_number_def valid_fraction_def Let_def)
  qed
  show ?thesis
  proof (cases "i < 0")
    case True
    obtain c cs where n: "string_of_nat (nat (- i)) = c # cs" "is_digit c" using nat by blast
    then have "c \<noteq> CHR ''-''" by (auto simp: is_digit_def less_eq_char_def)
    then show ?thesis using nat [of "nat (- i)"] n True by (simp add: itoa_def valid_number_def)
  qed (use nat in \<open>simp add: itoa_def\<close>)
qed

lemma valid_number_head: "valid_number t \<Longrightarrow> \<exists>c cs. t = c # cs \<and> (c = CHR ''-'' \<or> is_digit c)"
  by (cases t) (auto simp: valid_number_def is_digit_def less_eq_char_def Let_def split: list.splits if_splits)

section \<open>Values\<close>

text \<open>
  A value that the reader accepts at nesting depth \<open>d\<close>: its numbers are number literals and it
  does not nest too deeply.
\<close>

fun fits :: "nat \<Rightarrow> json \<Rightarrow> bool" where
  "fits d (JNum t) \<longleftrightarrow> valid_number t"
| "fits d (JArr xs) \<longleftrightarrow> d < maxNestingDepth \<and> list_all (fits (Suc d)) xs"
| "fits d (JObj ms) \<longleftrightarrow> d < maxNestingDepth \<and> list_all (\<lambda>m. fits (Suc d) (snd m)) ms"
| "fits d _ \<longleftrightarrow> True"

fun sanitize :: "json \<Rightarrow> json" where
  "sanitize (JStr s) = JStr (to_valid s)"
| "sanitize (JArr xs) = JArr (map sanitize xs)"
| "sanitize (JObj ms) = JObj (map (\<lambda>m. (to_valid (fst m), sanitize (snd m))) ms)"
| "sanitize j = j"

text \<open>The reader returns the result for all large enough amounts of fuel.\<close>

definition returns :: "(nat \<Rightarrow> 'a option) \<Rightarrow> 'a \<Rightarrow> bool" where
  "returns p v \<longleftrightarrow> (\<exists>F. \<forall>f \<ge> F. p f = Some v)"

lemma returns_const: "p = (\<lambda>f. Some v) \<Longrightarrow> returns p v"
  by (simp add: returns_def)

lemma returns_Suc: "returns (\<lambda>f. p (Suc f)) v \<Longrightarrow> returns p v"
proof -
  assume "returns (\<lambda>f. p (Suc f)) v"
  then obtain F where "\<forall>f \<ge> F. p (Suc f) = Some v" by (auto simp: returns_def)
  then have "\<forall>f \<ge> Suc F. p f = Some v" by (metis Suc_le_D Suc_le_mono)
  then show ?thesis by (auto simp: returns_def)
qed

lemma returns_now: "(\<And>f. p (Suc f) = Some v) \<Longrightarrow> returns p v"
  by (rule returns_Suc, rule returns_const) simp

lemma returns_bind: "returns p v \<Longrightarrow> returns (\<lambda>f. k v f) r \<Longrightarrow> returns (\<lambda>f. case p f of None \<Rightarrow> None | Some v \<Rightarrow> k v f) r"
proof -
  assume "returns p v" "returns (\<lambda>f. k v f) r"
  then obtain F G where "\<forall>f \<ge> F. p f = Some v" "\<forall>f \<ge> G. k v f = Some r" by (auto simp: returns_def)
  then have "\<forall>f \<ge> max F G. (case p f of None \<Rightarrow> None | Some v \<Rightarrow> k v f) = Some r" by simp
  then show ?thesis unfolding returns_def by blast
qed

lemma returns_map: "returns p v \<Longrightarrow> returns (\<lambda>f. map_option g (p f)) (g v)"
  by (auto simp: returns_def)

lemma skip_space_Cons [simp]: "\<not> json_space c \<Longrightarrow> skip_space (c # cs) = c # cs"
  by (simp add: skip_space_def)

lemma punctuation [simp]:
  "\<not> json_space CHR ''{''" "\<not> json_space CHR ''}''" "\<not> json_space CHR ''[''" "\<not> json_space CHR '']''"
  "\<not> json_space CHR '',''" "\<not> json_space CHR '':''" "\<not> json_space CHR 0x22"
  by (simp_all add: json_space_def)

lemma marshal_head:
  assumes "fits d j"
  obtains c cs where "marshal j = c # cs" "\<not> json_space c" "c \<noteq> CHR '']''"
proof (cases j)
  case (JNum t)
  then obtain c cs where t: "t = c # cs" "c = CHR ''-'' \<or> is_digit c" using valid_number_head [of t] assms by auto
  then have "\<not> json_space c \<and> c \<noteq> CHR '']''" by (auto simp: is_digit_def less_eq_char_def json_space_def)
  then show thesis using t(1) JNum that by simp
next
  case (JBool b)
  then show thesis using that by (cases b) (simp_all add: json_space_def)
qed (use that in \<open>auto simp: quote_def json_space_def split: if_splits\<close>)

lemma elements_return:
  assumes "xs \<noteq> []" "\<And>x rest. x \<in> set xs \<Longrightarrow> delimited rest \<Longrightarrow>
      returns (\<lambda>f. parse_value f d (marshal x @ rest)) (sanitize x, rest)"
  shows "returns (\<lambda>f. parse_elements f d (join '','' (map marshal xs) @ CHR '']'' # rest)) (map sanitize xs, rest)"
  using assms
proof (induction xs rule: induct_list012)
  case (2 x)
  have "returns (\<lambda>f. parse_value f d (marshal x @ CHR '']'' # rest)) (sanitize x, CHR '']'' # rest)" using 2 by simp
  then have "returns (\<lambda>f. parse_elements (Suc f) d (marshal x @ CHR '']'' # rest)) ([sanitize x], rest)"
    unfolding parse_elements.simps by (rule returns_bind) (simp add: returns_const)
  then show ?case by (simp add: returns_Suc)
next
  case (3 x y zs)
  let ?rest = "join '','' (map marshal (y # zs)) @ CHR '']'' # rest"
  have x: "returns (\<lambda>f. parse_value f d (marshal x @ CHR '','' # ?rest)) (sanitize x, CHR '','' # ?rest)"
    using "3.prems"(2) by simp
  have "returns (\<lambda>f. parse_elements f d ?rest) (map sanitize (y # zs), rest)" by (rule "3.IH"(2)) (use "3.prems"(2) in auto)
  from returns_map [OF this, of "\<lambda>(xs, q). (sanitize x # xs, q)"]
  have "returns (\<lambda>f. parse_elements (Suc f) d (marshal x @ CHR '','' # ?rest)) (map sanitize (x # y # zs), rest)"
    unfolding parse_elements.simps by (intro returns_bind [OF x]) simp
  then show ?case by (simp add: returns_Suc)
qed simp

abbreviation member_text :: "string \<times> json \<Rightarrow> string" where
  "member_text m \<equiv> quote (fst m) @ '':'' @ marshal (snd m)"

abbreviation sane_member :: "string \<times> json \<Rightarrow> string \<times> json" where
  "sane_member m \<equiv> (to_valid (fst m), sanitize (snd m))"

lemma members_step:
  "parse_members (Suc f) d (member_text m @ rest) =
     (case parse_value f d (marshal (snd m) @ rest) of
        None \<Rightarrow> None
      | Some (v, q) \<Rightarrow>
          (case skip_space q of
             [] \<Rightarrow> None
           | c # cs \<Rightarrow>
               if c = CHR ''}'' then Some ([(to_valid (fst m), v)], cs)
               else if c = CHR '','' then map_option (\<lambda>(ms, q). ((to_valid (fst m), v) # ms, q)) (parse_members f d cs)
               else None))"
  by (simp add: quote_def parse_escape_string)

lemma members_return:
  assumes "ms \<noteq> []" "\<And>m rest. m \<in> set ms \<Longrightarrow> delimited rest \<Longrightarrow>
      returns (\<lambda>f. parse_value f d (marshal (snd m) @ rest)) (sanitize (snd m), rest)"
  shows "returns (\<lambda>f. parse_members f d (join '','' (map member_text ms) @ CHR ''}'' # rest)) (map sane_member ms, rest)"
  using assms
proof (induction ms rule: induct_list012)
  case (2 m)
  have "returns (\<lambda>f. parse_value f d (marshal (snd m) @ CHR ''}'' # rest)) (sanitize (snd m), CHR ''}'' # rest)" using 2 by simp
  then have "returns (\<lambda>f. parse_members (Suc f) d (member_text m @ CHR ''}'' # rest)) ([sane_member m], rest)"
    unfolding members_step by (rule returns_bind) (simp add: returns_const)
  then show ?case by (simp only: list.map join.simps returns_Suc)
next
  case (3 m n ms)
  let ?rest = "join '','' (map member_text (n # ms)) @ CHR ''}'' # rest"
  have m: "returns (\<lambda>f. parse_value f d (marshal (snd m) @ CHR '','' # ?rest)) (sanitize (snd m), CHR '','' # ?rest)"
    using "3.prems"(2) by simp
  have "returns (\<lambda>f. parse_members f d ?rest) (map sane_member (n # ms), rest)" by (rule "3.IH"(2)) (use "3.prems"(2) in auto)
  from returns_map [OF this, of "\<lambda>(ms, q). (sane_member m # ms, q)"]
  have "returns (\<lambda>f. parse_members (Suc f) d (member_text m @ CHR '','' # ?rest)) (map sane_member (m # n # ms), rest)"
    unfolding members_step by (intro returns_bind [OF m]) simp
  then have "returns (\<lambda>f. parse_members f d (member_text m @ CHR '','' # ?rest)) (map sane_member (m # n # ms), rest)"
    by (rule returns_Suc)
  then show ?case by simp
qed simp

lemma parse_literals:
  "parse_value (Suc f) d (marshal JNull @ rest) = Some (JNull, rest)"
  "parse_value (Suc f) d (marshal (JBool b) @ rest) = Some (JBool b, rest)"
  "parse_value (Suc f) d (marshal (JStr s) @ rest) = Some (JStr (to_valid s), rest)"
  by (cases b; simp add: json_space_def quote_def parse_escape_string)+

lemma parse_number_value:
  assumes "valid_number t" "delimited rest"
  shows "parse_value (Suc f) d (t @ rest) = Some (JNum t, rest)"
proof -
  obtain c cs where t: "t = c # cs" "c = CHR ''-'' \<or> is_digit c" using valid_number_head [OF assms(1)] by blast
  then have "\<not> json_space c" "c \<noteq> CHR ''{''" "c \<noteq> CHR ''[''" "c \<noteq> CHR 0x22" "c \<noteq> CHR ''t''" "c \<noteq> CHR ''f''" "c \<noteq> CHR ''n''"
    by (auto simp: is_digit_def less_eq_char_def json_space_def)
  then show ?thesis using valid_number_parses [OF assms] t by simp
qed

lemma value_returns:
  "fits d j \<Longrightarrow> delimited rest \<Longrightarrow> returns (\<lambda>f. parse_value f d (marshal j @ rest)) (sanitize j, rest)"
proof (induction j arbitrary: d rest rule: marshal.induct)
  case (5 xs)
  show ?case
  proof (cases "xs = []")
    case True
    then show ?thesis using "5.prems" by (intro returns_now) simp
  next
    case False
    let ?text = "join '','' (map marshal xs) @ CHR '']'' # rest"
    obtain x xs' where xs: "xs = x # xs'" using False by (cases xs) auto
    obtain c cs where "marshal x = c # cs" "\<not> json_space c" "c \<noteq> CHR '']''"
      using marshal_head [of "Suc d" x] "5.prems" xs by auto
    then have "\<exists>r. ?text = c # r" using xs by (cases xs') auto
    then have "\<not> prefix '']'' (skip_space ?text)" using \<open>\<not> json_space c\<close> \<open>c \<noteq> CHR '']''\<close> by auto
    then have p: "parse_value (Suc f) d (marshal (JArr xs) @ rest) = map_option (\<lambda>(xs, q). (JArr xs, q)) (parse_elements f (Suc d) ?text)" for f
      using "5.prems" by simp
    have "returns (\<lambda>f. parse_elements f (Suc d) ?text) (map sanitize xs, rest)"
      by (rule elements_return) (use 5 False in \<open>simp_all add: list_all_iff\<close>)
    from returns_map [OF this, of "\<lambda>(xs, q). (JArr xs, q)"]
    have "returns (\<lambda>f. parse_value (Suc f) d (marshal (JArr xs) @ rest)) (sanitize (JArr xs), rest)" unfolding p by simp
    then show ?thesis by (rule returns_Suc)
  qed
next
  case (6 ms)
  show ?case
  proof (cases "ms = []")
    case True
    then show ?thesis using "6.prems" by (intro returns_now) simp
  next
    case False
    let ?text = "join '','' (map member_text ms) @ CHR ''}'' # rest"
    obtain m ms' where ms: "ms = m # ms'" using False by (cases ms) auto
    have "\<exists>r. ?text = CHR 0x22 # r" using ms by (cases ms') (auto simp: quote_def)
    then have "\<not> prefix ''}'' (skip_space ?text)" by auto
    then have p: "parse_value (Suc f) d (marshal (JObj ms) @ rest) = map_option (\<lambda>(ms, q). (JObj ms, q)) (parse_members f (Suc d) ?text)" for f
      using "6.prems" by simp
    have "returns (\<lambda>f. parse_members f (Suc d) ?text) (map sane_member ms, rest)"
      by (rule members_return) (use 6 False in \<open>simp_all add: list_all_iff\<close>)
    from returns_map [OF this, of "\<lambda>(ms, q). (JObj ms, q)"]
    have "returns (\<lambda>f. parse_value (Suc f) d (marshal (JObj ms) @ rest)) (sanitize (JObj ms), rest)" unfolding p by simp
    then show ?thesis by (rule returns_Suc)
  qed
next
  case (3 t)
  then show ?case by (intro returns_now) (simp only: marshal.simps sanitize.simps fits.simps parse_number_value)
qed (intro returns_now, simp only: parse_literals sanitize.simps)+

lemma parse_marshal: "fits 0 j \<Longrightarrow> parse_json (marshal j) = Some (sanitize j)"
proof -
  assume "fits 0 j"
  then obtain F where F: "\<forall>f \<ge> F. parse_value f 0 (marshal j) = Some (sanitize j, [])"
    using value_returns [of 0 j "[]"] by (auto simp: returns_def)
  have "2 * length (marshal j) + 1 \<le> max F (2 * length (marshal j) + 1)" by simp
  from parse_json_fuel [OF this] show ?thesis using F by (simp add: skip_space_def)
qed

section \<open>ASCII texts and objects with distinct keys\<close>

definition ascii :: "string \<Rightarrow> bool" where
  "ascii s \<longleftrightarrow> list_all (\<lambda>c. of_char c < (0x80 :: nat)) s"

lemma to_valid_ascii: "ascii s \<Longrightarrow> to_valid s = s"
proof (induction s)
  case (Cons c cs)
  then have "rune_size (c # cs) = (1, True)" by (simp add: ascii_def rune_size_ascii)
  then show ?case using Cons by (simp add: to_valid.simps [of "c # cs"] ascii_def)
qed simp

lemma list_all_sorted [simp]: "list_all P (sort_key f xs) \<longleftrightarrow> list_all P xs"
  by (simp add: list_all_iff)

lemma distinct_sorted: "distinct (map fst ms) \<Longrightarrow> distinct (map fst (sort_key fst ms))"
  by (simp add: distinct_map)

lemma map_of_sorted: "distinct (map fst ms) \<Longrightarrow> map_of (sort_key fst ms) = map_of ms"
  by (subst map_of_inject_set) (simp_all add: distinct_sorted)

lemma update_new: "k \<notin> fst ` set al \<Longrightarrow> AList.update k v al = al @ [(k, v)]"
  by (induction al) auto

lemma fold_update_append:
  "distinct (map fst (acc @ ms)) \<Longrightarrow> fold (\<lambda>(k, v). AList.update k v) ms acc = acc @ ms"
  by (induction ms arbitrary: acc) (auto simp: update_new)

lemma fits_go_map [simp]: "fits d (go_map ms) \<longleftrightarrow> d < maxNestingDepth \<and> list_all (\<lambda>m. fits (Suc d) (snd m)) ms"
  by (simp add: go_map_def)

lemma sanitize_go_map:
  "list_all (\<lambda>m. ascii (fst m)) ms \<Longrightarrow> sanitize (go_map ms) = JObj (map (\<lambda>m. (fst m, sanitize (snd m))) (sort_key fst ms))"
  by (auto simp: go_map_def list_all_iff to_valid_ascii)

end
