(* ===== verification/Sim_Network.thy ===== *)
theory Sim_Network
  imports Rpc_Client Json_Roundtrip Topics
begin

text \<open>
  Package \<open>internal/testutil\<close>, files \<open>device.go\<close> and \<open>network.go\<close>: the simulated LAN that the
  repository's tests run against.  Devices are mutable objects that tests hold on to while they
  move between addresses, so the network keeps a heap of devices, and an address holds the
  number of a device.  A network is the state of the outside world of the client's
  \<open>round_tripper\<close>.

  A number that \<open>encoding/json\<close> decodes into an \<open>any\<close> becomes a \<open>float64\<close>; the value of
  \<open>int(v)\<close> for literals that are not integers of at most 53 bits is the parameter \<open>lit\<close>.  The
  multipart encoding of a request belongs to the library: a request carries its form fields.
  Number texts in a template are taken to be the ones \<open>json.Marshal\<close> renders.
\<close>

section \<open>Requests as the network records them\<close>

text \<open>\<open>RPC\<close>; a nil \<open>Params\<close> map is empty, a nil \<open>ID\<close> is \<open>JNull\<close>.\<close>

record RPC =
  rc_JSONRPC :: string
  rc_Method :: string
  rc_Params :: "(string \<times> json) list"
  rc_ID :: json
  rc_IDRaw :: "json option"

record Request =
  rr_IP :: string
  rr_Path :: string
  rr_Method :: string
  rr_DataField :: string
  rr_RPC :: "RPC option"

definition decode_rpc_field :: "string \<times> json \<Rightarrow> RPC option \<Rightarrow> RPC option" where
  "decode_rpc_field m acc =
     (case acc of None \<Rightarrow> None | Some r \<Rightarrow>
      (case match_field [''jsonrpc'', ''method'', ''params'', ''id'', ''IDRaw''] (fst m) of
         None \<Rightarrow> Some r
       | Some f \<Rightarrow>
           if f = ''jsonrpc'' then
             (case snd m of JStr s \<Rightarrow> Some (r\<lparr>rc_JSONRPC := s\<rparr>) | JNull \<Rightarrow> Some r | _ \<Rightarrow> None)
           else if f = ''method'' then
             (case snd m of JStr s \<Rightarrow> Some (r\<lparr>rc_Method := s\<rparr>) | JNull \<Rightarrow> Some r | _ \<Rightarrow> None)
           else if f = ''params'' then
             (case snd m of
                JObj ms \<Rightarrow> Some (r\<lparr>rc_Params := fold (\<lambda>(k, v). AList.update k v) ms (rc_Params r)\<rparr>)
              | JNull \<Rightarrow> Some (r\<lparr>rc_Params := []\<rparr>)
              | _ \<Rightarrow> None)
           else if f = ''id'' then Some (r\<lparr>rc_ID := snd m\<rparr>)
           else Some (r\<lparr>rc_IDRaw := Some (snd m)\<rparr>)))"

text \<open>Decoding an \<open>RPC\<close>, and then its \<open>id\<close> once more as a raw message.\<close>

definition decode_id :: "(string \<times> json) list \<Rightarrow> json option" where
  "decode_id ms = fold (\<lambda>m acc. if match_field [''id''] (fst m) = None then acc else Some (snd m)) ms None"

definition decode_rpc :: "json \<Rightarrow> RPC option" where
  "decode_rpc j =
     (let zero = \<lparr>rc_JSONRPC = [], rc_Method = [], rc_Params = [], rc_ID = JNull, rc_IDRaw = None\<rparr> in
      case j of
        JObj ms \<Rightarrow> map_option (\<lambda>r. r\<lparr>rc_IDRaw := decode_id ms\<rparr>) (fold decode_rpc_field ms (Some zero))
      | JNull \<Rightarrow> Some zero
      | _ \<Rightarrow> None)"

text \<open>Host name and path of a URL \<open>http://host/path\<close>.\<close>

definition url_host :: "string \<Rightarrow> string" where
  "url_host url = takeWhile (\<lambda>c. c \<noteq> CHR '':'' \<and> c \<noteq> CHR ''/'') (drop (length ''http://'') url)"

definition url_path :: "string \<Rightarrow> string" where
  "url_path url = dropWhile (\<lambda>c. c \<noteq> CHR ''/'') (drop (length ''http://'') url)"

definition record_part :: "string \<times> string \<Rightarrow> Request \<Rightarrow> Request" where
  "record_part part r =
     (if fst part = ''data''
      then (let r = r\<lparr>rr_DataField := snd part\<rparr> in
            case Option.bind (parse_json (snd part)) decode_rpc of None \<Rightarrow> r | Some call \<Rightarrow> r\<lparr>rr_RPC := Some call\<rparr>)
      else r)"

definition record_request :: "http_request \<Rightarrow> Request" where
  "record_request req =
     fold record_part (rq_Form req)
       \<lparr>rr_IP = url_host (rq_URL req), rr_Path = url_path (rq_URL req), rr_Method = rq_Method req,
        rr_DataField = [], rr_RPC = None\<rparr>"

definition number_int :: "(string \<Rightarrow> int) \<Rightarrow> string \<Rightarrow> int" where
  "number_int lit t = (case parse_int64 t of Some v \<Rightarrow> if \<bar>v\<bar> \<le> 2 ^ 53 then v else lit t | None \<Rightarrow> lit t)"

definition ChannelParam :: "(string \<Rightarrow> int) \<Rightarrow> Request \<Rightarrow> int" where
  "ChannelParam lit r =
     (case rr_RPC r of
        None \<Rightarrow> - 1
      | Some call \<Rightarrow> (case map_of (rc_Params call) ''channel_id'' of Some (JNum t) \<Rightarrow> number_int lit t | _ \<Rightarrow> - 1))"

section \<open>Devices (\<open>device.go\<close>)\<close>

record device_state =
  dv_MAC :: string
  dv_Template :: "(string \<times> json) list"
  dv_Reported :: int
  dv_Video :: int
  dv_FrontPanel :: int
  dv_AckWithoutApply :: bool
  dv_WriteHangs :: bool
  dv_ReadHangs :: bool
  dv_RejectWrites :: bool
  dv_WriteCount :: int

text \<open>A response is a status and a body; a \<open>Responder\<close> reads and changes the state of its device.\<close>

type_synonym http_response = "int \<times> string"

type_synonym Responder = "RPC option \<Rightarrow> device_state \<Rightarrow> http_response option \<times> device_state"

record Device =
  dv_State :: device_state
  dv_Responder :: "Responder option"

record DeviceOptions =
  do_MAC :: string
  do_Reported :: "int option"
  do_FrontPanel :: "int option"
  do_Overrides :: "(string \<times> json) list"
  do_AckWithoutApply :: bool
  do_WriteHangs :: bool
  do_ReadHangs :: bool
  do_RejectWrites :: bool
  do_Responder :: "Responder option"

text \<open>
  \<open>NewDevice\<close>, with the decoded fixture as an argument; \<open>None\<close> is the panic of the type
  assertion on \<open>channel_id\<close>.
\<close>

definition NewDevice :: "(string \<Rightarrow> int) \<Rightarrow> (string \<times> json) list \<Rightarrow> DeviceOptions \<Rightarrow> Device option" where
  "NewDevice lit fixture opts =
     (let template = fold (\<lambda>(k, v). AList.update k v) (do_Overrides opts) fixture in
      case map_of template ''channel_id'' of
        Some (JNum t) \<Rightarrow>
          let initial = (case do_Reported opts of None \<Rightarrow> number_int lit t | Some c \<Rightarrow> c) in
          Some \<lparr>dv_State =
                 \<lparr>dv_MAC = do_MAC opts, dv_Template = template, dv_Reported = initial, dv_Video = initial,
                  dv_FrontPanel = (case do_FrontPanel opts of None \<Rightarrow> initial | Some c \<Rightarrow> c),
                  dv_AckWithoutApply = do_AckWithoutApply opts, dv_WriteHangs = do_WriteHangs opts,
                  dv_ReadHangs = do_ReadHangs opts, dv_RejectWrites = do_RejectWrites opts, dv_WriteCount = 0\<rparr>,
               dv_Responder = do_Responder opts\<rparr>
      | _ \<Rightarrow> None)"

definition SetTemplate :: "string \<Rightarrow> json \<Rightarrow> device_state \<Rightarrow> device_state" where
  "SetTemplate key v d = d\<lparr>dv_Template := AList.update key v (dv_Template d)\<rparr>"

definition SetReported :: "int \<Rightarrow> device_state \<Rightarrow> device_state" where
  "SetReported channel d = d\<lparr>dv_Reported := channel\<rparr>"

definition ReportedChannel :: "device_state \<Rightarrow> int" where
  "ReportedChannel d = dv_Reported d"

definition Writes :: "device_state \<Rightarrow> int" where
  "Writes d = dv_WriteCount d"

text \<open>\<open>strings.ToUpper\<close> of a MAC text, which is ASCII.\<close>

definition InfoResult :: "string \<Rightarrow> device_state \<Rightarrow> (string \<times> json) list" where
  "InfoResult ip d =
     AList.update ''channel_id'' (jint (dv_Reported d))
       (AList.update ''lan_ip_addr'' (JStr ip)
         (AList.update ''lan_mac_addr'' (JStr (map upper_char (dv_MAC d))) (dv_Template d)))"

definition InfoPayload :: "string \<Rightarrow> device_state \<Rightarrow> string" where
  "InfoPayload ip d =
     marshal (go_map [(''jsonrpc'', JStr ''2.0''), (''id'', jint 1), (''result'', go_map (InfoResult ip d))])"

definition ApplyChannel :: "int \<Rightarrow> device_state \<Rightarrow> device_state" where
  "ApplyChannel channel d =
     (let d = d\<lparr>dv_WriteCount := dv_WriteCount d + 1\<rparr> in
      if dv_AckWithoutApply d then d else d\<lparr>dv_Reported := channel, dv_Video := channel\<rparr>)"

section \<open>The network (\<open>network.go\<close>)\<close>

datatype UnreachableMode = Refuse | Hang

record Network =
  nw_heap :: "nat \<Rightarrow> Device"
  nw_devices :: "string \<rightharpoonup> nat"
  nw_requests :: "Request list"
  nw_inFlight :: int
  nw_maxInFlight :: int
  nw_Unreachable :: UnreachableMode

definition NewNetwork :: "(nat \<Rightarrow> Device) \<Rightarrow> Network" where
  "NewNetwork heap =
     \<lparr>nw_heap = heap, nw_devices = Map.empty, nw_requests = [], nw_inFlight = 0, nw_maxInFlight = 0, nw_Unreachable = Refuse\<rparr>"

definition Place :: "string \<Rightarrow> nat \<Rightarrow> Network \<Rightarrow> Network" where
  "Place ip d n = n\<lparr>nw_devices := (nw_devices n)(ip \<mapsto> d)\<rparr>"

definition Remove :: "string \<Rightarrow> Network \<Rightarrow> Network" where
  "Remove ip n = n\<lparr>nw_devices := (nw_devices n)(ip := None)\<rparr>"

text \<open>\<open>Move\<close>; \<open>None\<close> is its panic.\<close>

definition Move :: "string \<Rightarrow> string \<Rightarrow> Network \<Rightarrow> Network option" where
  "Move from_ip to_ip n =
     (case nw_devices n from_ip of
        None \<Rightarrow> None
      | Some d \<Rightarrow> Some (n\<lparr>nw_devices := (nw_devices n)(from_ip := None, to_ip \<mapsto> d)\<rparr>))"

definition ResetRequests :: "Network \<Rightarrow> Network" where
  "ResetRequests n = n\<lparr>nw_requests := []\<rparr>"

definition RequestsTo :: "string \<Rightarrow> string \<Rightarrow> Network \<Rightarrow> Request list" where
  "RequestsTo ip method n =
     filter (\<lambda>r. rr_IP r = ip \<and> (method = [] \<or> (case rr_RPC r of None \<Rightarrow> False | Some call \<Rightarrow> rc_Method call = method)))
       (nw_requests n)"

definition WritesTo :: "string \<Rightarrow> Network \<Rightarrow> Request list" where
  "WritesTo ip n = RequestsTo ip ''set_channel_id'' n"

definition AllWrites :: "Network \<Rightarrow> Request list" where
  "AllWrites n =
     filter (\<lambda>r. case rr_RPC r of None \<Rightarrow> False | Some call \<Rightarrow> rc_Method call = ''set_channel_id'') (nw_requests n)"

definition DeviceResponse :: "string \<Rightarrow> http_response" where
  "DeviceResponse body = (200, body)"

definition StatusResponse :: "int \<Rightarrow> string \<Rightarrow> http_response" where
  "StatusResponse status body = (status, body)"

definition set_device :: "nat \<Rightarrow> device_state \<Rightarrow> Network \<Rightarrow> Network" where
  "set_device i d n = n\<lparr>nw_heap := (nw_heap n)(i := (nw_heap n i)\<lparr>dv_State := d\<rparr>)\<rparr>"

text \<open>\<open>ends\<close> is the error the request's context ends with when a device does not answer.\<close>

definition hang :: "go_error \<Rightarrow> go_error + http_response" where
  "hang ends = Inl ends"

definition ack_body :: string where
  \<open>ack_body = ''{"jsonrpc":"2.0","id":1,"result":{"result":true}}''\<close>

definition refusal_body :: string where
  \<open>refusal_body = ''{"jsonrpc":"2.0","id":1,"result":{"result":false}}''\<close>

definition parse_error_body :: string where
  \<open>parse_error_body = ''{"jsonrpc":"2.0","id":1,"error":{"code":-32700,"message":"Parse error"}}''\<close>

definition no_method_body :: string where
  \<open>no_method_body = ''{"jsonrpc":"2.0","id":1,"error":{"code":-32601,"message":"Method not found"}}''\<close>

text \<open>The answer of device \<open>i\<close> to a recorded request, when no \<open>Responder\<close> took it over.\<close>

definition serve ::
  "go_error \<Rightarrow> (string \<Rightarrow> int) \<Rightarrow> Request \<Rightarrow> nat \<Rightarrow> Network \<Rightarrow> (go_error + http_response) \<times> Network" where
  "serve ends lit recorded i n =
     (let d = dv_State (nw_heap n i) in
      case rr_RPC recorded of
        None \<Rightarrow> (Inr (DeviceResponse parse_error_body), n)
      | Some call \<Rightarrow>
          if rc_Method call = ''get_device_info_proav'' then
            (if dv_ReadHangs d then (hang ends, n) else (Inr (DeviceResponse (InfoPayload (rr_IP recorded) d)), n))
          else if rc_Method call = ''set_channel_id'' then
            (if dv_RejectWrites d then (Inr (DeviceResponse refusal_body), n)
             else
               let channel = ChannelParam lit recorded;
                   n = (if channel \<ge> 0 then set_device i (ApplyChannel channel d) n else n) in
               if dv_WriteHangs d then (hang ends, n) else (Inr (DeviceResponse ack_body), n))
          else (Inr (DeviceResponse no_method_body), n))"

definition answer ::
  "go_error \<Rightarrow> (string \<Rightarrow> int) \<Rightarrow> Request \<Rightarrow> Network \<Rightarrow> (go_error + http_response) \<times> Network" where
  "answer ends lit recorded n =
     (case nw_devices n (rr_IP recorded) of
        None \<Rightarrow>
          ((case nw_Unreachable n of
              Hang \<Rightarrow> hang ends
            | Refuse \<Rightarrow> Inl (OtherError ''dial tcp: connection refused'' None)), n)
      | Some i \<Rightarrow>
          if rr_Path recorded \<noteq> ''/cgi-bin/proav.cgi'' \<or> rr_Method recorded \<noteq> ''POST''
          then (Inr (StatusResponse 404 ''Not Found''), n)
          else
            (case dv_Responder (nw_heap n i) of
               None \<Rightarrow> serve ends lit recorded i n
             | Some responder \<Rightarrow>
                 (case responder (rr_RPC recorded) (dv_State (nw_heap n i)) of
                    (Some custom, d) \<Rightarrow> (Inr custom, set_device i d n)
                  | (None, d) \<Rightarrow> serve ends lit recorded i (set_device i d n))))"

definition RoundTrip ::
  "go_error \<Rightarrow> (string \<Rightarrow> int) \<Rightarrow> http_request \<Rightarrow> Network \<Rightarrow> (go_error + http_response) \<times> Network" where
  "RoundTrip ends lit req n =
     (let n = n\<lparr>nw_inFlight := nw_inFlight n + 1\<rparr>;
          n = n\<lparr>nw_maxInFlight := max (nw_maxInFlight n) (nw_inFlight n)\<rparr>;
          recorded = record_request req;
          n = n\<lparr>nw_requests := nw_requests n @ [recorded]\<rparr> in
      case answer ends lit recorded n of (res, n) \<Rightarrow> (res, n\<lparr>nw_inFlight := nw_inFlight n - 1\<rparr>))"

text \<open>
  \<open>http.Client.Do\<close> over the network: it wraps the error of the transport, and the context of the
  request has ended exactly when the transport returned the error of the context.
\<close>

definition sim_transport :: "go_error \<Rightarrow> (string \<Rightarrow> int) \<Rightarrow> Network round_tripper" where
  "sim_transport ends lit req n =
     (case RoundTrip ends lit req n of
        (Inl err, n) \<Rightarrow> (DoFailed (OtherError ''Post'' (Some err)) (if err = ends then Some ends else None), n)
      | (Inr (status, body), n) \<Rightarrow> (Response status (Inr body), n))"

section \<open>Reading what the client sends\<close>

text \<open>Values that survive the wire unchanged: valid UTF-8 in all strings and keys.\<close>

definition clean :: "json \<Rightarrow> bool" where
  "clean j \<longleftrightarrow> sanitize j = j"

definition clean_member :: "string \<times> json \<Rightarrow> bool" where
  "clean_member m \<longleftrightarrow> to_valid (fst m) = fst m \<and> clean (snd m)"

lemma clean_simps [simp]:
  "clean JNull" "clean (JBool b)" "clean (JNum t)" "clean (JStr s) \<longleftrightarrow> to_valid s = s"
  by (simp_all add: clean_def)

lemma clean_JObj [simp]: "clean (JObj ms) \<longleftrightarrow> list_all clean_member ms"
  by (induction ms) (auto simp: clean_def clean_member_def prod_eq_iff)

lemma clean_member_Pair [simp]: "clean_member (k, v) \<longleftrightarrow> to_valid k = k \<and> clean v"
  by (simp add: clean_member_def)

lemma parse_clean: "fits 0 j \<Longrightarrow> clean j \<Longrightarrow> parse_json (marshal j) = Some j"
  by (simp add: parse_marshal clean_def)

lemma split_on_chars: "set s \<subseteq> insert d (\<Union>f \<in> set (split_on d s). set f)"
proof (induction s)
  case (Cons a s)
  then show ?case by (cases "split_on d s") (auto dest: subsetD)
qed simp

lemma ipv4_chars: "parse_ipv4 ip \<noteq> None \<Longrightarrow> c \<in> set ip \<Longrightarrow> is_digit c \<or> c = CHR ''.''"
proof -
  assume ip: "parse_ipv4 ip \<noteq> None" and c: "c \<in> set ip"
  have "\<forall>f \<in> set (split_on CHR ''.'' ip). parse_octet f \<noteq> None"
    using ip by (auto simp: parse_ipv4_def map_eq_Cons_conv split: list.splits option.splits)
  moreover have "parse_octet f \<noteq> None \<Longrightarrow> list_all is_digit f" for f by (auto simp: parse_octet_def split: if_splits)
  ultimately show ?thesis using split_on_chars [of ip "CHR ''.''"] c by (fastforce simp: list_all_iff)
qed

lemma url_of_request:
  assumes "parse_ipv4 ip \<noteq> None"
  shows "url_host (rq_URL (rpc_request ip body)) = ip" "url_path (rq_URL (rpc_request ip body)) = RPCPath"
proof -
  have "\<forall>c \<in> set ip. c \<noteq> CHR '':'' \<and> c \<noteq> CHR ''/''"
    using ipv4_chars [OF assms, of "CHR '':''"] ipv4_chars [OF assms, of "CHR ''/''"]
    by (auto simp: is_digit_def less_eq_char_def)
  then show "url_host (rq_URL (rpc_request ip body)) = ip" "url_path (rq_URL (rpc_request ip body)) = RPCPath"
    by (simp_all add: url_host_def url_path_def rpc_request_def RPCPath_def takeWhile_append dropWhile_append)
qed

lemma id_matches:
  "match_field [''id''] ''jsonrpc'' = None" "match_field [''id''] ''method'' = None"
  "match_field [''id''] ''params'' = None" "match_field [''id''] ''id'' = Some ''id''"
  by code_simp+

lemma wire_names:
  "to_valid ''jsonrpc'' = ''jsonrpc''" "to_valid ''2.0'' = ''2.0''" "to_valid ''method'' = ''method''"
  "to_valid ''params'' = ''params''" "to_valid ''id'' = ''id''" "to_valid ''result'' = ''result''"
  "to_valid ''channel_id'' = ''channel_id''" "to_valid ''pswd'' = ''pswd''" "to_valid ''lan_mac_addr'' = ''lan_mac_addr''"
  "to_valid ''lan_ip_addr'' = ''lan_ip_addr''" "to_valid MethodSetChannel = MethodSetChannel"
  "to_valid MethodGetDeviceInfo = MethodGetDeviceInfo"
  by (simp_all add: to_valid_ascii ascii_def MethodSetChannel_def MethodGetDeviceInfo_def)

lemma encoded_request_parses:
  assumes "to_valid method = method" "list_all clean_member params" "list_all (\<lambda>m. fits 2 (snd m)) params"
  shows "parse_json (EncodeRequest method params) =
    Some (JObj [(''jsonrpc'', JStr ''2.0''), (''method'', JStr method), (''params'', go_map params), (''id'', jint 1)])"
  unfolding EncodeRequest_def
  by (subst parse_clean) (simp_all add: go_map_def wire_names assms valid_number_itoa maxNestingDepth_def RPCID_def
      flip: numeral_2_eq_2)

lemma requests_recorded:
  assumes "parse_ipv4 ip \<noteq> None" "to_valid method = method" "distinct (map fst params)"
    and "list_all clean_member params" "list_all (\<lambda>m. fits 2 (snd m)) params"
  shows "record_request (rpc_request ip (EncodeRequest method params)) =
    \<lparr>rr_IP = ip, rr_Path = ''/cgi-bin/proav.cgi'', rr_Method = ''POST'', rr_DataField = EncodeRequest method params,
     rr_RPC = Some \<lparr>rc_JSONRPC = ''2.0'', rc_Method = method, rc_Params = sort_key fst params,
                    rc_ID = JNum ''1'', rc_IDRaw = Some (JNum ''1'')\<rparr>\<rparr>"
proof -
  have one: "itoa 1 = ''1''" by code_simp
  have params: "fold (\<lambda>(k, v). AList.update k v) (sort_key fst params) [] = sort_key fst params"
    using fold_update_append [of "[]" "sort_key fst params"] distinct_sorted [OF assms(3)] by simp
  have "Option.bind (parse_json (EncodeRequest method params)) decode_rpc =
    Some \<lparr>rc_JSONRPC = ''2.0'', rc_Method = method, rc_Params = sort_key fst params,
      rc_ID = JNum ''1'', rc_IDRaw = Some (JNum ''1'')\<rparr>"
    unfolding encoded_request_parses [OF assms(2,4,5)]
    by (simp add: decode_rpc_def decode_rpc_field_def match_field_def [of "[_, _, _, _, _]"] decode_id_def id_matches
        go_map_def params one)
  then show ?thesis using url_of_request [OF assms(1), of "EncodeRequest method params"]
    by (simp add: record_request_def record_part_def rpc_request_def RPCFormField_def RPCPath_def)
qed

section \<open>The client on the simulated LAN\<close>

text \<open>What the client should read from a device.\<close>

definition sim_info :: "string \<Rightarrow> device_state \<Rightarrow> device_info" where
  "sim_info ip d =
     (let raw = sort_key fst (InfoResult ip d) in
      \<lparr>di_DevName = optionalString raw ''dev_name'', di_ProductName = optionalString raw ''product_name'',
       di_Model = optionalString raw ''model'', di_Version = optionalString raw ''version'',
       di_LanMAC = map upper_char (dv_MAC d), di_ChannelID = dv_Reported d,
       di_Capability = decode_capabilities (map_of raw ''capability''), di_Raw = raw\<rparr>)"

text \<open>A device with a MAC, a channel in range and a template that is a JSON object of moderate size.\<close>

definition device_ok :: "string \<Rightarrow> device_state \<Rightarrow> bool" where
  "device_ok ip d \<longleftrightarrow> canonical_mac (dv_MAC d) \<and> ValidChannel (dv_Reported d)
     \<and> distinct (map fst (dv_Template d)) \<and> list_all clean_member (dv_Template d)
     \<and> list_all (\<lambda>m. fits 2 (snd m)) (dv_Template d) \<and> length (InfoPayload ip d) \<le> 2 ^ 20"

lemma list_all_update: "list_all P al \<Longrightarrow> P (k, v) \<Longrightarrow> list_all P (AList.update k v al)"
  by (induction al) auto

lemma canonical_mac_chars: "canonical_mac m \<Longrightarrow> c \<in> set m \<Longrightarrow> is_hex c \<or> c = CHR '':''"
  by (erule canonical_macE) auto

lemma ascii_upper: "ascii s \<Longrightarrow> ascii (map upper_char s)"
  by (auto simp: ascii_def list_all_iff upper_char_def)

lemma ascii_ipv4: "parse_ipv4 ip \<noteq> None \<Longrightarrow> ascii ip"
  using ipv4_chars [of ip] by (fastforce simp: ascii_def list_all_iff is_digit_def less_eq_char_def)

lemma parse_int64_itoa: "ValidChannel c \<Longrightarrow> parse_int64 (itoa c) = Some c"
proof -
  assume c: "ValidChannel c"
  then have i: "itoa c = string_of_nat (nat c)" by (simp add: itoa_def ValidChannel_iff)
  obtain x xs where x: "string_of_nat (nat c) = x # xs" "is_digit x"
    using string_of_nat_digits [of "nat c"] by (cases "string_of_nat (nat c)") auto
  then have "x \<noteq> CHR ''+''" "x \<noteq> CHR ''-''" by (auto simp: is_digit_def less_eq_char_def)
  then have "split_sign (itoa c) = (False, itoa c)" using i x by (simp add: split_sign_def)
  then show ?thesis using i string_of_nat_digits [of "nat c"] c by (simp add: parse_int64_def ValidChannel_iff)
qed

lemma decode_channel_jint: "ValidChannel c \<Longrightarrow> decode_channel (jint c) = Inr c"
  by (simp add: decode_channel_def parse_int64_itoa)

lemma InfoResult_facts:
  assumes "device_ok ip d" "parse_ipv4 ip \<noteq> None"
  shows "distinct (map fst (InfoResult ip d))" "list_all clean_member (InfoResult ip d)"
    "list_all (\<lambda>m. fits 2 (snd m)) (InfoResult ip d)"
proof -
  have "ascii (dv_MAC d)" using canonical_mac_chars [of "dv_MAC d"] assms(1)
    by (fastforce simp: device_ok_def ascii_def list_all_iff is_hex_def is_digit_def less_eq_char_def)
  then have "to_valid (map upper_char (dv_MAC d)) = map upper_char (dv_MAC d)" by (intro to_valid_ascii ascii_upper)
  moreover have "to_valid ip = ip" by (rule to_valid_ascii [OF ascii_ipv4 [OF assms(2)]])
  ultimately show "list_all clean_member (InfoResult ip d)" using assms(1)
    unfolding InfoResult_def device_ok_def by (intro list_all_update) (simp_all add: wire_names)
  show "distinct (map fst (InfoResult ip d))" "list_all (\<lambda>m. fits 2 (snd m)) (InfoResult ip d)"
    using assms(1) unfolding InfoResult_def device_ok_def
    by (intro distinct_update, simp, intro list_all_update, simp_all add: valid_number_itoa)
qed

lemma lower_upper: "is_hex c \<or> c = CHR '':'' \<Longrightarrow> lower_char (upper_char c) = c"
  by (auto simp: is_hex_def is_digit_def lower_char_def upper_char_def less_eq_char_def of_char_of)

lemma Normalize_upper:
  assumes "canonical_mac m"
  shows "Normalize (map upper_char m) = m"
proof -
  note chars = canonical_mac_chars [OF assms]
  have spaces: "list_all (\<lambda>p. list_ex (\<lambda>c. \<not> is_hex (lower_char c) \<and> c \<noteq> CHR '':'') p) space_runes" by code_simp
  have "trim_space (map upper_char m) = map upper_char m"
  proof (rule trim_space_id)
    fix p assume "p \<in> set space_runes"
    then obtain c where c: "c \<in> set p" "\<not> is_hex (lower_char c)" "c \<noteq> CHR '':''"
      using spaces by (auto simp: list_all_iff list_ex_iff)
    have "c \<notin> set (map upper_char m)"
    proof
      assume "c \<in> set (map upper_char m)"
      then obtain x where x: "x \<in> set m" "c = upper_char x" by auto
      then show False using chars [OF x(1)] c lower_upper [of x] by (auto simp: upper_char_def)
    qed
    then show "\<not> prefix p (map upper_char m) \<and> \<not> suffix p (map upper_char m)"
      using c(1) set_mono_prefix [of p "map upper_char m"] set_mono_suffix [of p "map upper_char m"] by blast
  qed
  moreover have "to_lower (map upper_char m) = m"
    using chars by (auto simp: to_lower_def lower_upper intro: map_idI)
  moreover have "trim_space m = m" by (rule trim_space_hex_text) (rule chars)
  moreover have "lower_char c = c" if "c \<in> set m" for c
    using chars [OF that] by (elim disjE) (simp_all add: lower_colon)
  then have "to_lower m = m" by (simp add: to_lower_def map_idI)
  ultimately have "Normalize (map upper_char m) = Normalize m" by (simp add: Normalize_def)
  then show ?thesis by (simp add: Normalize_canonical_id [OF assms])
qed

lemma map_of_InfoResult:
  "map_of (InfoResult ip d) ''lan_mac_addr'' = Some (JStr (map upper_char (dv_MAC d)))"
  "map_of (InfoResult ip d) ''channel_id'' = Some (jint (dv_Reported d))"
  by (simp_all add: InfoResult_def update_conv')

lemma info_decodes:
  assumes "device_ok ip d" "parse_ipv4 ip \<noteq> None"
  shows "UnmarshalJSON (go_map (InfoResult ip d)) = Inr (sim_info ip d)"
proof -
  note facts = InfoResult_facts [OF assms]
  let ?raw = "sort_key fst (InfoResult ip d)"
  have raw: "decode_map ?raw = ?raw"
    using fold_update_append [of "[]" ?raw] distinct_sorted [OF facts(1)] by (simp add: decode_map_def)
  have mac: "map upper_char (dv_MAC d) \<noteq> []" "ValidChannel (dv_Reported d)"
    using assms(1) by (auto simp: device_ok_def canonical_mac_def)
  have "optionalString ?raw ''lan_mac_addr'' = map upper_char (dv_MAC d)"
    by (simp add: optionalString_def map_of_sorted [OF facts(1)] map_of_InfoResult)
  then show ?thesis using mac
    by (simp add: UnmarshalJSON_def go_map_def raw map_of_sorted [OF facts(1)] map_of_InfoResult
        decode_channel_jint sim_info_def Let_def)
qed

lemma envelope_sorted:
  "go_map [(''jsonrpc'', a), (''id'', b), (''result'', c)] = JObj [(''id'', b), (''jsonrpc'', a), (''result'', c)]"
  by (simp add: go_map_def)

lemma envelope_decodes:
  "decode_envelope (JObj [(''id'', jint 1), (''jsonrpc'', JStr ''2.0''), (''result'', c)]) =
     Some \<lparr>env_JSONRPC = ''2.0'', env_ID = ''1'', env_Result = Some c, env_Error = None\<rparr>"
  "decode_envelope (JObj [(''jsonrpc'', JStr ''2.0''), (''id'', jint 1), (''result'', c)]) =
     Some \<lparr>env_JSONRPC = ''2.0'', env_ID = ''1'', env_Result = Some c, env_Error = None\<rparr>"
  using itoa_RPCID [unfolded RPCID_def] by (simp_all add: decode_envelope_def decode_envelope_field_def match_field_def)

lemma payload_parses:
  assumes "device_ok ip d" "parse_ipv4 ip \<noteq> None"
  shows "parse_json (InfoPayload ip d) =
    Some (JObj [(''id'', jint 1), (''jsonrpc'', JStr ''2.0''), (''result'', go_map (InfoResult ip d))])"
  unfolding InfoPayload_def envelope_sorted
  by (rule parse_clean)
    (simp_all add: go_map_def InfoResult_facts [OF assms] wire_names valid_number_itoa maxNestingDepth_def
      flip: numeral_2_eq_2)

lemma info_response:
  assumes "device_ok ip d" "parse_ipv4 ip \<noteq> None"
  shows "rpc_response (Response 200 (Inr (InfoPayload ip d))) = Inr (go_map (InfoResult ip d))"
proof -
  have "take (2 ^ 20) (InfoPayload ip d) = InfoPayload ip d" using assms(1) by (simp add: device_ok_def)
  then show ?thesis unfolding rpc_response_Inr_iff
    by (simp add: payload_parses [OF assms] envelope_decodes itoa_RPCID go_map_def)
qed

lemma bodies:
  "ack_body = marshal (JObj [(''jsonrpc'', JStr ''2.0''), (''id'', jint 1), (''result'', JObj [(''result'', JBool True)])])"
  "refusal_body = marshal (JObj [(''jsonrpc'', JStr ''2.0''), (''id'', jint 1), (''result'', JObj [(''result'', JBool False)])])"
  by code_simp+

lemma ack_responses:
  "rpc_response (Response 200 (Inr ack_body)) = Inr (JObj [(''result'', JBool True)])"
  "rpc_response (Response 200 (Inr refusal_body)) = Inr (JObj [(''result'', JBool False)])"
proof -
  have "parse_json ack_body = Some (JObj [(''jsonrpc'', JStr ''2.0''), (''id'', jint 1), (''result'', JObj [(''result'', JBool True)])])"
    "parse_json refusal_body = Some (JObj [(''jsonrpc'', JStr ''2.0''), (''id'', jint 1), (''result'', JObj [(''result'', JBool False)])])"
    unfolding bodies by (rule parse_clean; simp add: wire_names valid_number_itoa maxNestingDepth_def)+
  moreover have "take (2 ^ 20) ack_body = ack_body" "take (2 ^ 20) refusal_body = refusal_body"
    by (simp_all add: ack_body_def refusal_body_def)
  ultimately show "rpc_response (Response 200 (Inr ack_body)) = Inr (JObj [(''result'', JBool True)])"
    "rpc_response (Response 200 (Inr refusal_body)) = Inr (JObj [(''result'', JBool False)])"
    unfolding rpc_response_Inr_iff by (simp_all add: envelope_decodes itoa_RPCID)
qed

text \<open>The trace a request leaves on the network, apart from what the device does.\<close>

definition noted :: "Request \<Rightarrow> Network \<Rightarrow> Network" where
  "noted r n = n\<lparr>nw_requests := nw_requests n @ [r], nw_maxInFlight := max (nw_maxInFlight n) (nw_inFlight n + 1)\<rparr>"

definition the_request :: "string \<Rightarrow> string \<Rightarrow> (string \<times> json) list \<Rightarrow> Request" where
  "the_request ip method params =
     \<lparr>rr_IP = ip, rr_Path = ''/cgi-bin/proav.cgi'', rr_Method = ''POST'', rr_DataField = EncodeRequest method params,
      rr_RPC = Some \<lparr>rc_JSONRPC = ''2.0'', rc_Method = method, rc_Params = sort_key fst params,
                     rc_ID = JNum ''1'', rc_IDRaw = Some (JNum ''1'')\<rparr>\<rparr>"

text \<open>Device \<open>i\<close> sits at the address, in state \<open>d\<close> and without a \<open>Responder\<close>.\<close>

definition device_at :: "string \<Rightarrow> nat \<Rightarrow> device_state \<Rightarrow> Network \<Rightarrow> bool" where
  "device_at ip i d n \<longleftrightarrow> nw_devices n ip = Some i \<and> nw_heap n i = \<lparr>dv_State = d, dv_Responder = None\<rparr>"

lemma device_at_noted [simp]: "device_at ip i d (noted r n) = device_at ip i d n"
  by (simp add: device_at_def noted_def)

lemma device_at_set [simp]: "device_at ip i d n \<Longrightarrow> device_at ip i d' (set_device i d' n)"
  by (simp add: device_at_def set_device_def)

lemma transport_at_device:
  assumes "device_at ip i d n" "record_request req = the_request ip method params"
    and "serve ends lit (the_request ip method params) i
      (n\<lparr>nw_inFlight := nw_inFlight n + 1, nw_maxInFlight := max (nw_maxInFlight n) (nw_inFlight n + 1),
         nw_requests := nw_requests n @ [the_request ip method params]\<rparr>) = (res, n')"
  shows "sim_transport ends lit req n =
    ((case res of
        Inl err \<Rightarrow> DoFailed (OtherError ''Post'' (Some err)) (if err = ends then Some ends else None)
      | Inr (status, body) \<Rightarrow> Response status (Inr body)), n'\<lparr>nw_inFlight := nw_inFlight n' - 1\<rparr>)"
  using assms
  by (cases res) (auto simp: sim_transport_def RoundTrip_def answer_def device_at_def Let_def the_request_def split: prod.splits)

lemma params_facts:
  "distinct (map fst (set_channel_params c))" "list_all clean_member (set_channel_params c)"
  "list_all (\<lambda>m. fits 2 (snd m)) (set_channel_params c)"
  by (simp_all add: set_channel_params_def wire_names valid_number_itoa)

lemma read_request:
  "parse_ipv4 ip \<noteq> None \<Longrightarrow>
     record_request (rpc_request ip (EncodeRequest MethodGetDeviceInfo [])) = the_request ip MethodGetDeviceInfo []"
  unfolding the_request_def by (rule requests_recorded) (simp_all add: wire_names)

lemma write_request:
  "parse_ipv4 ip \<noteq> None \<Longrightarrow>
     record_request (rpc_request ip (EncodeRequest MethodSetChannel (set_channel_params c)))
       = the_request ip MethodSetChannel (set_channel_params c)"
  unfolding the_request_def by (rule requests_recorded) (simp_all add: wire_names params_facts)

lemma written_channel:
  "ValidChannel c \<Longrightarrow> ChannelParam lit (the_request ip MethodSetChannel (set_channel_params c)) = c"
  by (simp add: ChannelParam_def the_request_def set_channel_params_def number_int_def parse_int64_itoa ValidChannel_iff)

text \<open>Reading a device that answers.\<close>

lemma sim_read:
  assumes "device_at ip i d n" "device_ok ip d" "parse_ipv4 ip \<noteq> None" "\<not> dv_ReadHangs d"
  shows "GetDeviceInfo (sim_transport ends lit) ip n = (Inr (sim_info ip d), noted (the_request ip MethodGetDeviceInfo []) n)"
proof -
  let ?n = "n\<lparr>nw_inFlight := nw_inFlight n + 1, nw_maxInFlight := max (nw_maxInFlight n) (nw_inFlight n + 1),
         nw_requests := nw_requests n @ [the_request ip MethodGetDeviceInfo []]\<rparr>"
  have "serve ends lit (the_request ip MethodGetDeviceInfo []) i ?n = (Inr (200, InfoPayload ip d), ?n)"
    using assms(1,4) by (simp add: serve_def the_request_def device_at_def MethodGetDeviceInfo_def DeviceResponse_def)
  from transport_at_device [OF assms(1) read_request [OF assms(3)] this]
  have "sim_transport ends lit (rpc_request ip (EncodeRequest MethodGetDeviceInfo [])) n =
      (Response 200 (Inr (InfoPayload ip d)), noted (the_request ip MethodGetDeviceInfo []) n)"
    by (simp add: noted_def)
  then show ?thesis using info_response [OF assms(2,3)] info_decodes [OF assms(2,3)] assms(3)
    by (simp add: GetDeviceInfo_def rpc_def)
qed

text \<open>What a write does to a device, and what the client makes of the answer.\<close>

definition written :: "int \<Rightarrow> device_state \<Rightarrow> device_state" where
  "written c d = (if dv_RejectWrites d then d else ApplyChannel c d)"

lemma sim_write_transport:
  assumes "device_at ip i d n" "parse_ipv4 ip \<noteq> None" "ValidChannel c"
  shows "sim_transport ends lit (rpc_request ip (EncodeRequest MethodSetChannel (set_channel_params c))) n =
    (if dv_RejectWrites d then Response 200 (Inr refusal_body)
     else if dv_WriteHangs d then DoFailed (OtherError ''Post'' (Some ends)) (Some ends)
     else Response 200 (Inr ack_body),
     noted (the_request ip MethodSetChannel (set_channel_params c)) (set_device i (written c d) n))"
proof -
  let ?r = "the_request ip MethodSetChannel (set_channel_params c)"
  let ?n = "n\<lparr>nw_inFlight := nw_inFlight n + 1, nw_maxInFlight := max (nw_maxInFlight n) (nw_inFlight n + 1),
         nw_requests := nw_requests n @ [?r]\<rparr>"
  obtain call where call: "rr_RPC ?r = Some call" "rc_Method call = ''set_channel_id''"
    by (simp add: the_request_def MethodSetChannel_def)
  have d: "nw_heap ?n i = \<lparr>dv_State = d, dv_Responder = None\<rparr>" using assms(1) by (simp add: device_at_def)
  have c: "ChannelParam lit ?r = c" "0 \<le> c" using written_channel [OF assms(3)] assms(3) by (simp_all add: ValidChannel_iff)
  have same: "set_device i d n = n" using assms(1) by (simp add: set_device_def device_at_def fun_upd_idem)
  have "serve ends lit ?r i ?n =
      (if dv_RejectWrites d then (Inr (200, refusal_body), ?n)
       else if dv_WriteHangs d then (Inl ends, set_device i (ApplyChannel c d) ?n)
       else (Inr (200, ack_body), set_device i (ApplyChannel c d) ?n))"
    unfolding serve_def Let_def d call(1) c(1) using c(2) by (simp add: call(2) DeviceResponse_def hang_def)
  from transport_at_device [OF assms(1) write_request [OF assms(2)], of ends lit c, unfolded this]
  show ?thesis by (cases "dv_RejectWrites d"; cases "dv_WriteHangs d")
      (simp_all add: written_def same, simp_all add: noted_def set_device_def)
qed

lemma sim_write:
  assumes "device_at ip i d n" "parse_ipv4 ip \<noteq> None" "ValidChannel c"
  shows "\<exists>res. SetChannel (sim_transport ends lit) ip c n =
      (res, noted (the_request ip MethodSetChannel (set_channel_params c)) (set_device i (written c d) n)) \<and>
    (if dv_RejectWrites d then \<exists>err. res = Some err \<and> \<not> Ambiguous err
     else if dv_WriteHangs d
     then res = Some (interrupted (Some ends) (OtherError ''Post'' (Some ends)) ''could not complete the device HTTP request'')
     else res = None)"
proof -
  have ack: "acknowledged (JObj [(''result'', JBool True)])" "\<not> acknowledged (JObj [(''result'', JBool False)])"
    by (simp_all add: acknowledged_def decode_ack_field_def match_field_def)
  have failed: "rpc_response (DoFailed err ctx) = Inl (interrupted ctx err ''could not complete the device HTTP request'')" for err ctx
    by (simp add: rpc_response_def)
  show ?thesis unfolding SetChannel_def rpc_def sim_write_transport [OF assms]
    using assms(2,3) by (auto simp: ack_responses ack failed newError_def simp del: Ambiguous_def)
qed

end
