(* ===== verification/Sim_House.thy ===== *)
theory Sim_House
  imports Sim_Network Controller_Safety
begin

text \<open>
  The controller on the simulated LAN: controller, JSON-RPC client, JSON texts and device
  firmware together.  The outside world of the controller is a network of \<open>Sim_Network\<close>; what
  a channel command does to the device, and what the controller reports and remembers, is a
  function of how the device behaves.
\<close>

definition sim_env :: "go_error \<Rightarrow> (string \<Rightarrow> int) \<Rightarrow> Network env \<Rightarrow> Network env" where
  "sim_env ends lit e = http_env (sim_transport ends lit) e"

lemma sim_env_simps [simp]:
  "cl_GetDeviceInfo (ev_client (sim_env ends lit e)) = GetDeviceInfo (sim_transport ends lit)"
  "cl_SetChannel (ev_client (sim_env ends lit e)) = SetChannel (sim_transport ends lit)"
  "ev_readback (sim_env ends lit e) = ev_readback e" "ev_gap_cancelled (sim_env ends lit e) = ev_gap_cancelled e"
  by (simp_all add: sim_env_def http_env_def NewHTTPClient_def)

text \<open>The registry shows the adapter online at the address with this role and channel.\<close>

definition registered :: "string \<Rightarrow> string \<Rightarrow> device_state \<Rightarrow> controller \<Rightarrow> bool" where
  "registered m ip d s \<longleftrightarrow> reg_wf (co_registry s) \<and>
     (\<exists>a. Lookup (co_registry s) m = Some a \<and> ad_Online a \<and> ad_IP a = ip \<and>
          ad_Channel a = Some (dv_Reported d) \<and> ad_Role a = Classify (sim_info ip d))"

lemma sim_info_simps [simp]:
  "di_LanMAC (sim_info ip d) = map upper_char (dv_MAC d)" "di_ChannelID (sim_info ip d) = dv_Reported d"
  by (simp_all add: sim_info_def Let_def)

lemma observe_registers:
  assumes "reg_wf (co_registry s)" "device_ok ip d"
  shows "\<exists>s'. observe e ip (sim_info ip d) (s, w) = (s', w) \<and> registered (dv_MAC d) ip d s'"
proof -
  let ?r = "co_registry s" and ?m = "dv_MAC d" and ?info = "sim_info ip d"
  obtain s' where s': "observe e ip ?info (s, w) = (s', w)"
    using snd_observe [of e ip ?info "(s, w)"] by (cases "observe e ip ?info (s, w)") simp
  have d: "canonical_mac ?m" "ValidChannel (dv_Reported d)" using assms(2) by (simp_all add: device_ok_def)
  then have m: "Normalize (di_LanMAC ?info) = ?m" "?m \<noteq> []" by (auto simp: Normalize_upper canonical_mac_def)
  have r: "co_registry s' = fst (RecordObservation (map fst ?r) ?r ip ?info (ev_now e w))"
    using co_registry_observe [of e ip ?info s w] s' by simp
  then have "reg_wf (co_registry s')" using RecordObservation_wf [OF assms(1)] d(2) by simp
  moreover have "\<exists>a. Lookup (co_registry s') ?m = Some a \<and> ad_Online a \<and> ad_IP a = ip \<and>
      ad_Channel a = Some (dv_Reported d) \<and> ad_Role a = Classify ?info"
    by (rule RecordObservation_cases [OF m assms(1), of "map fst ?r" ip "ev_now e w"])
      (auto simp: r Lookup_def update_conv' split: option.splits)
  ultimately show ?thesis using s' by (simp add: registered_def)
qed

lemma writes_noted:
  "WritesTo ip (noted (the_request ip' MethodGetDeviceInfo []) n) = WritesTo ip n"
  "WritesTo ip (noted (the_request ip MethodSetChannel (set_channel_params c)) n) =
     WritesTo ip n @ [the_request ip MethodSetChannel (set_channel_params c)]"
  "WritesTo ip (set_device i d n) = WritesTo ip n"
  by (simp_all add: WritesTo_def RequestsTo_def noted_def the_request_def set_device_def
      MethodGetDeviceInfo_def MethodSetChannel_def)

section \<open>Reading back\<close>

text \<open>
  One read of a device that answers: the registry shows it, and the network only notes the
  request.
\<close>

definition steady :: "string \<Rightarrow> nat \<Rightarrow> device_state \<Rightarrow> Network \<Rightarrow> Network \<Rightarrow> bool" where
  "steady ip i d n n' \<longleftrightarrow> device_at ip i d n' \<and> WritesTo ip n' = WritesTo ip n"

lemma steady_refl: "device_at ip i d n \<Longrightarrow> steady ip i d n n"
  by (simp add: steady_def)

lemma readBack_loop_steady:
  assumes dev: "device_ok ip d" "parse_ipv4 ip \<noteq> None" "\<not> dv_ReadHangs d"
    and gap: "\<forall>n. snd (ev_gap_cancelled e n) = n"
  shows "reg_wf (co_registry s) \<Longrightarrow> device_at ip i d n \<Longrightarrow>
     (retry \<or> left = 0 \<longrightarrow> reported = Some (dv_Reported d) \<and> registered (dv_MAC d) ip d s) \<Longrightarrow>
     \<exists>s' n'. readBack_loop (sim_env ends lit e) (dv_MAC d) ip c retry left reported (s, n) = (Some (dv_Reported d), s', n')
       \<and> registered (dv_MAC d) ip d s' \<and> steady ip i d n n'"
proof (induction left arbitrary: retry reported s n)
  case 0
  then show ?case by (auto simp: steady_refl)
next
  case (Suc left)
  let ?E = "sim_env ends lit e" and ?m = "dv_MAC d"
  let ?n = "noted (the_request ip MethodGetDeviceInfo []) n"
  have mac: "Normalize (map upper_char ?m) = ?m" using dev(1) by (simp add: device_ok_def Normalize_upper)
  note read = sim_read [OF Suc.prems(2) dev, of ends lit]
  obtain s1 where s1: "observe ?E ip (sim_info ip d) (s, ?n) = (s1, ?n)" "registered ?m ip d s1"
    using observe_registers [OF Suc.prems(1) dev(1), of ?E ?n] by blast
  obtain cancelled where g: "(if retry \<and> rb_Gap (ev_readback e) > 0 then ev_gap_cancelled e n else (False, n)) = (cancelled, n)"
    "\<not> retry \<Longrightarrow> \<not> cancelled"
    using gap by (cases "ev_gap_cancelled e n") (metis fst_conv snd_conv surj_pair)
  have here: "steady ip i d n ?n" using Suc.prems(2) by (simp add: steady_def writes_noted)
  show ?case
  proof (cases cancelled)
    case True
    then show ?thesis using Suc.prems g by (auto simp: steady_refl)
  next
    case False
    show ?thesis
    proof (cases "dv_Reported d = c")
      case True
      then show ?thesis using g False read s1 here by (auto simp: mac Let_def)
    next
      case other: False
      have "reg_wf (co_registry s1)" "device_at ip i d ?n" using s1(2) Suc.prems(2) by (simp_all add: registered_def)
      from Suc.IH [OF this, of True "Some (dv_Reported d)"] s1(2) obtain s' n' where
        rec: "readBack_loop ?E ?m ip c True left (Some (dv_Reported d)) (s1, ?n) = (Some (dv_Reported d), s', n')"
        "registered ?m ip d s'" "steady ip i d ?n n'" by blast
      then show ?thesis using g False read s1 here other by (auto simp: mac Let_def steady_def)
    qed
  qed
qed

section \<open>A channel command\<close>

lemma written_simps [simp]:
  "dv_MAC (written c d) = dv_MAC d" "dv_ReadHangs (written c d) = dv_ReadHangs d"
  "dv_Template (written c d) = dv_Template d"
  "dv_Reported (written c d) = (if dv_RejectWrites d \<or> dv_AckWithoutApply d then dv_Reported d else c)"
  by (simp_all add: written_def ApplyChannel_def Let_def)

text \<open>What the controller should report of a command, given the device.\<close>

definition expected_outcome :: "string \<Rightarrow> int \<Rightarrow> device_state \<Rightarrow> Outcome" where
  "expected_outcome ip c d =
     \<lparr>oc_Status =
        (if dv_RejectWrites d then StatusFailed
         else if dv_AckWithoutApply d \<and> dv_Reported d \<noteq> c then StatusMismatch else StatusMatched),
      oc_MAC = dv_MAC d, oc_IP = ip, oc_Requested = c,
      oc_Reported = Some (if dv_RejectWrites d \<or> dv_AckWithoutApply d then dv_Reported d else c),
      oc_Reason = (if dv_RejectWrites d then Some ReasonWriteRejected else None),
      oc_Write = Some (if dv_RejectWrites d then WriteRejected else if dv_WriteHangs d then WriteAmbiguous else WriteAccepted)\<rparr>"

lemma Classify_cases: "Classify info \<in> {RoleTransmitter, RoleReceiver, RoleUnknown}"
  by (simp add: Classify_def Let_def)

lemma changeChannel_on_device:
  assumes state: "reg_wf (co_registry s)" "Lookup (co_registry s) (dv_MAC d) = Some a" "ad_IP a = ip"
    and dev: "device_at ip i d n" "device_ok ip d" "device_ok ip (written c d)" "parse_ipv4 ip \<noteq> None"
      "\<not> dv_ReadHangs d" "Classify (sim_info ip d) \<noteq> RoleUnknown"
    and env: "\<forall>n. snd (ev_gap_cancelled e n) = n" "0 < rb_Attempts (ev_readback e)"
      "ends = DeadlineExceeded \<or> ends = Canceled" "ValidChannel c"
  shows "\<exists>s' n'. changeChannel (sim_env ends lit e) ctx (dv_MAC d) c (s, n) = (expected_outcome ip c d, s', n')
    \<and> registered (dv_MAC d) ip (written c d) s' \<and> device_at ip i (written c d) n'
    \<and> WritesTo ip n' = WritesTo ip n @ [the_request ip MethodSetChannel (set_channel_params c)]"
proof -
  let ?E = "sim_env ends lit e" and ?m = "dv_MAC d" and ?d = "written c d"
  let ?n1 = "noted (the_request ip MethodGetDeviceInfo []) n"
  let ?n2 = "noted (the_request ip MethodSetChannel (set_channel_params c)) (set_device i ?d ?n1)"
  have ip: "ip \<noteq> []" using dev(4) parse_ipv4_Nil by auto
  have mac: "Normalize (map upper_char ?m) = ?m" using dev(2) by (simp add: device_ok_def Normalize_upper)
  obtain s1 where s1: "observe ?E ip (sim_info ip d) (s, ?n1) = (s1, ?n1)" "registered ?m ip d s1"
    using observe_registers [OF state(1) dev(2), of ?E ?n1] by blast
  have found: "verifiedIP ?E ctx ?m (s, n) = (Some ip, s1, ?n1)"
    using state ip s1(1) by (simp add: verifiedIP_eq observeAt_def sim_read [OF dev(1,2,4,5)] mac)
  obtain b where b: "Lookup (co_registry s1) ?m = Some b" "ad_Role b = Classify (sim_info ip d)"
    using s1(2) by (auto simp: registered_def)
  have role: "writableRole (ad_Role b)"
    using dev(6) b(2) Classify_cases [of "sim_info ip d"] by (auto simp: writableRole_def)
  have at1: "device_at ip i d ?n1" using dev(1) by simp
  have amb: "Ambiguous (interrupted (Some ends) (OtherError ''Post'' (Some ends)) msg)" for msg
    using env(3) by (auto simp: interrupted_Ambiguous)
  have wr: "ctl_write ?E ip c (s1, ?n1) = (the (oc_Write (expected_outcome ip c d)), s1, ?n2)"
    using sim_write [OF at1 dev(4) env(4), of ends lit] amb
    by (auto simp: ctl_write_def expected_outcome_def split: if_splits)
  have at2: "device_at ip i ?d ?n2" using at1 by simp
  have wf1: "reg_wf (co_registry s1)" using s1(2) by (simp add: registered_def)
  have "\<exists>s' n'. readBack ?E ?m ip c (s1, ?n2) = (Some (dv_Reported ?d), s', n') \<and> registered ?m ip ?d s' \<and> steady ip i ?d ?n2 n'"
    unfolding readBack_def written_simps(1) [of c d, symmetric]
    by (rule readBack_loop_steady [OF dev(3,4) _ env(1) wf1 at2]) (use dev(5) env(2) in simp_all)
  then obtain s' n' where rb: "readBack ?E ?m ip c (s1, ?n2) = (Some (dv_Reported ?d), s', n')"
    "registered ?m ip ?d s'" "steady ip i ?d ?n2 n'" by blast
  have "changeChannel ?E ctx ?m c (s, n) = (expected_outcome ip c d, s', n')"
    using found b(1) role wr rb(1) by (auto simp: changeChannel_def expected_outcome_def Let_def)
  then show ?thesis using rb(2,3) by (auto simp: steady_def writes_noted)
qed

text \<open>The message that asks for a channel, as Home Assistant sends it.\<close>

lemma channel_message_routed:
  assumes "canonical_mac m" "ValidChannel c"
  shows "NewRouter f2i (tp_ChannelSet (ForDevice m)) (itoa c) = Some (ChannelCommand m c)"
proof -
  have i: "itoa c = string_of_nat (nat c)" "list_all is_digit (itoa c)" "itoa c \<noteq> []"
    using assms(2) itoa_nonneg_digits [of c] string_of_nat_digits [of "nat c"] by (simp_all add: itoa_def ValidChannel_iff)
  then have "x \<in> set (itoa c) \<Longrightarrow> is_hex x \<or> x = CHR '':''" for x by (simp add: is_hex_def list_all_iff)
  then have trim: "trim_space (itoa c) = itoa c" by (rule trim_space_hex_text)
  obtain x xs where x: "itoa c = x # xs" using i(3) by (cases "itoa c") auto
  then have "x \<noteq> CHR ''+''" "x \<noteq> CHR ''-''" using i(2) by (auto simp: is_digit_def less_eq_char_def)
  then have sgn: "split_sign (itoa c) = (False, itoa c)" using x by (simp add: split_sign_def)
  have run: "takeWhile is_digit (itoa c) = itoa c" "dropWhile is_digit (itoa c) = []"
    using i(2) by (simp_all add: list_all_iff takeWhile_eq_all_conv dropWhile_eq_Nil_conv)
  have "channelPayload (itoa c) = Some (False, itoa c)" using i(2,3) by (simp add: channelPayload_def sgn run Let_def list_all_iff)
  then have "ParseChannelPayload f2i (itoa c) = Some c"
    unfolding ParseChannelPayload_iff trim using assms(2) i(1)
    by (intro conjI exI [of _ False] exI [of _ "itoa c"]) (simp_all add: ValidChannel_iff)
  then show ?thesis using assms(1) by (simp add: NewRouter_device)
qed

lemma react_channel_message:
  assumes "Lookup (co_registry s) m = Some a" "reg_wf (co_registry s)" "canonical_mac m" "ValidChannel c"
    and "\<not> ev_stopping e w" "writableRole (ad_Role a)"
  shows "react e (MessageArrived (tp_ChannelSet (ForDevice m)) (itoa c)) (s, w) =
    snd (changeChannel e (ev_stopping e) m c (s, w))"
proof -
  have "ad_MAC a = m" using reg_wfD [OF assms(2)] assms(1) by (auto simp: Lookup_def)
  then have "ChangeChannel e m c (s, w) = Inr (m, c)"
    using assms by (simp add: ChangeChannel_def Normalize_canonical_id)
  then show ?thesis by (simp add: on_message_def perform_def channel_message_routed [OF assms(3,4)] Let_def del: ForDevice_simps)
qed

lemma registered_shown:
  assumes "registered m ip d s" "shown (co_registry s) og b"
  shows "b (tp_Availability (ForDevice m)) = Some PayloadOnline \<and> b (tp_ChannelState (ForDevice m)) = Some (itoa (dv_Reported d))
    \<and> (ip \<noteq> [] \<longrightarrow> b (tp_IPState (ForDevice m)) = Some ip)"
proof -
  obtain a where a: "Lookup (co_registry s) m = Some a" "ad_Online a" "ad_IP a = ip" "ad_Channel a = Some (dv_Reported d)"
    and wf: "reg_wf (co_registry s)" using assms(1) by (auto simp: registered_def)
  have "ad_MAC a = m" using reg_wfD [OF wf] a(1) by (auto simp: Lookup_def)
  moreover have "a \<in> set (All (co_registry s))"
    using a(1) by (force simp: Lookup_def set_All dest!: map_of_SomeD)
  then have "adapter_shown (Sources (co_registry s)) og b a" using assms(2) by (simp add: shown_def list_all_iff)
  ultimately show ?thesis using a by (simp add: adapter_shown_def Let_def)
qed

section \<open>Properties\<close>

text \<open>C6: a channel command, from the broker message to the device and back.  In a running system whose
  inventory knows an adapter of a role that can be tuned, the device is at the address recorded for it
  and answers reads, and every publish of the session is delivered.  Then the command sends exactly one
  write, whose request the device reads as that channel; the device is then tuned unless it refuses
  or ignores writes.  The outcome reports the channel that the device then has; it is failed exactly when the
  device refuses the write, and otherwise matched exactly when that channel is the requested one,
  even when the acknowledgement never arrived (the write is then ambiguous).  The inventory and the broker's
  retained messages show the device online with that channel.\<close>

theorem channel_command_end_to_end:
  assumes "table_wf db" "ev_db e n0 = None" "fst (ev_await e n0)"
    and run: "system_run (sim_env ends lit e) og db inputs n0 = (s, n)"
    and known: "Lookup (co_registry s) (dv_MAC d) = Some a" "writableRole (ad_Role a)" "\<not> ev_stopping e n"
    and dev: "device_at (ad_IP a) i d n" "device_ok (ad_IP a) d" "device_ok (ad_IP a) (written c d)"
      "parse_ipv4 (ad_IP a) \<noteq> None" "\<not> dv_ReadHangs d" "Classify (sim_info (ad_IP a) d) \<noteq> RoleUnknown"
    and env: "\<forall>n. snd (ev_gap_cancelled e n) = n" "0 < rb_Attempts (ev_readback e)"
      "ends = DeadlineExceeded \<or> ends = Canceled" "ValidChannel c"
  shows "\<exists>s' n' sent. system_run (sim_env ends lit e) og db
        (inputs @ [MessageArrived (tp_ChannelSet (ForDevice (dv_MAC d))) (itoa c)]) n0 = (s', n')
    \<and> WritesTo (ad_IP a) n' = WritesTo (ad_IP a) n @ [sent] \<and> ChannelParam lit sent = c
    \<and> device_at (ad_IP a) i (written c d) n' \<and> registered (dv_MAC d) (ad_IP a) (written c d) s'
    \<and> (\<exists>oc. changeChannel (sim_env ends lit e) (ev_stopping e) (dv_MAC d) c (s, n) = (oc, s', n')
        \<and> oc_MAC oc = dv_MAC d \<and> oc_IP oc = ad_IP a \<and> oc_Requested oc = c
        \<and> oc_Reported oc = Some (dv_Reported (written c d))
        \<and> oc_Status oc = (if dv_RejectWrites d then StatusFailed
            else if dv_Reported (written c d) = c then StatusMatched else StatusMismatch)
        \<and> oc_Reason oc = (if dv_RejectWrites d then Some ReasonWriteRejected else None)
        \<and> oc_Write oc = Some (if dv_RejectWrites d then WriteRejected else if dv_WriteHangs d then WriteAmbiguous else WriteAccepted))
    \<and> (let b = broker (pb_sent (co_pub s')) b0; t = ForDevice (dv_MAC d) in
        b (tp_Availability t) = Some PayloadOnline \<and>
        b (tp_ChannelState t) = Some (itoa (if dv_RejectWrites d \<or> dv_AckWithoutApply d then dv_Reported d else c)))"
proof -
  let ?E = "sim_env ends lit e" and ?m = "dv_MAC d" and ?msg = "MessageArrived (tp_ChannelSet (ForDevice (dv_MAC d))) (itoa c)"
  have view: "view_inv og b0 (system_run ?E og db inputs n0)" for inputs
    unfolding sim_env_def using http.system_run_view assms(1-3) by (metis http_env_frame)
  have wf: "reg_wf (co_registry s)" using view [of inputs] run by (simp add: view_inv_def ha_inv_def)
  obtain s' n' where ch: "changeChannel ?E (ev_stopping ?E) ?m c (s, n) = (expected_outcome (ad_IP a) c d, s', n')"
    and reg: "registered ?m (ad_IP a) (written c d) s'" and at': "device_at (ad_IP a) i (written c d) n'"
    and ws: "WritesTo (ad_IP a) n' = WritesTo (ad_IP a) n @ [the_request (ad_IP a) MethodSetChannel (set_channel_params c)]"
    using changeChannel_on_device [OF wf known(1) refl dev env, of lit "ev_stopping ?E"] by blast
  have mac: "canonical_mac ?m" using dev(2) by (simp add: device_ok_def)
  have "\<not> ev_stopping ?E n" using known(3) by (simp add: sim_env_def http_env_def)
  from react_channel_message [OF known(1) wf mac env(4) this known(2)]
  have run': "system_run ?E og db (inputs @ [?msg]) n0 = (s', n')" using run ch by (simp add: system_run_def)
  have "shown (co_registry s') og (broker (pb_sent (co_pub s')) b0)"
    using view [of "inputs @ [?msg]"] run' by (auto simp: view_inv_def ha_inv_def in_view_def)
  note view' = registered_shown [OF reg this]
  have outcome: "\<exists>oc. changeChannel ?E (ev_stopping e) ?m c (s, n) = (oc, s', n')
      \<and> oc_MAC oc = ?m \<and> oc_IP oc = ad_IP a \<and> oc_Requested oc = c \<and> oc_Reported oc = Some (dv_Reported (written c d))
      \<and> oc_Status oc = (if dv_RejectWrites d then StatusFailed
          else if dv_Reported (written c d) = c then StatusMatched else StatusMismatch)
      \<and> oc_Reason oc = (if dv_RejectWrites d then Some ReasonWriteRejected else None)
      \<and> oc_Write oc = Some (if dv_RejectWrites d then WriteRejected else if dv_WriteHangs d then WriteAmbiguous else WriteAccepted)"
    using ch by (auto simp: expected_outcome_def sim_env_def http_env_def)
  have "(let b = broker (pb_sent (co_pub s')) b0; t = ForDevice ?m in
      b (tp_Availability t) = Some PayloadOnline \<and>
      b (tp_ChannelState t) = Some (itoa (if dv_RejectWrites d \<or> dv_AckWithoutApply d then dv_Reported d else c)))"
    using view' by (simp add: Let_def del: ForDevice_simps)
  then show ?thesis using run' ws written_channel [OF env(4)] at' reg outcome by blast
qed

text \<open>A receiver on channel 2 at the address the database remembers, in a LAN of its own.\<close>

definition receiver :: device_state where
  "receiver =
     \<lparr>dv_MAC = ''fc:19:28:6c:d6:d8'', dv_Template = [(''product_name'', JStr ''ProAVRx ER01''), (''wifi_mac_addr'', JNull)],
      dv_Reported = 2, dv_Video = 2, dv_FrontPanel = 2, dv_AckWithoutApply = False, dv_WriteHangs = True,
      dv_ReadHangs = False, dv_RejectWrites = False, dv_WriteCount = 0\<rparr>"

definition receiver_lan :: Network where
  "receiver_lan = Place ''10.0.0.1'' 0 (NewNetwork (\<lambda>_. \<lparr>dv_State = receiver, dv_Responder = None\<rparr>))"

definition lan_house :: "Network env" where
  "lan_house =
     \<lparr>ev_client = NewHTTPClient (sim_transport DeadlineExceeded (\<lambda>_. 0)),
      ev_opts = \<lparr>op_ScanRanges = [], op_PollInterval = 30000000000, op_ProbeTimeout = 1000000000,
                 op_DiscoveryConcurrency = 64, op_LogLevel = 0\<rparr>,
      ev_readback = DefaultReadback, ev_now = (\<lambda>_. 5000000000), ev_stopping = (\<lambda>_. False),
      ev_gap_cancelled = (\<lambda>w. (False, w)), ev_sched = (\<lambda>_ n. [0..<n]), ev_db = (\<lambda>_. None),
      ev_await = (\<lambda>w. (True, w)), ev_f2i = id\<rparr>"

lemma receiver_payloads: "length (InfoPayload ''10.0.0.1'' receiver) = 161" "length (InfoPayload ''10.0.0.1'' (written 7 receiver)) = 161"
  by code_simp+

lemma receiver_ok: "device_ok ''10.0.0.1'' receiver" "device_ok ''10.0.0.1'' (written 7 receiver)"
  by (simp_all add: device_ok_def receiver_payloads) (simp_all add: receiver_def ValidChannel_iff canonical_mac_shape is_hex_def is_digit_def less_eq_char_def to_valid_ascii ascii_def)

lemma receiver_role: "Classify (sim_info ''10.0.0.1'' receiver) = RoleReceiver"
  by code_simp

lemma parses_10_0_0_1: "parse_ipv4 ''10.0.0.1'' \<noteq> None"
  by (simp add: parse_ipv4_def parse_octet_def nat_of_digits_def digit_val_def is_digit_def less_eq_char_def)

lemma receiver_simps: "dv_MAC receiver = ''fc:19:28:6c:d6:d8''" "\<not> dv_ReadHangs receiver"
  by (simp_all add: receiver_def)

lemma receiver_found:
  "\<exists>s n. system_run (sim_env DeadlineExceeded (\<lambda>_. 0) lan_house) house_origin house_db [] receiver_lan = (s, n)
     \<and> registered ''fc:19:28:6c:d6:d8'' ''10.0.0.1'' receiver s \<and> device_at ''10.0.0.1'' 0 receiver n"
proof -
  let ?E = "sim_env DeadlineExceeded (\<lambda>_. 0) lan_house" and ?s = "fst (onMQTTConnected (loaded house_origin house_db [house_adapter], receiver_lan))"
  have env: "ev_sched ?E = (\<lambda>_ n. [0..<n])" "ev_stopping ?E = (\<lambda>_. False)" "ScanHosts (ev_opts ?E) = []"
    "ev_db ?E = (\<lambda>_. None)" "ev_await ?E = (\<lambda>w. (True, w))"
    by (simp_all add: sim_env_def lan_house_def http_env_def ScanHosts_def)
  have all: "All [(''fc:19:28:6c:d6:d8'', house_adapter)] = [house_adapter]" by (simp add: All_def)
  have here: "device_at ''10.0.0.1'' 0 receiver receiver_lan"
    by (simp add: device_at_def receiver_lan_def Place_def NewNetwork_def)
  have "canonical_mac (dv_MAC receiver)" using receiver_ok(1) by (simp add: device_ok_def)
  note mac = receiver_simps(1) Normalize_upper [OF this] receiver_simps(2)
  note ip = parses_10_0_0_1
  let ?n = "noted (the_request ''10.0.0.1'' MethodGetDeviceInfo []) receiver_lan"
  have s: "onMQTTConnected (loaded house_origin house_db [house_adapter], receiver_lan) = (?s, receiver_lan)"
    "co_registry ?s = [(''fc:19:28:6c:d6:d8'', house_adapter)]"
    by (simp_all add: onMQTTConnected_def house_loaded)
  have "reg_wf (co_registry ?s)" using hydrated_wf [OF house_db_wf house_loaded(1)] s(2) house_loaded(2) by simp
  from observe_registers [OF this receiver_ok(1), of ?E ?n] obtain s1 where
    s1: "observe ?E ''10.0.0.1'' (sim_info ''10.0.0.1'' receiver) (?s, ?n) = (s1, ?n)" "registered (dv_MAC receiver) ''10.0.0.1'' receiver s1"
    by blast
  have "observeAt ?E ''10.0.0.1'' ''fc:19:28:6c:d6:d8'' (?s, receiver_lan) = (observeVerified, s1, ?n)"
    using s1(1) mac by (simp add: observeAt_def sim_read [OF here receiver_ok(1) ip mac(3)])
  then have "ProbeKnownAddresses ?E (ev_stopping ?E) (?s, receiver_lan) = (s1, ?n)"
    using s(2) by (simp add: ProbeKnownAddresses_def forEach_def all env)
  moreover have "\<exists>s2. RunDiscovery ?E (ev_stopping ?E) (s1, ?n) = (s2, ?n) \<and> co_registry s2 = co_registry s1"
    by (simp add: RunDiscovery_def scan_def Probe_def forEach_def env Let_def)
  ultimately obtain s2 where "system_run ?E house_origin house_db [] receiver_lan = (s2, ?n)" "co_registry s2 = co_registry s1"
    using s(1) by (auto simp: system_run_def Start_eq env house_loaded(1))
  then show ?thesis using s1(2) here mac(1) by (auto simp: registered_def)
qed

theorem channel_command_end_to_end_witness:
  "\<exists>s n. system_run (sim_env DeadlineExceeded (\<lambda>_. 0) lan_house) house_origin house_db
        [MessageArrived ''dt241m/device/fc19286cd6d8/channel/set'' ''7''] receiver_lan = (s, n)
     \<and> registered ''fc:19:28:6c:d6:d8'' ''10.0.0.1'' (receiver\<lparr>dv_Reported := 7, dv_Video := 7, dv_WriteCount := 1\<rparr>) s
     \<and> device_at ''10.0.0.1'' 0 (receiver\<lparr>dv_Reported := 7, dv_Video := 7, dv_WriteCount := 1\<rparr>) n
     \<and> broker (pb_sent (co_pub s)) Map.empty ''dt241m/device/fc19286cd6d8/channel/state'' = Some ''7''"
proof -
  obtain s n where run: "system_run (sim_env DeadlineExceeded (\<lambda>_. 0) lan_house) house_origin house_db [] receiver_lan = (s, n)"
    and reg: "registered ''fc:19:28:6c:d6:d8'' ''10.0.0.1'' receiver s" and here: "device_at ''10.0.0.1'' 0 receiver n"
    using receiver_found by blast
  then obtain a where a: "Lookup (co_registry s) (dv_MAC receiver) = Some a" "ad_IP a = ''10.0.0.1''" "ad_Role a = RoleReceiver"
    by (auto simp: registered_def receiver_role receiver_simps)
  have env: "ev_db lan_house receiver_lan = None" "fst (ev_await lan_house receiver_lan)" "\<not> ev_stopping lan_house n"
    "\<forall>n. snd (ev_gap_cancelled lan_house n) = n" "0 < rb_Attempts (ev_readback lan_house)" "ValidChannel 7"
    by (simp_all add: lan_house_def DefaultReadback_def ValidChannel_iff)
  note ip = parses_10_0_0_1 receiver_simps(2)
  have topics: "tp_ChannelSet (ForDevice (dv_MAC receiver)) = ''dt241m/device/fc19286cd6d8/channel/set''"
    "tp_ChannelState (ForDevice (dv_MAC receiver)) = ''dt241m/device/fc19286cd6d8/channel/state''" "itoa 7 = ''7''"
    by code_simp+
  have tuned: "written 7 receiver = receiver\<lparr>dv_Reported := 7, dv_Video := 7, dv_WriteCount := 1\<rparr>"
    by (simp add: written_def ApplyChannel_def receiver_def)
  from channel_command_end_to_end [OF house_db_wf env(1,2) run a(1) _ env(3) _ _ _ _ ip(2) _ env(4,5) _ env(6), of 0 Map.empty]
  show ?thesis using a here receiver_ok ip receiver_role topics tuned
    by (simp add: writableRole_def receiver_simps Let_def del: ForDevice_simps) (auto simp: receiver_def)
qed

end
