(* ===== verification/Fixtures.thy ===== *)
theory Fixtures
  imports Sim_Network
begin

text \<open>
  Package \<open>internal/testutil\<close>, file \<open>fixtures.go\<close>: captured device responses as the templates of
  simulated devices.  The directory of fixtures is a partial function \<open>files\<close> from file names to
  contents; \<open>None\<close> is a panic, and the location of the directory is left out.  A device that is
  built from a captured response answers with that response again.
\<close>

section \<open>Definitions\<close>

definition TxFixtureMAC :: string where
  "TxFixtureMAC = ''fc:19:28:6c:d2:91''"

definition RxFixtureMAC :: string where
  "RxFixtureMAC = ''fc:19:28:6c:d6:d8''"

definition FixtureText :: "(string \<rightharpoonup> string) \<Rightarrow> string \<Rightarrow> string option" where
  "FixtureText files name = files (name @ ''.json'')"

text \<open>The envelope's only field; a nil map is empty.\<close>

definition decode_fixture_field ::
  "string \<times> json \<Rightarrow> (string \<times> json) list option \<Rightarrow> (string \<times> json) list option" where
  "decode_fixture_field m acc =
     (case acc of None \<Rightarrow> None | Some result \<Rightarrow>
      (if match_field [''result''] (fst m) = None then acc
       else
         (case snd m of
            JObj ms \<Rightarrow> Some (fold (\<lambda>(k, v). AList.update k v) ms result)
          | JNull \<Rightarrow> Some []
          | _ \<Rightarrow> None)))"

definition FixtureResult :: "(string \<rightharpoonup> string) \<Rightarrow> string \<Rightarrow> (string \<times> json) list option" where
  "FixtureResult files name =
     (case FixtureText files name of
        None \<Rightarrow> None
      | Some body \<Rightarrow>
          (case parse_json body of
             Some (JObj ms) \<Rightarrow> fold decode_fixture_field ms (Some [])
           | Some JNull \<Rightarrow> Some []
           | _ \<Rightarrow> None))"

section \<open>Captured responses as templates\<close>

lemma result_matches:
  "match_field [''result''] ''id'' = None" "match_field [''result''] ''jsonrpc'' = None"
  "match_field [''result''] ''result'' = Some ''result''"
  by code_simp+

lemma fixture_of_report:
  assumes "device_ok ip d" "parse_ipv4 ip \<noteq> None" "files (name @ ''.json'') = Some (InfoPayload ip d)"
  shows "FixtureResult files name = Some (sort_key fst (InfoResult ip d))"
proof -
  let ?raw = "sort_key fst (InfoResult ip d)"
  have "fold (\<lambda>(k, v). AList.update k v) ?raw [] = ?raw"
    using fold_update_append [of "[]" ?raw] distinct_sorted [OF InfoResult_facts(1) [OF assms(1,2)]] by simp
  then show ?thesis
    by (simp add: FixtureResult_def FixtureText_def assms(3) payload_parses [OF assms(1,2)] decode_fixture_field_def
        result_matches go_map_def)
qed

text \<open>Reporting is determined by the template as a map, the MAC and the channel.\<close>

lemma update_known: "map_of al k = Some v \<Longrightarrow> distinct (map fst al) \<Longrightarrow> AList.update k v al = al"
proof (induction al)
  case (Cons a al)
  then show ?case by (cases a) (auto dest: map_of_SomeD)
qed simp

lemma sort_known:
  assumes "distinct (map fst al)"
  shows "sort_key fst (sort_key fst al :: (string \<times> json) list) = sort_key fst al"
  by (simp add: sort_key_id_if_sorted)

lemma report_again:
  assumes "dv_Template d' = sort_key fst (InfoResult ip d)" "dv_MAC d' = dv_MAC d" "dv_Reported d' = dv_Reported d"
    and "device_ok ip d" "parse_ipv4 ip \<noteq> None"
  shows "InfoPayload ip d' = InfoPayload ip d"
proof -
  let ?raw = "sort_key fst (InfoResult ip d)"
  note distinct = InfoResult_facts(1) [OF assms(4,5)]
  have fields: "map_of ?raw ''lan_mac_addr'' = Some (JStr (map upper_char (dv_MAC d)))"
    "map_of ?raw ''lan_ip_addr'' = Some (JStr ip)" "map_of ?raw ''channel_id'' = Some (jint (dv_Reported d))"
    unfolding map_of_sorted [OF distinct] map_of_InfoResult by (simp_all add: InfoResult_def update_conv')
  note known = update_known [OF fields(1) distinct_sorted [OF distinct]] update_known [OF fields(2) distinct_sorted [OF distinct]]
    update_known [OF fields(3) distinct_sorted [OF distinct]]
  have "InfoResult ip d' = ?raw"
    unfolding InfoResult_def [of ip d'] assms(1-3) known ..
  then show ?thesis by (simp add: InfoPayload_def go_map_def sort_known [OF distinct])
qed

lemma captured_device_answers:
  assumes "device_ok ip d" "parse_ipv4 ip \<noteq> None" "files (name @ ''.json'') = Some (InfoPayload ip d)"
    and "do_MAC opts = dv_MAC d" "do_Overrides opts = []" "do_Reported opts = None"
  obtains template dev where "FixtureResult files name = Some template" "NewDevice lit template opts = Some dev"
    "InfoPayload ip (dv_State dev) = InfoPayload ip d"
proof -
  let ?raw = "sort_key fst (InfoResult ip d)"
  have raw: "map_of ?raw ''channel_id'' = Some (jint (dv_Reported d))"
    unfolding map_of_sorted [OF InfoResult_facts(1) [OF assms(1,2)]] by (rule map_of_InfoResult)
  have "number_int lit (itoa (dv_Reported d)) = dv_Reported d" using assms(1) parse_int64_itoa [of "dv_Reported d"]
    by (simp add: number_int_def device_ok_def ValidChannel_iff)
  then obtain dev where "NewDevice lit ?raw opts = Some dev" "dv_Template (dv_State dev) = ?raw"
      "dv_MAC (dv_State dev) = dv_MAC d" "dv_Reported (dv_State dev) = dv_Reported d"
    by (simp add: NewDevice_def raw assms(4-6) Let_def)
  then show ?thesis using that fixture_of_report [where files = files and name = name, OF assms(1-3)] report_again [OF _ _ _ assms(1,2)] by blast
qed

end
