(* ===== verification/Fake_Mqtt.thy ===== *)
theory Fake_Mqtt
  imports Mqtt_Session Json_Roundtrip Controller_View
begin

text \<open>
  Package \<open>internal/testutil\<close>, file \<open>fakemqtt.go\<close>: the broker connection that the repository's
  tests use in place of the production session.  It records what is published, and it is the
  second implementation of the interface \<open>connection\<close>.  The delay before a publish is left out.
  The properties say that what tests read from it (\<open>Retained\<close>, \<open>DiscoveryConfigs\<close>) is what a
  broker would hold.
\<close>

section \<open>Definitions\<close>

record Published =
  pm_Topic :: string
  pm_Payload :: string
  pm_Retain :: bool

record 'st FakeMQTT =
  fm_published :: "Published list"
  fm_subscriptions :: "string list"
  fm_onMessage :: "'st message_handler list"
  fm_onConnect :: "('st \<Rightarrow> 'st) list"
  fm_connected :: bool
  fm_Ended :: bool

definition NewFakeMQTT :: "bool \<Rightarrow> 'st FakeMQTT" where
  "NewFakeMQTT connected =
     \<lparr>fm_published = [], fm_subscriptions = [], fm_onMessage = [], fm_onConnect = [], fm_connected = connected, fm_Ended = False\<rparr>"

definition fake_Publish :: "string \<Rightarrow> string \<Rightarrow> bool \<Rightarrow> 'st FakeMQTT \<Rightarrow> 'st FakeMQTT" where
  "fake_Publish topic payload retain f =
     f\<lparr>fm_published := fm_published f @ [\<lparr>pm_Topic = topic, pm_Payload = payload, pm_Retain = retain\<rparr>]\<rparr>"

definition fake_Subscribe :: "string list \<Rightarrow> 'st FakeMQTT \<Rightarrow> 'st FakeMQTT" where
  "fake_Subscribe topics f = f\<lparr>fm_subscriptions := fm_subscriptions f @ topics\<rparr>"

definition fake_OnMessage :: "'st message_handler \<Rightarrow> 'st FakeMQTT \<Rightarrow> 'st FakeMQTT" where
  "fake_OnMessage h f = f\<lparr>fm_onMessage := fm_onMessage f @ [h]\<rparr>"

definition fake_OnConnect :: "('st \<Rightarrow> 'st) \<Rightarrow> 'st FakeMQTT \<Rightarrow> 'st FakeMQTT" where
  "fake_OnConnect h f = f\<lparr>fm_onConnect := fm_onConnect f @ [h]\<rparr>"

text \<open>\<open>ctx_err\<close> is the state of the caller's context.\<close>

definition fake_AwaitConnection :: "go_error option \<Rightarrow> 'st FakeMQTT \<Rightarrow> go_error option" where
  "fake_AwaitConnection ctx_err f = (if fm_connected f then None else ctx_err)"

definition fake_Close :: "'st FakeMQTT \<Rightarrow> 'st FakeMQTT" where
  "fake_Close f = f\<lparr>fm_Ended := True, fm_connected := False\<rparr>"

definition Deliver :: "string \<Rightarrow> string \<Rightarrow> 'st FakeMQTT \<times> 'st \<Rightarrow> 'st FakeMQTT \<times> 'st" where
  "Deliver topic payload fs = (case fs of (f, st) \<Rightarrow> (f, fold (\<lambda>h. h topic payload) (fm_onMessage f) st))"

definition SimulateDisconnect :: "'st FakeMQTT \<times> 'st \<Rightarrow> 'st FakeMQTT \<times> 'st" where
  "SimulateDisconnect fs = (case fs of (f, st) \<Rightarrow> (f\<lparr>fm_connected := False\<rparr>, st))"

definition SimulateConnect :: "'st FakeMQTT \<times> 'st \<Rightarrow> 'st FakeMQTT \<times> 'st" where
  "SimulateConnect fs = (case fs of (f, st) \<Rightarrow>
     let f = f\<lparr>fm_connected := True\<rparr> in (f, fold (\<lambda>h. h) (fm_onConnect f) st))"

definition Clear :: "'st FakeMQTT \<Rightarrow> 'st FakeMQTT" where
  "Clear f = f\<lparr>fm_published := []\<rparr>"

definition MessagesOn :: "string \<Rightarrow> 'st FakeMQTT \<Rightarrow> Published list" where
  "MessagesOn topic f = filter (\<lambda>p. pm_Topic p = topic) (fm_published f)"

definition PayloadsOn :: "string \<Rightarrow> 'st FakeMQTT \<Rightarrow> string list" where
  "PayloadsOn topic f = map pm_Payload (MessagesOn topic f)"

definition LastOn :: "string \<Rightarrow> 'st FakeMQTT \<Rightarrow> Published option" where
  "LastOn topic f = (let msgs = MessagesOn topic f in if msgs = [] then None else Some (last msgs))"

text \<open>The zero value of \<open>Published\<close> has an empty payload.\<close>

definition LastPayload :: "string \<Rightarrow> 'st FakeMQTT \<Rightarrow> string" where
  "LastPayload topic f = (case LastOn topic f of None \<Rightarrow> [] | Some p \<Rightarrow> pm_Payload p)"

definition retain :: "Published \<Rightarrow> (string \<times> string) list \<Rightarrow> (string \<times> string) list" where
  "retain p out =
     (if \<not> pm_Retain p then out
      else if pm_Payload p = [] then AList.delete (pm_Topic p) out
      else AList.update (pm_Topic p) (pm_Payload p) out)"

definition Retained :: "'st FakeMQTT \<Rightarrow> (string \<times> string) list" where
  "Retained f = fold retain (fm_published f) []"

text \<open>\<open>json.Unmarshal\<close> into a \<open>map[string]any\<close>; a number keeps its literal.\<close>

definition decode_any_map :: "string \<Rightarrow> (string \<times> json) list option" where
  "decode_any_map payload =
     (case parse_json payload of Some (JObj ms) \<Rightarrow> Some (decode_map ms) | Some JNull \<Rightarrow> Some [] | _ \<Rightarrow> None)"

definition is_config :: "string \<Rightarrow> bool" where
  "is_config topic \<longleftrightarrow> prefix ''homeassistant/'' topic \<and> suffix ''/config'' topic"

definition add_config ::
  "string \<times> string \<Rightarrow> (string \<times> (string \<times> json) list) list \<Rightarrow> (string \<times> (string \<times> json) list) list" where
  "add_config m out =
     (if is_config (fst m)
      then (case decode_any_map (snd m) of None \<Rightarrow> out | Some cfg \<Rightarrow> AList.update (fst m) cfg out)
      else out)"

definition DiscoveryConfigs :: "'st FakeMQTT \<Rightarrow> (string \<times> (string \<times> json) list) list" where
  "DiscoveryConfigs f = fold add_config (Retained f) []"

section \<open>The second implementation of the interface\<close>

interpretation fake: connection fake_OnMessage fake_OnConnect Deliver SimulateConnect SimulateDisconnect
  fm_connected fm_onMessage fm_onConnect
  by unfold_locales
    (simp_all add: fake_OnMessage_def fake_OnConnect_def Deliver_def SimulateConnect_def SimulateDisconnect_def Let_def)

text \<open>Both implementations drive the same handlers in the same way.\<close>

lemma fake_like_paho:
  assumes "fm_onMessage f = [h]" "fm_onConnect f = [k]" "messageHandlers p = [h]" "connectHandlers p = [k]"
  shows "snd (fold fake.on_event evs (f, st)) = snd (fold paho.on_event evs (p, st))"
  using fake.events_run [OF assms(1,2), of evs st] paho.events_run [OF assms(3,4), of evs st] by simp

section \<open>What tests read\<close>

abbreviation retained_calls :: "'st FakeMQTT \<Rightarrow> publish_call list" where
  "retained_calls f \<equiv> map (\<lambda>p. (pm_Topic p, pm_Payload p)) (filter pm_Retain (fm_published f))"

lemma retain_broker: "map_of (fold retain ps out) = broker (map (\<lambda>p. (pm_Topic p, pm_Payload p)) (filter pm_Retain ps)) (map_of out)"
  by (induction ps arbitrary: out) (simp_all add: retain_def broker_Cons nonempty_def update_conv' delete_conv')

lemma Retained_broker: "map_of (Retained f) = broker (retained_calls f) Map.empty"
  by (simp add: Retained_def retain_broker)

lemma Retained_distinct: "distinct (map fst (Retained f))"
proof -
  have "distinct (map fst out) \<Longrightarrow> distinct (map fst (fold retain ps out))" for ps out
    by (induction ps arbitrary: out) (simp_all add: retain_def distinct_update distinct_delete)
  then show ?thesis by (simp add: Retained_def)
qed

lemma add_config_lookup:
  "map_of (add_config m out) topic =
     (case (if fst m = topic \<and> is_config topic then decode_any_map (snd m) else None) of
        None \<Rightarrow> map_of out topic | Some cfg \<Rightarrow> Some cfg)"
  by (auto simp: add_config_def update_conv' split: option.splits)

lemma fold_add_config:
  "distinct (map fst ps) \<Longrightarrow> map_of (fold add_config ps out) topic =
     (case (if is_config topic then Option.bind (map_of ps topic) decode_any_map else None) of
        None \<Rightarrow> map_of out topic | Some cfg \<Rightarrow> Some cfg)"
proof (induction ps arbitrary: out)
  case (Cons p ps)
  have "fst p = topic \<Longrightarrow> map_of ps topic = None" using Cons.prems by (auto simp: map_of_eq_None_iff)
  then show ?case using Cons
    by (cases p; cases "fst p = topic") (auto simp: add_config_lookup split: option.splits)
qed simp

lemma DiscoveryConfigs_lookup:
  "is_config topic \<Longrightarrow> map_of (DiscoveryConfigs f) topic = Option.bind (map_of (Retained f) topic) decode_any_map"
  by (simp add: DiscoveryConfigs_def fold_add_config [OF Retained_distinct] split: option.splits)

section \<open>Announced configurations are read back\<close>

text \<open>A member of a configuration: an ASCII key, and a value that the reader accepts.\<close>

definition member_ok :: "string \<times> json \<Rightarrow> bool" where
  "member_ok m \<longleftrightarrow> ascii (fst m) \<and> fits 1 (snd m)"

lemma member_ok_update: "list_all member_ok ms \<Longrightarrow> member_ok (k, v) \<Longrightarrow> list_all member_ok (AList.update k v ms)"
  by (induction ms) auto

lemma fits_update:
  "list_all (\<lambda>m. fits d (snd m)) ms \<Longrightarrow> fits d v \<Longrightarrow> list_all (\<lambda>m. fits d (snd m)) (AList.update k v ms)"
  by (induction ms) auto

lemma fits_jstrs: "d < maxNestingDepth \<Longrightarrow> fits d (jstrs xs)"
  by (simp add: list_all_iff)

lemma shallow: "1 < maxNestingDepth" "Suc 0 < maxNestingDepth" "2 < maxNestingDepth" "Suc (Suc 0) < maxNestingDepth" "Suc (Suc (Suc 0)) < maxNestingDepth"
  by (simp_all add: maxNestingDepth_def)

lemma fits_shared: "fits 1 (adapterDevice a)" "fits 1 (origin og)" "fits 1 (JArr [controllerAvailability])"
  "fits 1 (JArr [controllerAvailability, go_map [(x, JStr s), (y, JStr t), (z, JStr u)]])"
  by (simp_all add: adapterDevice_def origin_def controllerAvailability_def shallow fits_update fits_jstrs Let_def)

lemma fields_ok:
  assumes "e \<in> {nameText, ipSensor, roleSensor, receiverChannel, transmitterChannel, channelSensor, sourceSelect}"
  shows "list_all member_ok (en_fields e t opts) \<and> distinct (map fst (en_fields e t opts))"
  using assms by (elim insertE emptyE)
    (simp_all add: entity_defs member_ok_def ascii_def valid_number_itoa shallow fits_jstrs list_all_iff)

lemma entities_known:
  "e \<in> set (entitiesFor r) \<Longrightarrow> e \<in> {nameText, ipSensor, roleSensor, receiverChannel, transmitterChannel, channelSensor, sourceSelect}"
  by (auto simp: entitiesFor_def Let_def split: if_splits)

lemma build_ok:
  assumes "e \<in> set (entitiesFor r)"
  shows "list_all member_ok (ms_Payload (build a e opts og)) \<and> distinct (map fst (ms_Payload (build a e opts og)))"
proof -
  note f = fields_ok [OF entities_known [OF assms], of "ForDevice (ad_MAC a)" opts]
  have ok: "member_ok (''device'', adapterDevice a)" "member_ok (''origin'', origin og)"
    "member_ok (''availability'', JArr [controllerAvailability])"
    "member_ok (''availability'', JArr [controllerAvailability, go_map [(x, JStr s), (y, JStr t), (z, JStr u)]])" for x s y t z u
    using fits_shared by (simp_all add: member_ok_def ascii_def del: fits.simps fits_go_map)
  have str: "ascii k \<Longrightarrow> member_ok (k, JStr s)" for k s by (simp add: member_ok_def)
  have names: "ascii ''name''" "ascii ''unique_id''" "ascii ''object_id''" "ascii ''icon''" "ascii ''entity_category''" "ascii ''availability_mode''"
    by (simp_all add: ascii_def)
  show ?thesis unfolding build_def Let_def
    by (simp add: f member_ok_update ok str names distinct_update)
qed

lemma is_config_topic: "is_config (HADiscoveryTopic c n x)"
  by (auto simp: is_config_def HADiscoveryTopic_def HADiscoveryPrefix_def suffix_def)

lemma JSON_decodes:
  assumes "list_all member_ok (ms_Payload m)" "distinct (map fst (ms_Payload m))"
  shows "decode_any_map (JSON m) = Some (map (\<lambda>x. (fst x, sanitize (snd x))) (sort_key fst (ms_Payload m)))"
proof -
  let ?ms = "map (\<lambda>x. (fst x, sanitize (snd x))) (sort_key fst (ms_Payload m))"
  have "fits 0 (go_map (ms_Payload m))" "list_all (\<lambda>x. ascii (fst x)) (ms_Payload m)"
    using assms(1) by (simp_all add: member_ok_def list_all_iff maxNestingDepth_def)
  then have "parse_json (JSON m) = Some (JObj ?ms)" by (simp add: JSON_def parse_marshal sanitize_go_map del: fits_go_map)
  moreover have keys: "distinct (map fst ([] @ ?ms))" using distinct_sorted [OF assms(2)] by (simp add: comp_def)
  then have "decode_map ?ms = ?ms" unfolding decode_map_def by (simp only: fold_update_append [OF keys] append_Nil)
  ultimately show ?thesis by (simp add: decode_any_map_def)
qed

section \<open>Properties\<close>

text \<open>C30: what a test of the repository reads from the recording connection is what the controller
  announces: after any run, the decoded configuration under every topic of every known adapter is
  the one built for that adapter, member by member, with invalid bytes of device texts replaced.\<close>

theorem configs_read_back:
  assumes "table_wf db" "ev_db e w = None" "fst (ev_await e w)"
    and "system_run (http_env rt e) og db inputs w = (s, w')"
    and "fm_published f = map (\<lambda>(t, v). \<lparr>pm_Topic = t, pm_Payload = v, pm_Retain = True\<rparr>) (pb_sent (co_pub s))"
    and "a \<in> set (All (co_registry s))" "m \<in> set (AdapterMessages a (Options (Sources (co_registry s))) og)"
  shows "map_of (DiscoveryConfigs f) (ms_Topic m) =
    Some (map (\<lambda>x. (fst x, sanitize (snd x))) (sort_key fst (ms_Payload m)))"
proof -
  let ?r = "co_registry s"
  have "view_inv og Map.empty (s, w')"
    using http.system_run_view [where rt = rt and e = e and db = db and w = w] assms(1-4) by (metis http_env_frame)
  then have "shown ?r og (broker (pb_sent (co_pub s)) Map.empty)" by (auto simp: view_inv_def ha_inv_def in_view_def)
  moreover have "retained_calls f = pb_sent (co_pub s)"
    unfolding assms(5) by (induction "pb_sent (co_pub s)" arbitrary: s) (simp_all add: filter_map comp_def case_prod_beta)
  then have "map_of (Retained f) = broker (pb_sent (co_pub s)) Map.empty" by (simp add: Retained_broker)
  ultimately have "map_of (Retained f) (ms_Topic m) = Some (JSON m)"
    using assms(6,7) by (auto simp: shown_def list_all_iff adapter_shown_def Let_def)
  moreover obtain x where x: "m = build a x (Options (Sources ?r)) og" "x \<in> set (entitiesFor (ad_Role a))"
    using assms(7) by (auto simp: AdapterMessages_def)
  moreover have "is_config (ms_Topic m)" by (simp add: x(1) config_topic_def is_config_topic)
  ultimately show ?thesis using build_ok [OF x(2), of a "Options (Sources ?r)" og]
    by (simp add: DiscoveryConfigs_lookup JSON_decodes)
qed

theorem configs_read_back_witness:
  "let s = fst (system_run (http_env silent house) house_origin house_db
             [MessageArrived ''dt241m/device/fc19286cd6d8/name/set'' ''Lobby''] ());
       f = (NewFakeMQTT True :: unit FakeMQTT)
         \<lparr>fm_published := map (\<lambda>(t, v). \<lparr>pm_Topic = t, pm_Payload = v, pm_Retain = True\<rparr>) (pb_sent (co_pub s))\<rparr>;
       a = house_adapter\<lparr>ad_Name := Some ''Lobby''\<rparr>; m = build a nameText [] house_origin
   in map_of (DiscoveryConfigs f) (ms_Topic m) = Some (map (\<lambda>x. (fst x, sanitize (snd x))) (sort_key fst (ms_Payload m)))"
proof -
  let ?run = "system_run (http_env silent house) house_origin house_db
             [MessageArrived ''dt241m/device/fc19286cd6d8/name/set'' ''Lobby''] ()"
  let ?a = "house_adapter\<lparr>ad_Name := Some ''Lobby''\<rparr>"
  have a: "?a \<in> set (All (co_registry (fst ?run)))" by (simp add: house_renamed All_def)
  have opts: "Options (Sources (co_registry (fst ?run))) = []" unfolding house_renamed by code_simp
  have m: "build ?a nameText [] house_origin \<in> set (AdapterMessages ?a (Options (Sources (co_registry (fst ?run)))) house_origin)"
    by (simp add: AdapterMessages_def entitiesFor_def opts Let_def)
  show ?thesis unfolding Let_def
    by (rule configs_read_back [OF house_db_wf _ _ surjective_pairing _ a m]) (simp_all add: house_def)
qed

end
