(* ===== verification/Spec2Isabelle.thy ===== *)
theory Spec2Isabelle
  imports Program Publish_Race Persist_Race Keyed_Queue Worker_Pool Discovery_Flight Shutdown Sim_House Fixtures Fake_Mqtt
begin

text \<open>
  A verification library for the DT241M controller, the Home Assistant add-on in
  \<open>src/dt241m-controller\<close> that bridges HDMI-over-IP units to MQTT.

  \<^bold>\<open>The program.\<close>  \<open>main.go\<close> loads the configuration, opens the database, sets up the broker
  session and runs the controller until it is told to stop.  The controller
  (\<open>internal/controller\<close>) probes the addresses of the scan ranges with the device client
  (\<open>internal/dt241m\<close>), keeps what the devices report in the registry (\<open>internal/registry\<close>) and
  in the database (\<open>internal/store\<close>), and publishes it over the broker session
  (\<open>internal/mqtt\<close>).  Commands arrive as broker messages, are parsed by the router, and become
  renames, rescans or channel changes; the latter go through a queue with one lane per adapter,
  probe the address first, write once, and read the result back.

  \<^bold>\<open>Theories\<close>, in the order of the code's layers:

  \<^item> \<open>Prelude\<close>: lists, association lists, decimal texts, UTF-8 runes, errors with causes, time.
    \<open>Json\<close> (values, decoding into structs and maps, \<open>json.Marshal\<close>), \<open>Json_Parser\<close>
    (\<open>json.Unmarshal\<close>'s reading of a text), \<open>Json_Roundtrip\<close> (parsing what is marshalled gives it
    back, with invalid UTF-8 replaced) and \<open>Ipv4\<close> (\<open>netip\<close>) model the parts of Go's standard
    library that the claims depend on.
  \<^item> \<open>Mac\<close> (\<open>internal/mac\<close>): canonical form, compact form, adapter identifier.
  \<^item> \<open>Device\<close> (\<open>dt241m.go\<close>): error codes, decoding of a device report, roles.  \<open>Rpc_Client\<close>
    (\<open>client.go\<close>): requests, responses, and which failures are ambiguous.  The HTTP transport is
    a function \<open>round_tripper\<close> on a state of the outside world.
  \<^item> \<open>Registry\<close> (\<open>adapter.go\<close>, \<open>registry.go\<close>): the inventory as an association list from
    canonical MAC to \<open>adapter\<close>; the invariant \<open>reg_wf\<close> says that entries are filed
    under their own canonical MAC and that their fields are as an observation leaves them;
    no two online adapters share an address.  \<open>Sources\<close> (\<open>sources.go\<close>): the table of selectable transmitters.
  \<^item> \<open>Store\<close> (\<open>store.go\<close>, \<open>memstore.go\<close>): the table of rows, its conflict clause and its
    migrations.  The locale \<open>adapter_store\<close> states what callers rely on; the SQL table and the
    in-memory store of the tests are its interpretations.
  \<^item> \<open>Topics\<close> (\<open>topics.go\<close>, \<open>router.go\<close>): topic layout, command recognition, payload parsing with
    the rounding of \<open>float64\<close> made explicit.  \<open>Entities\<close> (\<open>discovery.go\<close>): the entity table and
    the discovery payloads.
  \<^item> \<open>Publisher\<close> (\<open>publish.go\<close>): every publishing method on a record of the publishes
    attempted; which of them the broker receives (\<open>received\<close>) is a choice of the environment, as a failed publish is only logged.
    \<open>Publisher_View\<close> gives the abstract specification: a function from the inventory to the
    retained messages that Home Assistant should see, and that every method re-establishes it.
    \<open>Publish_Race\<close> lets goroutines interleave between the change of the inventory and its
    publication: what is due settles, with the exception of \<open>source_left_stale\<close>.
  \<^item> \<open>Config\<close> (\<open>config.go\<close>, \<open>cidr.go\<close>): options, scan ranges, broker settings.
  \<^item> \<open>Controller\<close> (\<open>types.go\<close>, \<open>discovery.go\<close>, \<open>write.go\<close>, \<open>controller.go\<close>): every operation in
    state-passing style on the record \<open>controller\<close> (registry, publisher, database, flags) and
    the state of the world; \<open>react\<close> handles one input.  \<open>Controller_Invariant\<close> is an
    induction principle: whatever the basic updates preserve,
    every operation preserves (locales \<open>step_invariant\<close>, \<open>full_invariant\<close> and, for what
    depends only on inventory and publisher, \<open>ha_invariant\<close>).  \<open>Controller_View\<close>, \<open>Controller_Store\<close> and \<open>Controller_Safety\<close> use
    it for the published view, for the agreement of inventory and database, and for what is
    written to devices.  \<open>Persist_Race\<close> lets goroutines interleave between the change of the
    inventory and its save, over the laws of \<open>adapter_store\<close> alone.
  \<^item> \<open>Keyed_Queue\<close> (\<open>queue.go\<close>) and \<open>Worker_Pool\<close> (\<open>probe.go\<close>): the goroutines as step relations,
    with every interleaving; invariants by rule induction, deadlock freedom, and a measure that
    every step decreases.
  \<^item> \<open>Mqtt_Session\<close> (\<open>conn.go\<close>, \<open>paho.go\<close>): client configuration, packets and callbacks; the
    locale \<open>connection\<close> is the interface the controller registers its handlers with.
  \<^item> \<open>Discovery_Flight\<close> (\<open>RunDiscovery\<close> and \<open>Stop\<close>) and \<open>Shutdown\<close> (\<open>Start\<close>, \<open>pollLoop\<close>, \<open>background\<close>,
    \<open>Stop\<close>): the synchronisation of the controller's goroutines as step relations; scans are
    single-flight, with the mutex explicit, and what a shutdown waits for comes to an end.
  \<^item> \<open>Program\<close> (\<open>main.go\<close>): the composition, from configuration to shutdown.
  \<^item> The offline doubles of the tests (\<open>internal/testutil\<close>).  \<open>Sim_Network\<close> (\<open>device.go\<close>,
    \<open>network.go\<close>): a LAN of simulated devices, which is one concrete outside world of the device
    client, and \<open>Fixtures\<close> (\<open>fixtures.go\<close>): captured responses as their templates.
    \<open>Sim_House\<close> runs the controller on it, so that a channel command is followed
    from the broker message to the device's state and back.  \<open>Fake_Mqtt\<close> (\<open>fakemqtt.go\<close>): the
    recording broker session, the second interpretation of \<open>connection\<close>.

  \<^bold>\<open>What the properties show.\<close>  End to end: after any sequence of inputs the retained messages at the broker mirror the
  inventory if nothing was lost since the last full sweep (each new session makes one), whatever was lost before; a restart begins with the inventory that was left; a
  write is only sent on an accepted command, once, with the commanded channel, and to an address whose last answer came from the
  adapter or had a MAC that cannot be normalised (the lemma \<open>unproven_address_written\<close> shows that the latter happens).  Per component:
  invariants of the registry, functional descriptions of its operations, round trips of the
  store, the labels, the topics and the discovery payloads, exactness of parsers and address
  ranges, safety of migrations, mutual exclusion, order and liveness of the queue, the pool, the scans and the shutdown.  On the simulated
  LAN a routed channel command leads to exactly one write, and the outcome and the inventory then show what the
  device reports.  The theories \<open>Publisher_View\<close>, \<open>Publish_Race\<close>, \<open>Sim_House\<close> and \<open>Fake_Mqtt\<close> speak of a session in
  which every publish is delivered; \<open>Controller_View\<close> drops that assumption.

  \<^bold>\<open>Conventions.\<close>  Integers of the source are unbounded here where they come from bounded texts
  or are range-checked before use; channels, ports and addresses carry their bounds as proved facts,
  IPv4 addresses are 32-bit words where the code computes with them.  Errors are
  values of option or sum types.  Strings are lists of bytes.  Publishing order is kept; the
  database is a list of rows in order of first insertion.  The JSON parser has a fuel argument
  of twice the length of the text plus two, which is proved to be enough.  On the simulated LAN \<open>ends\<close> is the
  error of an expired request context and \<open>lit\<close> the integer value of a literal beyond 53 bits.

  \<^bold>\<open>Not modelled.\<close>  The MQTT, SQLite and HTTP libraries themselves (their answers are
  arguments), log output, operating-system signals, timers and deadlines (a deadline that passes
  is an error the environment returns), interleavings inside one operation (operations of the
  controller are atomic here, except in \<open>Publish_Race\<close>, \<open>Persist_Race\<close> and the other theories of step relations), the multipart encoding of a
  request (a request carries its form fields), and the memory of the Go
  runtime.
\<close>

end
